(* ===== verification/Prelude.thy ===== *)
theory Prelude
  imports Complex_Main "HOL-Library.State_Monad"
begin

text \<open>
  Shared vocabulary of the development: effectful Go functions as programs of a state
  monad, a weakest-precondition calculus for them, Go's error values, and the generic
  lemmas about 64-bit wrap-around and association lists the components share.
\<close>

section \<open>Effectful programs and their weakest preconditions\<close>

text \<open>
  A Go function that talks to Redis, reads the clock or records a metric is a program
  \<open>('s, 'a) io\<close>: it runs on the state \<open>'s\<close> of the world outside the process and
  returns a value of type \<open>'a\<close>.
\<close>

type_synonym ('s, 'a) io = "('s, 'a) state"

abbreviation ret :: "'a \<Rightarrow> ('s, 'a) io" where
  "ret \<equiv> State_Monad.return"

named_theorems wp_eqs "computation rules of the weakest precondition"

definition wp :: "('s, 'a) io \<Rightarrow> ('a \<Rightarrow> 's \<Rightarrow> bool) \<Rightarrow> 's \<Rightarrow> bool" where
  "wp m Q s = (case run_state m s of (a, s') \<Rightarrow> Q a s')"

lemma wp_return [wp_eqs]: "wp (ret a) Q = Q a"
  by (rule ext) (simp add: wp_def)

lemma wp_bind [wp_eqs]: "wp (State_Monad.bind m f) Q = wp m (\<lambda>a. wp (f a) Q)"
  by (rule ext) (simp add: wp_def split: prod.splits)

lemma wp_if [wp_eqs]: "wp (if b then m else n) Q s = (if b then wp m Q s else wp n Q s)"
  by simp

lemma wp_case_sum [wp_eqs]:
  "wp (case r of Inl e \<Rightarrow> f e | Inr a \<Rightarrow> g a) Q s =
   (case r of Inl e \<Rightarrow> wp (f e) Q s | Inr a \<Rightarrow> wp (g a) Q s)"
  by (simp split: sum.splits)

lemma wp_case_option [wp_eqs]:
  "wp (case r of None \<Rightarrow> f | Some a \<Rightarrow> g a) Q s =
   (case r of None \<Rightarrow> wp f Q s | Some a \<Rightarrow> wp (g a) Q s)"
  by (simp split: option.splits)

lemma wp_case_prod [wp_eqs]:
  "wp (case r of (a, b) \<Rightarrow> f a b) Q s = (case r of (a, b) \<Rightarrow> wp (f a b) Q s)"
  by (simp split: prod.splits)

lemma wp_case_list [wp_eqs]:
  "wp (case xs of [] \<Rightarrow> f | y # ys \<Rightarrow> g y ys) Q s =
   (case xs of [] \<Rightarrow> wp f Q s | y # ys \<Rightarrow> wp (g y ys) Q s)"
  by (simp split: list.splits)

lemma wp_let [wp_eqs]: "wp (Let x f) Q s = (let y = x in wp (f y) Q s)"
  by simp

lemma wp_mono: "wp m P s \<Longrightarrow> (\<And>a s'. P a s' \<Longrightarrow> Q a s') \<Longrightarrow> wp m Q s"
  by (auto simp: wp_def)

lemma wp_conj: "wp m P s \<Longrightarrow> wp m Q s \<Longrightarrow> wp m (\<lambda>a s'. P a s' \<and> Q a s') s"
  by (auto simp: wp_def)

lemma wp_runD: "wp m Q s \<Longrightarrow> run_state m s = (a, s') \<Longrightarrow> Q a s'"
  by (simp add: wp_def)

lemma wp_runI: "(\<And>a s'. run_state m s = (a, s') \<Longrightarrow> Q a s') \<Longrightarrow> wp m Q s"
  by (auto simp: wp_def split: prod.splits)

text \<open>A run whose value is known, for the closed witnesses.\<close>

lemma run_fstI: "fst (run_state m s) = a \<Longrightarrow> run_state m s = (a, snd (run_state m s))"
  by (cases "run_state m s") simp

text \<open>A loop over a list that only performs effects.\<close>

fun for_each :: "'a list \<Rightarrow> ('a \<Rightarrow> ('s, unit) io) \<Rightarrow> ('s, unit) io" where
  "for_each [] f = ret ()"
| "for_each (x # xs) f = do { _ \<leftarrow> f x; for_each xs f }"

text \<open>The rule for such a loop: an invariant over the elements done and those to come.\<close>

lemma wp_for_each:
  assumes "Inv xs s"
    and step: "\<And>x ys s'. Inv (x # ys) s' \<Longrightarrow> wp (f x) (\<lambda>_. Inv ys) s'"
    and "\<And>s'. Inv [] s' \<Longrightarrow> Q () s'"
  shows "wp (for_each xs f) Q s"
  using assms(1)
proof (induction xs arbitrary: s)
  case Nil
  then show ?case using assms(3) by (simp add: wp_eqs)
next
  case (Cons x xs)
  from step [OF Cons.prems] Cons.IH show ?case
    by (auto simp: wp_eqs intro: wp_mono)
qed

section \<open>Errors\<close>

text \<open>
  Go's error values. The sentinels are the \<^verbatim>\<open>errors.New\<close> values of
  \<^verbatim>\<open>task/state.go\<close> and \<^verbatim>\<open>worker/executor.go\<close>; \<open>RedisNil\<close> is the client's
  \<^verbatim>\<open>redis.Nil\<close>, \<open>ErrRedis\<close> any other error reply of Redis or of the connection,
  \<open>ErrJSON\<close> an error of \<^verbatim>\<open>encoding/json\<close>, \<open>Wrapf\<close> the result of
  \<^verbatim>\<open>fmt.Errorf("...: %w", err)\<close> and \<open>Errorf\<close> an error made from a text.
  \<open>CtxDeadline\<close> and \<open>CtxCanceled\<close> are the two errors of a done context, and
  \<open>NilDereference\<close> stands for the panic of a nil pointer access.
\<close>

datatype error =
    ErrInvalidTransition
  | ErrInvalidTaskData
  | ErrTaskNotFound
  | ErrTaskAlreadyExists
  | ErrHandlerNotFound
  | ErrTaskTimeout
  | ErrTaskCanceled
  | RedisNil
  | ErrRedis string
  | ErrJSON
  | CtxDeadline
  | CtxCanceled
  | Errorf string
  | Wrapf string error
  | NilDereference

type_synonym 'a res = "error + 'a"

fun error_text :: "error \<Rightarrow> string" where
  "error_text ErrInvalidTransition = ''invalid state transition''"
| "error_text ErrInvalidTaskData = ''invalid task data''"
| "error_text ErrTaskNotFound = ''task not found''"
| "error_text ErrTaskAlreadyExists = ''task already exists''"
| "error_text ErrHandlerNotFound = ''handler not found for task type''"
| "error_text ErrTaskTimeout = ''task execution timed out''"
| "error_text ErrTaskCanceled = ''task execution canceled''"
| "error_text RedisNil = ''redis: nil''"
| "error_text (ErrRedis m) = m"
| "error_text ErrJSON = ''json: unsupported value''"
| "error_text CtxDeadline = ''context deadline exceeded''"
| "error_text CtxCanceled = ''context canceled''"
| "error_text (Errorf m) = m"
| "error_text (Wrapf m e) = m @ '': '' @ error_text e"
| "error_text NilDereference =
     ''runtime error: invalid memory address or nil pointer dereference''"

text \<open>\<^verbatim>\<open>errors.Is(err, target)\<close>: the target is the error or one it wraps.\<close>

fun errors_Is :: "error \<Rightarrow> error \<Rightarrow> bool" where
  "errors_Is (Wrapf m e) target = (Wrapf m e = target \<or> errors_Is e target)"
| "errors_Is e target = (e = target)"

section \<open>64-bit signed integers\<close>

text \<open>
  Go's \<^verbatim>\<open>int\<close>, \<^verbatim>\<open>int64\<close> and \<^verbatim>\<open>time.Duration\<close> are 64 bits wide on the
  platforms of the deployment. They are integers here, and \<open>wrap64\<close> is written where
  the code multiplies or adds values that can leave the range.
\<close>

definition wrap64 :: "int \<Rightarrow> int" where
  "wrap64 x = signed_take_bit 63 x"

definition in_int64 :: "int \<Rightarrow> bool" where
  "in_int64 x \<longleftrightarrow> - (2 ^ 63) \<le> x \<and> x < 2 ^ 63"

lemma wrap64_id [simp]: "in_int64 x \<Longrightarrow> wrap64 x = x"
  by (simp add: in_int64_def wrap64_def signed_take_bit_int_eq_self_iff)

lemma wrap64_in_int64 [simp, intro]: "in_int64 (wrap64 x)"
  using signed_take_bit_int_less_exp [of 63 x] signed_take_bit_int_greater_eq_minus_exp [of 63 x]
  by (simp add: in_int64_def wrap64_def)

lemma in_int64_nonneg: "0 \<le> n \<Longrightarrow> n < 2 ^ 63 \<Longrightarrow> in_int64 n"
  unfolding in_int64_def by linarith

text \<open>Durations are counted in nanoseconds.\<close>

abbreviation Millisecond :: int where "Millisecond \<equiv> 1000000"
abbreviation Second :: int where "Second \<equiv> 1000000000"
abbreviation Minute :: int where "Minute \<equiv> 60000000000"
abbreviation Hour :: int where "Hour \<equiv> 3600000000000"

text \<open>\<^verbatim>\<open>t.Unix()\<close>: the seconds of an instant counted in nanoseconds since 1970.\<close>

definition Unix :: "int \<Rightarrow> int" where
  "Unix t = t div Second"

lemma Unix_mono: "t \<le> u \<Longrightarrow> Unix t \<le> Unix u"
  by (simp add: Unix_def zdiv_mono1)

section \<open>Enumerations with a text form\<close>

text \<open>
  Priorities and task states share a contract: \<open>render\<close> names a value, \<open>parse\<close> reads a
  name back, and \<open>known\<close> says which values have a name of their own. Reading an unknown
  text gives a default.
\<close>

locale named_enum =
  fixes render :: "'e \<Rightarrow> string" and parse :: "string \<Rightarrow> 'e" and known :: "'e \<Rightarrow> bool"
  assumes parse_render: "known x \<Longrightarrow> parse (render x) = x"
    and parse_known: "known (parse s)"
begin

lemma render_inj: "known x \<Longrightarrow> known y \<Longrightarrow> render x = render y \<Longrightarrow> x = y"
  by (metis parse_render)

text \<open>
  The validity test of a text that came from outside: it is a name exactly when parsing
  and printing gives it back.
\<close>

lemma valid_text_iff: "s = render (parse s) \<longleftrightarrow> (\<exists>x. known x \<and> s = render x)"
  by (metis parse_render parse_known)

end

end
