(* ===== verification/GoFloat.thy ===== *)
theory GoFloat
  imports Prelude "HOL-Library.Log_Nat"
begin

text \<open>
  Go's \<^verbatim>\<open>float64\<close>: IEEE 754 double precision on exact rationals with infinities and
  NaN. Every operation computes the exact result and rounds it to the nearest
  representable number, ties to even; signed zeros are not told apart, because no code of
  the repository observes them.
\<close>

section \<open>Rounding to 53 bits\<close>

text \<open>Round to the nearest integer, ties to even.\<close>

definition rne :: "rat \<Rightarrow> int" where
  "rne x = (let f = \<lfloor>x\<rfloor>; r = x - of_int f in
     if r < 1/2 \<or> (r = 1/2 \<and> even f) then f else f + 1)"

text \<open>The exponent \<open>e\<close> of a positive number: \<open>2 ^ e \<le> x < 2 ^ (e + 1)\<close>.\<close>

definition float_exp :: "rat \<Rightarrow> int" where
  "float_exp x = (case quotient_of x of (n, d) \<Rightarrow>
     let e = int (floorlog 2 (nat n)) - int (floorlog 2 (nat d)) in
     if 2 powi e \<le> x then e else e - 1)"

text \<open>The distance of neighbouring doubles around a positive number.\<close>

definition ulp :: "rat \<Rightarrow> rat" where
  "ulp x = 2 powi (max (float_exp x) (-1022) - 52)"

definition round53 :: "rat \<Rightarrow> rat" where
  "round53 x = (if x = 0 then 0 else of_int (rne (x / ulp \<bar>x\<bar>)) * ulp \<bar>x\<bar>)"

lemma rne_of_int [simp]: "rne (of_int n) = n"
  by (simp add: rne_def)

lemma rne_bounds: "\<lfloor>x\<rfloor> \<le> rne x" "rne x \<le> \<lfloor>x\<rfloor> + 1"
  by (simp_all add: rne_def Let_def)

lemma rne_mono: "x \<le> y \<Longrightarrow> rne x \<le> rne y"
proof (cases "\<lfloor>x\<rfloor> = \<lfloor>y\<rfloor>")
  case True
  then show "x \<le> y \<Longrightarrow> rne x \<le> rne y" by (auto simp: rne_def Let_def)
next
  case False
  assume "x \<le> y"
  with False have "\<lfloor>x\<rfloor> + 1 \<le> \<lfloor>y\<rfloor>" using floor_mono [of x y] by linarith
  then show ?thesis using rne_bounds [of x] rne_bounds [of y] by linarith
qed

lemma pow2_less_iff: "(2::rat) powi a < 2 powi b \<longleftrightarrow> a < b"
  using power_int_strict_increasing [of a b "2::rat"] power_int_increasing [of b a "2::rat"]
  by (cases "a < b") auto

lemma floorlog_two: "0 < n \<Longrightarrow>
    2 powi (int (floorlog 2 n) - 1) \<le> (of_nat n :: rat) \<and> (of_nat n :: rat) < 2 powi int (floorlog 2 n)"
proof -
  assume n: "0 < n"
  then have "2 ^ (floorlog 2 n - 1) \<le> n" "n < 2 ^ floorlog 2 n"
    using floorlog_bounds [of n 2] by auto
  then have "(2::rat) ^ (floorlog 2 n - 1) \<le> of_nat n" "(of_nat n :: rat) < 2 ^ floorlog 2 n"
    by (metis of_nat_le_iff of_nat_power of_nat_numeral, metis of_nat_less_iff of_nat_power of_nat_numeral)
  moreover have "0 < floorlog 2 n" using n by (simp add: floorlog_eq_zero_iff neq0_conv [symmetric] del: neq0_conv)
  then have "int (floorlog 2 n) - 1 = int (floorlog 2 n - 1)" by simp
  ultimately show ?thesis by (simp only: power_int_of_nat)
qed

lemma float_exp_bounds:
  assumes "0 < x"
  shows "2 powi float_exp x \<le> x" "x < 2 powi (float_exp x + 1)"
proof -
  obtain n d where q: "quotient_of x = (n, d)" by (cases "quotient_of x")
  then have d: "0 < d" and xe: "x = of_int n / of_int d"
    by (auto dest: quotient_of_denom_pos quotient_of_div)
  with assms have n: "0 < n" by (simp add: zero_less_divide_iff)
  let ?a = "int (floorlog 2 (nat n))" and ?b = "int (floorlog 2 (nat d))"
  have N: "2 powi (?a - 1) \<le> (of_int n :: rat)" "(of_int n :: rat) < 2 powi ?a"
    using floorlog_two [of "nat n"] n by simp_all
  have D: "2 powi (?b - 1) \<le> (of_int d :: rat)" "(of_int d :: rat) < 2 powi ?b"
    using floorlog_two [of "nat d"] d by simp_all
  have pw: "(2::rat) powi (i - j) = 2 powi i / 2 powi j" for i j by (simp add: power_int_diff)
  have up: "x < 2 powi (?a - ?b + 1)"
  proof -
    have "x < 2 powi ?a / 2 powi (?b - 1)"
      unfolding xe by (rule frac_less) (use N D n d in auto)
    also have "\<dots> = 2 powi (?a - (?b - 1))" by (rule pw [symmetric])
    also have "?a - (?b - 1) = ?a - ?b + 1" by simp
    finally show ?thesis .
  qed
  have lo: "2 powi (?a - ?b - 1) \<le> x"
  proof -
    have "2 powi (?a - 1) / 2 powi ?b \<le> x"
      unfolding xe by (rule frac_le) (use N D n d in auto)
    moreover have "2 powi (?a - 1) / 2 powi ?b = (2::rat) powi (?a - 1 - ?b)" by (rule pw [symmetric])
    moreover have "?a - 1 - ?b = ?a - ?b - 1" by simp
    ultimately show ?thesis by (simp only:)
  qed
  show "2 powi float_exp x \<le> x" "x < 2 powi (float_exp x + 1)"
    using up lo by (auto simp: float_exp_def q Let_def)
qed

lemma ulp_pos [simp]: "0 < ulp x"
  by (simp add: ulp_def)

lemma ulp_nonneg [simp]: "0 \<le> ulp x"
  by (simp add: ulp_def)

lemma round53_zero [simp]: "round53 0 = 0"
  by (simp add: round53_def)

lemma round53_nonneg: "0 \<le> x \<Longrightarrow> 0 \<le> round53 x"
proof -
  assume "0 \<le> x"
  then have "0 \<le> x / ulp \<bar>x\<bar>" by simp
  then have "rne 0 \<le> rne (x / ulp \<bar>x\<bar>)" by (rule rne_mono)
  then show ?thesis by (auto simp: round53_def rne_def intro: mult_nonneg_nonneg)
qed

lemma round53_exact: "x = of_int m * ulp \<bar>x\<bar> \<Longrightarrow> round53 x = x"
  by (metis less_irrefl nonzero_mult_div_cancel_right rne_of_int round53_def ulp_pos)

lemma float_exp_unique:
  assumes "0 < x" "2 powi e \<le> x" "x < 2 powi (e + 1)"
  shows "float_exp x = e"
proof (rule antisym)
  have "(2::rat) powi float_exp x < 2 powi (e + 1)" "(2::rat) powi e < 2 powi (float_exp x + 1)"
    using float_exp_bounds [OF assms(1)] assms(2,3) by linarith+
  then show "float_exp x \<le> e" "e \<le> float_exp x"
    by (simp_all add: pow2_less_iff)
qed

lemma float_exp_mono: "0 < x \<Longrightarrow> x \<le> y \<Longrightarrow> float_exp x \<le> float_exp y"
proof -
  assume "0 < x" "x \<le> y"
  then have "(2::rat) powi float_exp x < 2 powi (float_exp y + 1)"
    using float_exp_bounds(1) [of x] float_exp_bounds(2) [of y] by linarith
  then show ?thesis by (simp add: pow2_less_iff)
qed

text \<open>Rounding a positive number stays within its binade.\<close>

lemma round53_upper:
  assumes "0 < x" "e = max (float_exp x) (-1022)"
  shows "round53 x \<le> 2 powi (e + 1)"
proof -
  have "x < 2 powi (e + 1)"
    using float_exp_bounds(2) [OF assms(1)] power_int_increasing [of "float_exp x + 1" "e + 1" "2::rat"]
      assms(2) by simp
  then have "x / ulp \<bar>x\<bar> \<le> 2 powi (e + 1) / 2 powi (e - 52)"
    using assms by (simp add: ulp_def divide_right_mono)
  also have "\<dots> = of_int (2 ^ 53)" by (simp flip: power_int_diff)
  finally have "rne (x / ulp \<bar>x\<bar>) \<le> 2 ^ 53" using rne_mono rne_of_int by metis
  then have "of_int (rne (x / ulp \<bar>x\<bar>)) * ulp \<bar>x\<bar> \<le> of_int (2 ^ 53) * (2 powi (e - 52) :: rat)"
    using assms by (intro mult_mono) (simp_all add: ulp_def)
  also have "\<dots> = 2 powi (e + 1)"
    by (simp add: power_int_add power_int_diff)
  finally show ?thesis using assms by (simp add: round53_def)
qed

lemma round53_lower:
  assumes "0 < y" "e = float_exp y" "-1022 \<le> e"
  shows "2 powi e \<le> round53 y"
proof -
  have "2 powi e / 2 powi (e - 52) \<le> y / ulp \<bar>y\<bar>"
    using float_exp_bounds(1) [OF assms(1)] assms by (simp add: ulp_def divide_right_mono)
  then have "of_int (2 ^ 52) \<le> y / ulp \<bar>y\<bar>" by (simp flip: power_int_diff)
  then have "2 ^ 52 \<le> rne (y / ulp \<bar>y\<bar>)" using rne_mono rne_of_int by metis
  then have "of_int (2 ^ 52) * (2 powi (e - 52) :: rat) \<le> of_int (rne (y / ulp \<bar>y\<bar>)) * ulp \<bar>y\<bar>"
    using assms by (intro mult_mono) (simp_all add: ulp_def)
  moreover have "of_int (2 ^ 52) * (2 powi (e - 52) :: rat) = 2 powi e"
    by (simp add: power_int_diff)
  ultimately show ?thesis using assms by (simp add: round53_def)
qed

lemma round53_mono: "0 \<le> x \<Longrightarrow> x \<le> y \<Longrightarrow> round53 x \<le> round53 y"
proof -
  assume "0 \<le> x" "x \<le> y"
  define ex ey where "ex = max (float_exp x) (-1022)" and "ey = max (float_exp y) (-1022)"
  show "round53 x \<le> round53 y"
  proof (cases "x = 0")
    case True
    with \<open>x \<le> y\<close> show ?thesis by (simp add: round53_nonneg)
  next
    case False
    with \<open>0 \<le> x\<close> \<open>x \<le> y\<close> have pos: "0 < x" "0 < y" by simp_all
    then have le: "float_exp x \<le> float_exp y" using \<open>x \<le> y\<close> by (simp add: float_exp_mono)
    show ?thesis
    proof (cases "ex = ey")
      case True
      then have "ulp \<bar>x\<bar> = ulp \<bar>y\<bar>" using pos by (simp add: ulp_def ex_def ey_def)
      then show ?thesis using pos \<open>x \<le> y\<close>
        by (simp add: round53_def rne_mono divide_right_mono)
    next
      case False
      with le have "ex < ey" and ey: "ey = float_exp y" "-1022 \<le> ey"
        by (auto simp: ex_def ey_def)
      have "round53 x \<le> 2 powi (ex + 1)" using round53_upper [OF pos(1)] ex_def by simp
      also have "\<dots> \<le> 2 powi ey" using \<open>ex < ey\<close> by (intro power_int_increasing) simp_all
      also have "\<dots> \<le> round53 y" using round53_lower [OF pos(2) ey(1,2)] .
      finally show ?thesis .
    qed
  qed
qed

text \<open>Integers of at most 53 bits are represented exactly.\<close>

lemma round53_of_int_pos:
  assumes "0 < n" "n < 2 ^ 53"
  shows "round53 (of_int n) = of_int n"
proof -
  let ?e = "float_exp (of_int n)"
  have "(of_int n :: rat) < of_int (2 ^ 53)" using assms(2) by (simp only: of_int_less_iff)
  then have "(2::rat) powi ?e < 2 powi 53"
    using float_exp_bounds(1) [of "of_int n"] assms(1) by simp
  then have e: "?e \<le> 52" unfolding pow2_less_iff by simp
  define k where "k = 52 - max ?e (-1022)"
  have "0 \<le> k" using e by (simp add: k_def)
  have "(of_int n :: rat) = of_int (n * 2 ^ nat k) * ulp \<bar>of_int n\<bar>"
  proof -
    have "ulp (of_int n) = 2 powi (- k)" by (simp add: ulp_def k_def)
    moreover have "(2::rat) ^ nat k = 2 powi k" using \<open>0 \<le> k\<close> by (simp add: power_int_def)
    ultimately show ?thesis using assms by (simp add: power_int_minus)
  qed
  then show ?thesis by (rule round53_exact)
qed

text \<open>\<open>2 ^ 53\<close> itself, and negative numbers by symmetry.\<close>

lemma round53_pow53: "round53 (2 ^ 53) = 2 ^ 53"
proof -
  have "float_exp (2 ^ 53) = 53"
    by (rule float_exp_unique) (simp_all add: power_int_def)
  then show ?thesis
    by (intro round53_exact [of _ "2 ^ 52"]) (simp add: ulp_def power_int_def)
qed

lemma rne_minus: "rne (- x) = - rne x"
proof (cases "x = of_int \<lfloor>x\<rfloor>")
  case True
  then show ?thesis by (metis of_int_minus rne_of_int)
next
  case False
  let ?f = "\<lfloor>x\<rfloor>" and ?r = "x - of_int \<lfloor>x\<rfloor>"
  have fl: "\<lfloor>- x\<rfloor> = - ?f - 1"
    using False by (intro floor_unique) (simp_all add: algebra_simps, linarith+)
  have r: "- x - of_int (- ?f - 1) = 1 - ?r" by simp
  have "even (- ?f - 1) \<longleftrightarrow> \<not> even ?f" by simp
  then show ?thesis unfolding rne_def fl r Let_def by (auto simp: field_simps)
qed

lemma round53_minus: "round53 (- x) = - round53 x"
  by (simp add: round53_def rne_minus)

lemma round53_of_int: "\<bar>n\<bar> \<le> 2 ^ 53 \<Longrightarrow> round53 (of_int n) = of_int n"
proof -
  have nonneg: "round53 (of_int k) = of_int k" if "0 \<le> k" "k \<le> 2 ^ 53" for k
    using that round53_of_int_pos [of k] round53_pow53
    by (cases "k = 0 \<or> k = 2 ^ 53") auto
  assume "\<bar>n\<bar> \<le> 2 ^ 53"
  then show ?thesis
    using nonneg [of n] nonneg [of "- n"] round53_minus [of "of_int n"] by (cases "0 \<le> n") auto
qed

text \<open>Rounding gives a representable number: rounding it again changes nothing.\<close>

lemma ulp_div_ulp:
  assumes "max (float_exp y) (-1022) \<le> max (float_exp x) (-1022)"
  shows "ulp x = of_int (2 ^ nat (max (float_exp x) (-1022) - max (float_exp y) (-1022))) * ulp y"
proof -
  let ?d = "max (float_exp x) (-1022) - max (float_exp y) (-1022)"
  have "ulp x = 2 powi (?d + (max (float_exp y) (-1022) - 52))" by (simp add: ulp_def)
  also have "\<dots> = 2 powi ?d * ulp y" by (subst power_int_add) (simp_all add: ulp_def)
  also have "(2::rat) powi ?d = 2 ^ nat ?d" using assms by (simp add: power_int_def)
  finally show ?thesis by simp
qed

lemma round53_idem_pos:
  assumes "0 < x"
  shows "round53 (round53 x) = round53 x"
proof -
  let ?e = "max (float_exp x) (-1022)" and ?y = "round53 x"
  let ?k = "rne (x / ulp x)"
  have y: "?y = of_int ?k * ulp x" using assms by (simp add: round53_def)
  have nonneg: "0 \<le> ?y" using assms by (simp add: round53_nonneg)
  have le: "?y \<le> 2 powi (?e + 1)" using round53_upper [OF assms] by simp
  consider "?y = 0" | "?y = 2 powi (?e + 1)" | "0 < ?y" "?y < 2 powi (?e + 1)"
    using nonneg le by linarith
  then show ?thesis
  proof cases
    case 1
    then show ?thesis by simp
  next
    case 2
    then have "float_exp ?y = ?e + 1"
      by (intro float_exp_unique) (simp_all add: power_int_add)
    then have "ulp \<bar>?y\<bar> = 2 powi (?e + 1 - 52)" using nonneg by (simp add: ulp_def)
    then have "?y = of_int (2 ^ 52) * ulp \<bar>?y\<bar>" using 2 by (simp add: power_int_add power_int_diff)
    then show ?thesis by (rule round53_exact)
  next
    case 3
    have "(2::rat) powi float_exp ?y < 2 powi (?e + 1)"
      using float_exp_bounds(1) [OF 3(1)] 3(2) by linarith
    then have "max (float_exp ?y) (-1022) \<le> ?e" by (simp add: pow2_less_iff)
    from ulp_div_ulp [OF this]
    have "?y = of_int (?k * 2 ^ nat (?e - max (float_exp ?y) (-1022))) * ulp \<bar>?y\<bar>"
      using nonneg y by simp
    then show ?thesis by (rule round53_exact)
  qed
qed

lemma round53_idem: "round53 (round53 x) = round53 x"
  using round53_idem_pos [of x] round53_idem_pos [of "- x"]
  by (cases x "0::rat" rule: linorder_cases) (simp_all add: round53_minus)

text \<open>Powers of two are exact.\<close>

lemma round53_pow2: "round53 (2 ^ n) = 2 ^ n"
proof -
  have p: "(2::rat) ^ n = 2 powi int n" by (simp add: power_int_of_nat)
  have "float_exp (2 ^ n) = int n"
    by (rule float_exp_unique) (simp_all add: power_int_add)
  then have "ulp \<bar>2 ^ n\<bar> = 2 powi (int n - 52)" by (simp add: ulp_def)
  also have "\<dots> = 2 ^ n / 2 ^ 52" by (simp add: power_int_diff)
  finally show ?thesis by (intro round53_exact [of _ "2 ^ 52"]) simp
qed

text \<open>How far rounding can move a number up.\<close>

lemma rne_error: "of_int (rne x) \<le> x + 1 / 2"
proof -
  have "of_int \<lfloor>x\<rfloor> \<le> x" by simp
  then show ?thesis by (simp add: rne_def Let_def) linarith
qed

lemma round53_error:
  assumes "0 \<le> x"
  shows "round53 x \<le> x + max x 1 / 2 ^ 53"
proof (cases "x = 0")
  case False
  with assms have x: "0 < x" by simp
  let ?e = "max (float_exp x) (-1022)"
  have "(2::rat) powi (-1022) \<le> 1" by (simp add: power_int_minus inverse_le_1_iff)
  then have e: "2 powi ?e \<le> max x 1"
    using float_exp_bounds(1) [OF x] by (auto simp: max_def)
  have "round53 x \<le> (x / ulp x + 1 / 2) * ulp x"
    using x rne_error [of "x / ulp x"] by (simp add: round53_def mult_right_mono)
  also have "\<dots> = x + ulp x / 2" using ulp_pos [of x] by (simp add: algebra_simps del: ulp_pos)
  also have "ulp x / 2 = 2 powi ?e / 2 ^ 53" by (simp add: ulp_def power_int_diff)
  also have "x + 2 powi ?e / 2 ^ 53 \<le> x + max x 1 / 2 ^ 53"
    using e by (simp add: divide_right_mono)
  finally show ?thesis .
qed simp

section \<open>What the callers rely on\<close>

text \<open>
  The bounds of the retry policy and of the rate limiter need little of the rounding: it
  is monotone, keeps the sign and is exact on integers of 53 bits.
\<close>

locale rounding =
  fixes rnd :: "rat \<Rightarrow> rat"
  assumes rnd_mono: "0 \<le> x \<Longrightarrow> x \<le> y \<Longrightarrow> rnd x \<le> rnd y"
    and rnd_int: "\<bar>n\<bar> \<le> 2 ^ 53 \<Longrightarrow> rnd (of_int n) = of_int n"
    and rnd_minus: "rnd (- x) = - rnd x"
begin

lemma rnd_zero [simp]: "rnd 0 = 0"
  using rnd_int [of 0] by simp

lemma rnd_nonneg: "0 \<le> x \<Longrightarrow> 0 \<le> rnd x"
  using rnd_mono [of 0 x] by simp

lemma rnd_le_int: "0 \<le> x \<Longrightarrow> x \<le> of_int n \<Longrightarrow> n \<le> 2 ^ 53 \<Longrightarrow> rnd x \<le> of_int n"
  using rnd_mono [of x "of_int n"] rnd_int [of n]
  by (metis abs_of_nonneg of_int_0_le_iff order_trans)

lemma rnd_ge_int: "of_int n \<le> x \<Longrightarrow> 0 \<le> n \<Longrightarrow> n \<le> 2 ^ 53 \<Longrightarrow> of_int n \<le> rnd x"
  using rnd_mono [of "of_int n" x] rnd_int [of n] by simp

lemma rnd_abs_le_int:
  "\<bar>x\<bar> \<le> of_int n \<Longrightarrow> n \<le> 2 ^ 53 \<Longrightarrow> \<bar>rnd x\<bar> \<le> of_int n"
  using rnd_le_int [of x n] rnd_le_int [of "- x" n] rnd_nonneg [of x] rnd_nonneg [of "- x"]
  by (cases "0 \<le> x") (auto simp: rnd_minus)

text \<open>Shrinking a rounded number by a factor of at most one does not push it past itself.\<close>

lemma rnd_shrink: "0 \<le> x \<Longrightarrow> rnd x = x \<Longrightarrow> 0 \<le> c \<Longrightarrow> c \<le> 1 \<Longrightarrow> rnd (x * c) \<le> x"
  using rnd_mono [of "x * c" x] by (simp add: mult_left_le)

end

interpretation r53: rounding round53
  by unfold_locales (simp_all add: round53_mono round53_of_int round53_minus)

section \<open>The type and its operations\<close>

datatype f64 = Fin rat | PInf | NInf | NaN

text \<open>Rounding with overflow to infinity.\<close>

definition fin :: "rat \<Rightarrow> f64" where
  "fin x = (let r = round53 x in
     if 2 ^ 1024 \<le> r then PInf else if r \<le> - (2 ^ 1024) then NInf else Fin r)"

definition f_of_int :: "int \<Rightarrow> f64" where
  "f_of_int n = fin (of_int n)"

fun f_sgn :: "f64 \<Rightarrow> int" where
  "f_sgn (Fin x) = (if 0 < x then 1 else if x < 0 then -1 else 0)"
| "f_sgn PInf = 1"
| "f_sgn NInf = -1"
| "f_sgn NaN = 0"

fun f_mul :: "f64 \<Rightarrow> f64 \<Rightarrow> f64" where
  "f_mul (Fin x) (Fin y) = fin (x * y)"
| "f_mul a b = (if a = NaN \<or> b = NaN then NaN
     else if 0 < f_sgn a * f_sgn b then PInf
     else if f_sgn a * f_sgn b < 0 then NInf else NaN)"

fun f_add :: "f64 \<Rightarrow> f64 \<Rightarrow> f64" where
  "f_add (Fin x) (Fin y) = fin (x + y)"
| "f_add (Fin x) b = b"
| "f_add a (Fin y) = a"
| "f_add a b = (if a = b then a else NaN)"

fun f_neg :: "f64 \<Rightarrow> f64" where
  "f_neg (Fin x) = Fin (- x)"
| "f_neg PInf = NInf"
| "f_neg NInf = PInf"
| "f_neg NaN = NaN"

definition f_sub :: "f64 \<Rightarrow> f64 \<Rightarrow> f64" where
  "f_sub a b = f_add a (f_neg b)"

text \<open>\<^verbatim>\<open>a < b\<close>: false when either is NaN.\<close>

fun f_less :: "f64 \<Rightarrow> f64 \<Rightarrow> bool" where
  "f_less (Fin x) (Fin y) = (x < y)"
| "f_less NInf b = (b \<noteq> NaN \<and> b \<noteq> NInf)"
| "f_less a PInf = (a \<noteq> NaN \<and> a \<noteq> PInf)"
| "f_less a b = False"

text \<open>
  \<^verbatim>\<open>math.Pow(x, float64(n))\<close> for a non-negative integer \<open>n\<close>: its special cases, and the
  rounded power otherwise. For a power of two, such as the default factor 2.0, Go's result is
  this one; for other bases Go promises no more than an approximation of it.
\<close>

definition f_pow :: "f64 \<Rightarrow> int \<Rightarrow> f64" where
  "f_pow x n = (if n = 0 \<or> x = Fin 1 then Fin 1 else
     (case x of Fin b \<Rightarrow> fin (b ^ nat n)
      | PInf \<Rightarrow> PInf
      | NInf \<Rightarrow> if odd n then NInf else PInf
      | NaN \<Rightarrow> NaN))"

text \<open>
  The conversion \<^verbatim>\<open>int64(x)\<close> truncates towards zero; for a value outside the range the
  language leaves the result to the implementation, which is \<open>- (2 ^ 63)\<close> on amd64.
\<close>

definition trunc_rat :: "rat \<Rightarrow> int" where
  "trunc_rat x = (if 0 \<le> x then \<lfloor>x\<rfloor> else \<lceil>x\<rceil>)"

fun f_to_int64 :: "f64 \<Rightarrow> int" where
  "f_to_int64 (Fin x) = (if in_int64 (trunc_rat x) then trunc_rat x else - (2 ^ 63))"
| "f_to_int64 _ = - (2 ^ 63)"

text \<open>\<^verbatim>\<open>d.Seconds()\<close>: whole seconds plus the rest divided by \<open>10 ^ 9\<close>.\<close>

definition quot_int :: "int \<Rightarrow> int \<Rightarrow> int" where
  "quot_int a b = sgn a * sgn b * (\<bar>a\<bar> div \<bar>b\<bar>)"

definition Seconds :: "int \<Rightarrow> f64" where
  "Seconds d = (let q = quot_int d Second; r = d - q * Second in
     f_add (f_of_int q) (fin (round53 (of_int r) / 10 ^ 9)))"

subsection \<open>Finite values\<close>

lemma fin_small: "\<bar>x\<bar> \<le> of_int n \<Longrightarrow> n \<le> 2 ^ 53 \<Longrightarrow> fin x = Fin (round53 x)"
proof -
  assume "\<bar>x\<bar> \<le> of_int n" "n \<le> 2 ^ 53"
  then have "\<bar>round53 x\<bar> \<le> of_int n" by (rule r53.rnd_abs_le_int)
  also have "of_int n \<le> (of_int (2 ^ 53) :: rat)" using \<open>n \<le> 2 ^ 53\<close> by (simp only: of_int_le_iff)
  also have "(of_int (2 ^ 53) :: rat) < 2 ^ 1024" by simp
  finally show ?thesis by (simp add: fin_def Let_def abs_less_iff)
qed

lemma f_of_int_small [simp]: "\<bar>n\<bar> \<le> 2 ^ 53 \<Longrightarrow> f_of_int n = Fin (of_int n)"
  using fin_small [of "of_int n" "\<bar>n\<bar>"] by (simp add: f_of_int_def round53_of_int)

lemma fin_pow2: "fin (2 ^ n) = (if n < 1024 then Fin (2 ^ n) else PInf)"
proof -
  have "(2::rat) ^ 1024 \<le> 2 ^ n \<longleftrightarrow> 1024 \<le> n" by (rule power_increasing_iff) simp
  moreover have "\<not> (2::rat) ^ n \<le> - (2 ^ 1024)"
    using zero_less_power [of "2::rat" n] by (simp add: not_le order_less_trans [of _ 0])
  ultimately show ?thesis
    unfolding fin_def Let_def round53_pow2 by (simp only: not_le if_split refl simp_thms) auto
qed

lemma f_to_int64_Fin_int: "in_int64 n \<Longrightarrow> f_to_int64 (Fin (of_int n)) = n"
  by (simp add: trunc_rat_def)

lemma fin_cases_nonneg:
  "0 \<le> x \<Longrightarrow> (fin x = PInf \<and> 2 ^ 1024 \<le> round53 x) \<or> fin x = Fin (round53 x)"
  using r53.rnd_nonneg [of x] by (auto simp: fin_def Let_def)

lemma fin_below:
  assumes "0 \<le> x" "x \<le> 2 ^ 1023"
  shows "fin x = Fin (round53 x)"
proof -
  have "round53 x \<le> 2 ^ 1023" using round53_mono [OF assms] by (simp only: round53_pow2)
  also have "(2::rat) ^ 1023 < 2 ^ 1024" by (rule power_strict_increasing) simp_all
  finally show ?thesis using fin_cases_nonneg [OF assms(1)] by auto
qed
end
