(* ===== verification/GoJson.thy ===== *)
theory GoJson
  imports Prelude
begin

text \<open>
  What the repository uses of \<^verbatim>\<open>encoding/json\<close> and of \<^verbatim>\<open>interface{}\<close> values.

  A value of type \<open>gval\<close> is a Go value held in an \<^verbatim>\<open>interface{}\<close>, and also the JSON
  document it is written as; documents are trees here, their layout as text is not modelled.
  \<open>GTime\<close> is a \<^verbatim>\<open>time.Time\<close> (in nanoseconds since 1970, UTC) or the RFC 3339 string
  it is written as, and \<open>GOpaque\<close> a value \<^verbatim>\<open>json.Marshal\<close> refuses (a channel, a
  function, a NaN). A text stored in Redis is the document when \<^verbatim>\<open>json.Marshal\<close> wrote it
  and \<open>GStr\<close> otherwise.
\<close>

datatype gval =
    GNull
  | GBool bool
  | GNum rat
  | GStr string
  | GTime int
  | GArr "gval list"
  | GObj "(string \<times> gval) list"
  | GOpaque

text \<open>A \<^verbatim>\<open>map[string]interface{}\<close>; \<open>None\<close> is the nil map.\<close>

type_synonym gmap = "(string \<times> gval) list option"

text \<open>Reading a map: a missing key, or a nil map, gives nothing. Later entries win.\<close>

definition field :: "(string \<times> gval) list \<Rightarrow> string \<Rightarrow> gval option" where
  "field fs k = map_of (rev fs) k"

definition gmap_get :: "gmap \<Rightarrow> string \<Rightarrow> gval option" where
  "gmap_get m k = (case m of None \<Rightarrow> None | Some fs \<Rightarrow> field fs k)"

lemma field_Nil [simp]: "field [] k = None"
  by (simp add: field_def)

text \<open>The second value where it exists, and the first otherwise.\<close>

definition orelse :: "'a option \<Rightarrow> 'a option \<Rightarrow> 'a option" where
  "orelse x y = (case y of None \<Rightarrow> x | Some v \<Rightarrow> Some v)"

lemma orelse_simps [simp]:
  "orelse x None = x" "orelse x (Some v) = Some v" "orelse None y = y"
  by (simp_all add: orelse_def split: option.splits)

lemma field_append: "field (fs @ gs) k = orelse (field fs k) (field gs k)"
  by (simp add: field_def map_add_def orelse_def)

lemma field_Cons:
  "field ((k', v) # fs) k = orelse (if k = k' then Some v else None) (field fs k)"
  by (simp add: field_def map_add_def orelse_def split: option.splits)

text \<open>Assignments \<^verbatim>\<open>m[k] = v\<close>, one by one.\<close>

fun set_field :: "string \<Rightarrow> gval \<Rightarrow> (string \<times> gval) list \<Rightarrow> (string \<times> gval) list" where
  "set_field k v [] = [(k, v)]"
| "set_field k v ((j, w) # fs) = (if j = k then (k, v) # fs else (j, w) # set_field k v fs)"

definition set_fields :: "(string \<times> gval) list \<Rightarrow> (string \<times> gval) list \<Rightarrow> (string \<times> gval) list" where
  "set_fields extra fs = fold (\<lambda>(k, v). set_field k v) extra fs"

text \<open>The type assertion \<^verbatim>\<open>v.(string)\<close> on a value read from a Redis reply.\<close>

fun as_string :: "gval option \<Rightarrow> string option" where
  "as_string (Some (GStr s)) = Some s"
| "as_string _ = None"

text \<open>The values \<^verbatim>\<open>json.Marshal\<close> accepts.\<close>

fun marshalable :: "gval \<Rightarrow> bool" where
  "marshalable (GArr vs) = list_all marshalable vs"
| "marshalable (GObj fs) = list_all (\<lambda>(k, v). marshalable v) fs"
| "marshalable GOpaque = False"
| "marshalable _ = True"

definition gmap_doc :: "gmap \<Rightarrow> gval" where
  "gmap_doc m = (case m of None \<Rightarrow> GNull | Some fs \<Rightarrow> GObj fs)"

definition gmap_ok :: "gmap \<Rightarrow> bool" where
  "gmap_ok m = marshalable (gmap_doc m)"

section \<open>Writing fields\<close>

text \<open>
  A struct is written field by field; \<^verbatim>\<open>omitempty\<close> leaves out the empty string, the nil
  pointer, and the map without entries.
\<close>

definition omit_string :: "string \<Rightarrow> string \<Rightarrow> (string \<times> gval) list" where
  "omit_string k s = (if s = '''' then [] else [(k, GStr s)])"

definition omit_time :: "string \<Rightarrow> int option \<Rightarrow> (string \<times> gval) list" where
  "omit_time k t = (case t of None \<Rightarrow> [] | Some n \<Rightarrow> [(k, GTime n)])"

definition omit_gmap :: "string \<Rightarrow> gmap \<Rightarrow> (string \<times> gval) list" where
  "omit_gmap k m = (case m of None \<Rightarrow> [] | Some fs \<Rightarrow> if fs = [] then [] else [(k, GObj fs)])"

definition omit_smap :: "string \<Rightarrow> (string \<times> string) list option \<Rightarrow> (string \<times> gval) list" where
  "omit_smap k m = (case m of None \<Rightarrow> []
     | Some fs \<Rightarrow> if fs = [] then [] else [(k, GObj (map (\<lambda>(a, b). (a, GStr b)) fs))])"

section \<open>Reading fields\<close>

text \<open>
  \<^verbatim>\<open>json.Unmarshal\<close> into a struct: an absent field and a \<^verbatim>\<open>null\<close> leave the zero value,
  a value of another type is an error (\<open>None\<close>).
\<close>

fun read_string :: "gval option \<Rightarrow> string option" where
  "read_string None = Some ''''"
| "read_string (Some GNull) = Some ''''"
| "read_string (Some (GStr s)) = Some s"
| "read_string _ = None"

fun read_int :: "gval option \<Rightarrow> int option" where
  "read_int None = Some 0"
| "read_int (Some GNull) = Some 0"
| "read_int (Some (GNum r)) =
     (if r = of_int \<lfloor>r\<rfloor> \<and> in_int64 \<lfloor>r\<rfloor> then Some \<lfloor>r\<rfloor> else None)"
| "read_int _ = None"

fun read_bool :: "gval option \<Rightarrow> bool option" where
  "read_bool None = Some False"
| "read_bool (Some GNull) = Some False"
| "read_bool (Some (GBool b)) = Some b"
| "read_bool _ = None"

text \<open>The zero \<^verbatim>\<open>time.Time\<close> is midnight of 1 January of year 1.\<close>

definition zero_time :: int where
  "zero_time = - 62135596800 * Second"

fun read_time :: "gval option \<Rightarrow> int option" where
  "read_time None = Some zero_time"
| "read_time (Some GNull) = Some zero_time"
| "read_time (Some (GTime t)) = Some t"
| "read_time _ = None"

fun read_time_ptr :: "gval option \<Rightarrow> int option option" where
  "read_time_ptr None = Some None"
| "read_time_ptr (Some GNull) = Some None"
| "read_time_ptr (Some (GTime t)) = Some (Some t)"
| "read_time_ptr _ = None"

fun read_gmap :: "gval option \<Rightarrow> gmap option" where
  "read_gmap None = Some None"
| "read_gmap (Some GNull) = Some None"
| "read_gmap (Some (GObj fs)) = Some (Some fs)"
| "read_gmap _ = None"

fun read_strings :: "(string \<times> gval) list \<Rightarrow> (string \<times> string) list option" where
  "read_strings [] = Some []"
| "read_strings ((k, v) # fs) =
     (case (read_string (Some v), read_strings fs) of
        (Some s, Some m) \<Rightarrow> Some ((k, s) # m)
      | _ \<Rightarrow> None)"

fun read_smap :: "gval option \<Rightarrow> (string \<times> string) list option option" where
  "read_smap None = Some None"
| "read_smap (Some GNull) = Some None"
| "read_smap (Some (GObj fs)) = map_option Some (read_strings fs)"
| "read_smap _ = None"

lemma read_strings_map [simp]: "read_strings (map (\<lambda>(a, b). (a, GStr b)) fs) = Some fs"
  by (induction fs) auto

lemma read_int_of_int [simp]: "in_int64 n \<Longrightarrow> read_int (Some (GNum (of_int n))) = Some n"
  by simp

lemma read_int_range: "read_int x = Some n \<Longrightarrow> in_int64 n"
  by (cases x rule: read_int.cases) (auto simp: in_int64_def [of 0] split: if_splits)

end
