(* ===== verification/World.thy ===== *)
theory World
  imports GoFloat GoJson "HOL-Library.Char_ord" "HOL-Library.List_Lexorder"
begin

text \<open>
  The world outside the Go process, as a parameter of the model: the Redis server behind the
  go-redis client, the clock, the generators of identifiers and random numbers, and the
  Prometheus registry. None of their code is part of the repository. The record \<open>env\<close> holds
  one operation per call the code makes, and the locale \<open>redis\<close> states what the code relies
  on, as documented by Redis, over an abstraction \<open>\<alpha>\<close> of the server's state.
\<close>

section \<open>Data of the replies\<close>

text \<open>An entry of a stream: its ID and its fields (\<^verbatim>\<open>redis.XMessage\<close>).\<close>

record message =
  m_id :: string
  m_values :: "(string \<times> gval) list"

text \<open>An entry of a consumer group's pending list (\<^verbatim>\<open>redis.XPendingExt\<close>).\<close>

record pending =
  p_id :: string
  p_consumer :: string
  p_idle :: int

section \<open>The operations the code calls\<close>

text \<open>
  Expiry times are durations in nanoseconds, 0 for none. \<open>r_xreadgroup\<close> takes the group,
  the consumer, the streams (each read from \<^verbatim>\<open>>\<close>), the count and the block time.
\<close>

record 's env =
  e_now :: "('s, int) io"
  e_uuid :: "('s, string) io"
  e_rand :: "('s, f64) io"
  m_inc :: "string \<Rightarrow> string list \<Rightarrow> ('s, unit) io"
  m_add :: "string \<Rightarrow> string list \<Rightarrow> f64 \<Rightarrow> ('s, unit) io"
  m_set :: "string \<Rightarrow> string list \<Rightarrow> f64 \<Rightarrow> ('s, unit) io"
  m_observe :: "string \<Rightarrow> string list \<Rightarrow> f64 \<Rightarrow> ('s, unit) io"
  r_ping :: "('s, unit res) io"
  r_get :: "string \<Rightarrow> ('s, gval res) io"
  r_set :: "string \<Rightarrow> gval \<Rightarrow> int \<Rightarrow> ('s, unit res) io"
  r_setnx :: "string \<Rightarrow> gval \<Rightarrow> int \<Rightarrow> ('s, bool res) io"
  r_del :: "string list \<Rightarrow> ('s, int res) io"
  r_exists :: "string \<Rightarrow> ('s, int res) io"
  r_xadd :: "string \<Rightarrow> (string \<times> gval) list \<Rightarrow> ('s, string res) io"
  r_xdel :: "string \<Rightarrow> string \<Rightarrow> ('s, int res) io"
  r_xrange :: "string \<Rightarrow> string \<Rightarrow> string \<Rightarrow> ('s, message list res) io"
  r_xlen :: "string \<Rightarrow> ('s, int res) io"
  r_xgroup_create_mkstream :: "string \<Rightarrow> string \<Rightarrow> string \<Rightarrow> ('s, unit res) io"
  r_xinfo_groups :: "string \<Rightarrow> ('s, (string \<times> int) list res) io"
  r_xreadgroup :: "string \<Rightarrow> string \<Rightarrow> string list \<Rightarrow> nat \<Rightarrow> int \<Rightarrow> ('s, (string \<times> message list) list res) io"
  r_xack :: "string \<Rightarrow> string \<Rightarrow> string \<Rightarrow> ('s, int res) io"
  r_xpending :: "string \<Rightarrow> string \<Rightarrow> nat \<Rightarrow> ('s, pending list res) io"
  r_xclaim :: "string \<Rightarrow> string \<Rightarrow> string \<Rightarrow> int \<Rightarrow> string \<Rightarrow> ('s, message list res) io"
  r_zadd :: "string \<Rightarrow> int \<Rightarrow> string \<Rightarrow> ('s, int res) io"
  r_zrem :: "string \<Rightarrow> string \<Rightarrow> ('s, int res) io"
  r_zrangebyscore :: "string \<Rightarrow> int \<Rightarrow> ('s, string list res) io"
  r_zcard :: "string \<Rightarrow> ('s, int res) io"
  r_sadd :: "string \<Rightarrow> string \<Rightarrow> ('s, int res) io"
  r_srem :: "string \<Rightarrow> string \<Rightarrow> ('s, int res) io"
  r_scard :: "string \<Rightarrow> ('s, int res) io"
  r_sismember :: "string \<Rightarrow> string \<Rightarrow> ('s, bool res) io"
  r_smembers :: "string \<Rightarrow> ('s, string list res) io"
  r_publish :: "string \<Rightarrow> gval \<Rightarrow> ('s, unit res) io"

section \<open>The server's state, abstractly\<close>

text \<open>
  A key holds a string with its expiry, a stream with its consumer groups, a sorted set
  (ordered by score, then by member) or a set. Of a group we keep the entries not yet
  delivered and the pending ones.
\<close>

record group =
  g_new :: "message list"
  g_pel :: "pending list"

record strm =
  s_entries :: "message list"
  s_groups :: "(string \<times> group) list"

datatype robj =
    RStr gval int
  | RStream strm
  | RZset "(string \<times> int) list"
  | RSet "string list"

type_synonym view = "string \<Rightarrow> robj option"

definition empty_strm :: strm where
  "empty_strm = \<lparr>s_entries = [], s_groups = []\<rparr>"

definition str_at :: "view \<Rightarrow> string \<Rightarrow> gval option" where
  "str_at v k = (case v k of Some (RStr d _) \<Rightarrow> Some d | _ \<Rightarrow> None)"

definition strm_at :: "view \<Rightarrow> string \<Rightarrow> strm" where
  "strm_at v k = (case v k of Some (RStream x) \<Rightarrow> x | _ \<Rightarrow> empty_strm)"

definition zset_at :: "view \<Rightarrow> string \<Rightarrow> (string \<times> int) list" where
  "zset_at v k = (case v k of Some (RZset z) \<Rightarrow> z | _ \<Rightarrow> [])"

definition set_at :: "view \<Rightarrow> string \<Rightarrow> string list" where
  "set_at v k = (case v k of Some (RSet z) \<Rightarrow> z | _ \<Rightarrow> [])"

text \<open>A command on a key that holds another kind of value is refused (\<^verbatim>\<open>WRONGTYPE\<close>).\<close>

definition str_ok :: "view \<Rightarrow> string \<Rightarrow> bool" where
  "str_ok v k = (case v k of None \<Rightarrow> True | Some (RStr _ _) \<Rightarrow> True | _ \<Rightarrow> False)"

definition strm_ok :: "view \<Rightarrow> string \<Rightarrow> bool" where
  "strm_ok v k = (case v k of None \<Rightarrow> True | Some (RStream _) \<Rightarrow> True | _ \<Rightarrow> False)"

definition zset_ok :: "view \<Rightarrow> string \<Rightarrow> bool" where
  "zset_ok v k = (case v k of None \<Rightarrow> True | Some (RZset _) \<Rightarrow> True | _ \<Rightarrow> False)"

definition set_ok :: "view \<Rightarrow> string \<Rightarrow> bool" where
  "set_ok v k = (case v k of None \<Rightarrow> True | Some (RSet _) \<Rightarrow> True | _ \<Rightarrow> False)"

subsection \<open>What a command does to a key\<close>

definition group_at :: "strm \<Rightarrow> string \<Rightarrow> group option" where
  "group_at x g = map_of (s_groups x) g"

definition map_groups :: "(string \<Rightarrow> group \<Rightarrow> group) \<Rightarrow> strm \<Rightarrow> strm" where
  "map_groups f x = x\<lparr>s_groups := map (\<lambda>(n, g). (n, f n g)) (s_groups x)\<rparr>"

text \<open>\<open>XADD\<close>: the entry goes to the end of the stream and is new for every group.\<close>

definition strm_add :: "message \<Rightarrow> strm \<Rightarrow> strm" where
  "strm_add m x = (map_groups (\<lambda>_ g. g\<lparr>g_new := g_new g @ [m]\<rparr>) x)
     \<lparr>s_entries := s_entries x @ [m]\<rparr>"

text \<open>The IDs in use: a generated ID is none of them.\<close>

definition strm_ids :: "strm \<Rightarrow> string list" where
  "strm_ids x = map m_id (s_entries x) @ concat (map (\<lambda>(n, g). map p_id (g_pel g)) (s_groups x))"

text \<open>\<open>XREADGROUP\<close> with \<^verbatim>\<open>>\<close>: the first new entries become pending for the consumer.\<close>

definition group_deliver :: "string \<Rightarrow> nat \<Rightarrow> group \<Rightarrow> group" where
  "group_deliver c n g = g\<lparr>g_new := drop n (g_new g),
     g_pel := g_pel g @ map (\<lambda>m. \<lparr>p_id = m_id m, p_consumer = c, p_idle = 0\<rparr>) (take n (g_new g))\<rparr>"

definition strm_deliver :: "string \<Rightarrow> string \<Rightarrow> nat \<Rightarrow> strm \<Rightarrow> strm" where
  "strm_deliver grp c n = map_groups (\<lambda>name g. if name = grp then group_deliver c n g else g)"

definition strm_new :: "strm \<Rightarrow> string \<Rightarrow> message list" where
  "strm_new x grp = (case group_at x grp of None \<Rightarrow> [] | Some g \<Rightarrow> g_new g)"

definition strm_pel :: "strm \<Rightarrow> string \<Rightarrow> pending list" where
  "strm_pel x grp = (case group_at x grp of None \<Rightarrow> [] | Some g \<Rightarrow> g_pel g)"

text \<open>\<open>XACK\<close> takes an ID off the pending list; the stream keeps the entry.\<close>

definition strm_ack :: "string \<Rightarrow> string \<Rightarrow> strm \<Rightarrow> strm" where
  "strm_ack grp i = map_groups (\<lambda>name g. if name = grp
     then g\<lparr>g_pel := filter (\<lambda>p. p_id p \<noteq> i) (g_pel g)\<rparr> else g)"

text \<open>\<open>XCLAIM\<close> of a pending ID: it changes owner and its idle time starts again.\<close>

definition strm_claim :: "string \<Rightarrow> string \<Rightarrow> string \<Rightarrow> strm \<Rightarrow> strm" where
  "strm_claim grp c i = map_groups (\<lambda>name g. if name = grp
     then g\<lparr>g_pel := map (\<lambda>p. if p_id p = i then p\<lparr>p_consumer := c, p_idle := 0\<rparr> else p) (g_pel g)\<rparr>
     else g)"

definition claimable :: "strm \<Rightarrow> string \<Rightarrow> int \<Rightarrow> string \<Rightarrow> bool" where
  "claimable x grp idle i = (\<exists>p \<in> set (strm_pel x grp). p_id p = i \<and> idle \<le> p_idle p)"

definition strm_find :: "strm \<Rightarrow> string \<Rightarrow> message list" where
  "strm_find x i = filter (\<lambda>m. m_id m = i) (s_entries x)"

text \<open>\<open>XGROUP CREATE ... 0 MKSTREAM\<close>: every entry is new for the group.\<close>

definition strm_group :: "string \<Rightarrow> strm \<Rightarrow> strm" where
  "strm_group grp x = x\<lparr>s_groups := s_groups x @ [(grp, \<lparr>g_new = s_entries x, g_pel = []\<rparr>)]\<rparr>"

definition busygroup :: string where
  "busygroup = ''BUSYGROUP Consumer Group name already exists''"

text \<open>A sorted set is kept by score, then by member.\<close>

definition zset_rem :: "string \<Rightarrow> (string \<times> int) list \<Rightarrow> (string \<times> int) list" where
  "zset_rem m z = filter (\<lambda>(a, s). a \<noteq> m) z"

fun zset_ins :: "string \<Rightarrow> int \<Rightarrow> (string \<times> int) list \<Rightarrow> (string \<times> int) list" where
  "zset_ins m s [] = [(m, s)]"
| "zset_ins m s ((a, t) # z) =
     (if s < t \<or> (s = t \<and> m < a) then (m, s) # (a, t) # z else (a, t) # zset_ins m s z)"

definition zset_put :: "string \<Rightarrow> int \<Rightarrow> (string \<times> int) list \<Rightarrow> (string \<times> int) list" where
  "zset_put m s z = zset_ins m s (zset_rem m z)"

definition zset_due :: "int \<Rightarrow> (string \<times> int) list \<Rightarrow> string list" where
  "zset_due t z = map fst (filter (\<lambda>(a, s). s \<le> t) z)"

text \<open>\<open>DEL\<close> of several keys.\<close>

definition del_keys :: "string list \<Rightarrow> view \<Rightarrow> view" where
  "del_keys ks v = (\<lambda>k. if k \<in> set ks then None else v k)"

text \<open>The entries an \<open>XREADGROUP\<close> over several streams delivers, and its effect.\<close>

definition deliveries :: "string \<Rightarrow> string list \<Rightarrow> nat \<Rightarrow> view \<Rightarrow> (string \<times> message list) list" where
  "deliveries grp ks n v = filter (\<lambda>(k, ms). ms \<noteq> []) (map (\<lambda>k. (k, take n (strm_new (strm_at v k) grp))) ks)"

definition deliver_all :: "string \<Rightarrow> string \<Rightarrow> string list \<Rightarrow> nat \<Rightarrow> view \<Rightarrow> view" where
  "deliver_all grp c ks n v = (\<lambda>k. if k \<in> set ks \<and> strm_new (strm_at v k) grp \<noteq> []
     then Some (RStream (strm_deliver grp c n (strm_at v k))) else v k)"

subsection \<open>Facts about the key space\<close>

lemma key_simps [simp]:
  "str_at (v(k := x)) j = (if j = k then (case x of Some (RStr d _) \<Rightarrow> Some d | _ \<Rightarrow> None) else str_at v j)"
  "strm_at (v(k := x)) j = (if j = k then (case x of Some (RStream y) \<Rightarrow> y | _ \<Rightarrow> empty_strm) else strm_at v j)"
  "zset_at (v(k := x)) j = (if j = k then (case x of Some (RZset z) \<Rightarrow> z | _ \<Rightarrow> []) else zset_at v j)"
  "set_at (v(k := x)) j = (if j = k then (case x of Some (RSet z) \<Rightarrow> z | _ \<Rightarrow> []) else set_at v j)"
  by (simp_all add: str_at_def strm_at_def zset_at_def set_at_def)

lemma group_at_map_groups [simp]:
  "group_at (map_groups f x) g = map_option (f g) (group_at x g)"
proof -
  have "map_of (map (\<lambda>(n, y). (n, f n y)) xs) g = map_option (f g) (map_of xs g)" for xs
    by (induction xs) auto
  then show ?thesis by (simp add: group_at_def map_groups_def)
qed

lemma entries_map_groups [simp]: "s_entries (map_groups f x) = s_entries x"
  by (simp add: map_groups_def)

lemma strm_add_entries [simp]: "s_entries (strm_add m x) = s_entries x @ [m]"
  by (simp add: strm_add_def)

lemma group_at_strm_add [simp]:
  "group_at (strm_add m x) g = map_option (\<lambda>y. y\<lparr>g_new := g_new y @ [m]\<rparr>) (group_at x g)"
  using group_at_map_groups [of "\<lambda>_ y. y\<lparr>g_new := g_new y @ [m]\<rparr>" x g]
  by (simp add: strm_add_def group_at_def)

lemma strm_new_add:
  "strm_new (strm_add m x) g = strm_new x g @ (if group_at x g = None then [] else [m])"
  by (simp add: strm_new_def split: option.splits)

lemma strm_pel_add [simp]: "strm_pel (strm_add m x) g = strm_pel x g"
  by (simp add: strm_pel_def split: option.splits)

lemma strm_ack_simps [simp]:
  "s_entries (strm_ack grp i x) = s_entries x"
  "strm_new (strm_ack grp i x) g = strm_new x g"
  "strm_pel (strm_ack grp i x) grp = filter (\<lambda>p. p_id p \<noteq> i) (strm_pel x grp)"
  by (simp_all add: strm_ack_def strm_new_def strm_pel_def split: option.splits)

lemma strm_deliver_simps [simp]:
  "s_entries (strm_deliver grp c n x) = s_entries x"
  "strm_new (strm_deliver grp c n x) grp = drop n (strm_new x grp)"
  "strm_pel (strm_deliver grp c n x) grp = strm_pel x grp @
     map (\<lambda>m. \<lparr>p_id = m_id m, p_consumer = c, p_idle = 0\<rparr>) (take n (strm_new x grp))"
  by (simp_all add: strm_deliver_def strm_new_def strm_pel_def group_deliver_def split: option.splits)

lemma strm_claim_simps [simp]:
  "s_entries (strm_claim grp c i x) = s_entries x"
  "strm_new (strm_claim grp c i x) g = strm_new x g"
  "map p_id (strm_pel (strm_claim grp c i x) grp) = map p_id (strm_pel x grp)"
  by (simp_all add: strm_claim_def strm_new_def strm_pel_def split: option.splits)

lemma zset_rem_set: "set (zset_rem m z) = {(a, s) \<in> set z. a \<noteq> m}"
  by (auto simp: zset_rem_def)

lemma zset_ins_set [simp]: "set (zset_ins m s z) = insert (m, s) (set z)"
  by (induction m s z rule: zset_ins.induct) auto

lemma zset_put_set: "set (zset_put m s z) = insert (m, s) {(a, t) \<in> set z. a \<noteq> m}"
  by (simp add: zset_put_def zset_rem_set)

lemma zset_due_set: "set (zset_due t z) = {a. \<exists>s \<le> t. (a, s) \<in> set z}"
  by (force simp: zset_due_def)

section \<open>What the code relies on\<close>

text \<open>
  \<open>answers \<alpha> m Q\<close>: a successful reply of \<open>m\<close> is related by \<open>Q\<close> to the server's state
  before and after. An error reply leaves it open whether the server executed the command,
  as a lost connection does; \<open>redis.Nil\<close> is no failure and is specified apart.
  \<open>observes\<close> is the same for a command that changes nothing.
\<close>

definition answers :: "('s \<Rightarrow> view) \<Rightarrow> ('s, 'a res) io \<Rightarrow> (view \<Rightarrow> 'a \<Rightarrow> view \<Rightarrow> bool) \<Rightarrow> bool" where
  "answers \<alpha> m Q \<longleftrightarrow> (\<forall>s. wp m (\<lambda>r s'. case r of
       Inr a \<Rightarrow> Q (\<alpha> s) a (\<alpha> s')
     | Inl e \<Rightarrow> \<alpha> s' = \<alpha> s \<or> (\<exists>a. Q (\<alpha> s) a (\<alpha> s'))) s)"

definition observes :: "('s \<Rightarrow> view) \<Rightarrow> ('s, 'a res) io \<Rightarrow> (view \<Rightarrow> 'a \<Rightarrow> bool) \<Rightarrow> bool" where
  "observes \<alpha> m Q \<longleftrightarrow> (\<forall>s. wp m (\<lambda>r s'. \<alpha> s' = \<alpha> s \<and> (case r of Inr a \<Rightarrow> Q (\<alpha> s) a | Inl e \<Rightarrow> True)) s)"

text \<open>\<open>nils \<alpha> m P\<close>: the reply \<open>redis.Nil\<close> says \<open>P\<close> and changes nothing.\<close>

definition nils :: "('s \<Rightarrow> view) \<Rightarrow> ('s, 'a res) io \<Rightarrow> (view \<Rightarrow> bool) \<Rightarrow> bool" where
  "nils \<alpha> m P \<longleftrightarrow> (\<forall>s. wp m (\<lambda>r s'. r = Inl RedisNil \<longrightarrow> \<alpha> s' = \<alpha> s \<and> P (\<alpha> s)) s)"

text \<open>\<open>silent \<alpha> m P\<close>: the call does not touch the server and its value satisfies \<open>P\<close>.\<close>

definition silent :: "('s \<Rightarrow> view) \<Rightarrow> ('s, 'a) io \<Rightarrow> ('a \<Rightarrow> bool) \<Rightarrow> bool" where
  "silent \<alpha> m P \<longleftrightarrow> (\<forall>s. wp m (\<lambda>a s'. \<alpha> s' = \<alpha> s \<and> P a) s)"

text \<open>Each form gives a rule for the weakest precondition of a call.\<close>

lemma answers_wp:
  "answers \<alpha> m R \<Longrightarrow> (\<And>a s'. R (\<alpha> s) a (\<alpha> s') \<Longrightarrow> Q (Inr a) s') \<Longrightarrow>
   (\<And>e s'. \<alpha> s' = \<alpha> s \<or> (\<exists>a. R (\<alpha> s) a (\<alpha> s')) \<Longrightarrow> Q (Inl e) s') \<Longrightarrow> wp m Q s"
  unfolding answers_def by (erule allE [of _ s], erule wp_mono) (simp split: sum.splits)

lemma observes_wp:
  "observes \<alpha> m R \<Longrightarrow> (\<And>a s'. \<alpha> s' = \<alpha> s \<Longrightarrow> R (\<alpha> s) a \<Longrightarrow> Q (Inr a) s') \<Longrightarrow>
   (\<And>e s'. \<alpha> s' = \<alpha> s \<Longrightarrow> Q (Inl e) s') \<Longrightarrow> wp m Q s"
  unfolding observes_def by (erule allE [of _ s], erule wp_mono) (simp split: sum.splits)

lemma silent_wp:
  "silent \<alpha> m P \<Longrightarrow> (\<And>a s'. \<alpha> s' = \<alpha> s \<Longrightarrow> P a \<Longrightarrow> Q a s') \<Longrightarrow> wp m Q s"
  unfolding silent_def by (erule allE [of _ s], erule wp_mono) simp

lemma nils_wp:
  assumes "observes \<alpha> m R" "nils \<alpha> m P"
    and "\<And>a s'. \<alpha> s' = \<alpha> s \<Longrightarrow> R (\<alpha> s) a \<Longrightarrow> Q (Inr a) s'"
    and "\<And>s'. \<alpha> s' = \<alpha> s \<Longrightarrow> P (\<alpha> s) \<Longrightarrow> Q (Inl RedisNil) s'"
    and "\<And>e s'. e \<noteq> RedisNil \<Longrightarrow> \<alpha> s' = \<alpha> s \<Longrightarrow> Q (Inl e) s'"
  shows "wp m Q s"
proof (rule wp_mono [OF wp_conj])
  show "wp m (\<lambda>r s'. \<alpha> s' = \<alpha> s \<and> (case r of Inr a \<Rightarrow> R (\<alpha> s) a | Inl e \<Rightarrow> True)) s"
    using assms(1) by (simp add: observes_def)
  show "wp m (\<lambda>r s'. r = Inl RedisNil \<longrightarrow> \<alpha> s' = \<alpha> s \<and> P (\<alpha> s)) s"
    using assms(2) by (simp add: nils_def)
  show "Q r s'" if "(\<alpha> s' = \<alpha> s \<and> (case r of Inr a \<Rightarrow> R (\<alpha> s) a | Inl e \<Rightarrow> True)) \<and>
      (r = Inl RedisNil \<longrightarrow> \<alpha> s' = \<alpha> s \<and> P (\<alpha> s))" for r s'
    using that assms(3-5) by (cases r; cases "r = Inl RedisNil") auto
qed

lemma answers_nils_wp:
  assumes "answers \<alpha> m R" "nils \<alpha> m P"
    and "\<And>a s'. R (\<alpha> s) a (\<alpha> s') \<Longrightarrow> Q (Inr a) s'"
    and "\<And>s'. \<alpha> s' = \<alpha> s \<Longrightarrow> P (\<alpha> s) \<Longrightarrow> Q (Inl RedisNil) s'"
    and "\<And>e s'. e \<noteq> RedisNil \<Longrightarrow> \<alpha> s' = \<alpha> s \<or> (\<exists>a. R (\<alpha> s) a (\<alpha> s')) \<Longrightarrow> Q (Inl e) s'"
  shows "wp m Q s"
proof (rule wp_mono [OF wp_conj])
  show "wp m (\<lambda>r s'. case r of Inr a \<Rightarrow> R (\<alpha> s) a (\<alpha> s')
      | Inl e \<Rightarrow> \<alpha> s' = \<alpha> s \<or> (\<exists>a. R (\<alpha> s) a (\<alpha> s'))) s"
    using assms(1) by (simp add: answers_def)
  show "wp m (\<lambda>r s'. r = Inl RedisNil \<longrightarrow> \<alpha> s' = \<alpha> s \<and> P (\<alpha> s)) s"
    using assms(2) by (simp add: nils_def)
  show "Q r s'" if "(case r of Inr a \<Rightarrow> R (\<alpha> s) a (\<alpha> s')
      | Inl e \<Rightarrow> \<alpha> s' = \<alpha> s \<or> (\<exists>a. R (\<alpha> s) a (\<alpha> s'))) \<and>
      (r = Inl RedisNil \<longrightarrow> \<alpha> s' = \<alpha> s \<and> P (\<alpha> s))" for r s'
    using that assms(3-5) by (cases r; cases "r = Inl RedisNil") auto
qed

text \<open>
  The laws. Each is the documented behaviour of one call; a handler's calls are taken to
  run without another client's commands, or a key's expiry, between them.
\<close>

locale redis =
  fixes E :: "'s env" and \<alpha> :: "'s \<Rightarrow> view"
  assumes now: "silent \<alpha> (e_now E) (\<lambda>t. True)"
    and uuid: "silent \<alpha> (e_uuid E) (\<lambda>i. i \<noteq> '''')"
    and rand: "silent \<alpha> (e_rand E) (\<lambda>x. \<exists>r. x = Fin r \<and> 0 \<le> r \<and> r < 1)"
    and inc: "silent \<alpha> (m_inc E nm ls) (\<lambda>_. True)"
    and add: "silent \<alpha> (m_add E nm ls x) (\<lambda>_. True)"
    and set_gauge: "silent \<alpha> (m_set E nm ls x) (\<lambda>_. True)"
    and observe: "silent \<alpha> (m_observe E nm ls x) (\<lambda>_. True)"
    and ping: "observes \<alpha> (r_ping E) (\<lambda>v _. True)"
    and get: "observes \<alpha> (r_get E k) (\<lambda>v d. str_at v k = Some d)"
    and get_nil: "nils \<alpha> (r_get E k) (\<lambda>v. v k = None)"
    and set: "answers \<alpha> (r_set E k d ttl) (\<lambda>v _ v'. v' = v(k \<mapsto> RStr d ttl))"
    and setnx: "answers \<alpha> (r_setnx E k d ttl) (\<lambda>v b v'.
          if b then v k = None \<and> v' = v(k \<mapsto> RStr d ttl) else v k \<noteq> None \<and> v' = v)"
    and del: "answers \<alpha> (r_del E ks) (\<lambda>v n v'. v' = del_keys ks v)"
    and exists: "observes \<alpha> (r_exists E k) (\<lambda>v n. n = (if v k = None then 0 else 1))"
    and xadd: "answers \<alpha> (r_xadd E k fs) (\<lambda>v i v'. strm_ok v k \<and> i \<notin> List.set (strm_ids (strm_at v k)) \<and>
          v' = v(k \<mapsto> RStream (strm_add \<lparr>m_id = i, m_values = fs\<rparr> (strm_at v k))))"
    and xdel: "answers \<alpha> (r_xdel E k i) (\<lambda>v n v'. strm_ok v k \<and> v' = (if v k = None then v else
          v(k \<mapsto> RStream ((strm_at v k)\<lparr>s_entries := filter (\<lambda>m. m_id m \<noteq> i) (s_entries (strm_at v k))\<rparr>))))"
    and xrange: "observes \<alpha> (r_xrange E k ''-'' ''+'') (\<lambda>v ms. strm_ok v k \<and> ms = s_entries (strm_at v k))"
    and xlen: "observes \<alpha> (r_xlen E k) (\<lambda>v n. strm_ok v k \<and> n = int (length (s_entries (strm_at v k))))"
    and xinfo: "observes \<alpha> (r_xinfo_groups E k) (\<lambda>v gs. strm_ok v k \<and>
          gs = map (\<lambda>(n, g). (n, int (length (g_pel g)))) (s_groups (strm_at v k)))"
    and xgroup: "wp (r_xgroup_create_mkstream E k g ''0'') (\<lambda>r s'. case r of
          Inr _ \<Rightarrow> strm_ok (\<alpha> s) k \<and> group_at (strm_at (\<alpha> s) k) g = None \<and>
                   \<alpha> s' = (\<alpha> s)(k \<mapsto> RStream (strm_group g (strm_at (\<alpha> s) k)))
        | Inl e \<Rightarrow> (error_text e = busygroup \<longrightarrow> group_at (strm_at (\<alpha> s) k) g \<noteq> None \<and> \<alpha> s' = \<alpha> s) \<and>
                   (\<alpha> s' = \<alpha> s \<or> group_at (strm_at (\<alpha> s) k) g = None \<and>
                      \<alpha> s' = (\<alpha> s)(k \<mapsto> RStream (strm_group g (strm_at (\<alpha> s) k))))) s"
    and xreadgroup: "answers \<alpha> (r_xreadgroup E g c ks n b) (\<lambda>v r v'.
          r = deliveries g ks n v \<and> r \<noteq> [] \<and> v' = deliver_all g c ks n v)"
    and xreadgroup_nil: "nils \<alpha> (r_xreadgroup E g c ks n b) (\<lambda>v. deliveries g ks n v = [])"
    and xack: "answers \<alpha> (r_xack E k g i) (\<lambda>v n v'. strm_ok v k \<and>
          v' = (if v k = None then v else v(k \<mapsto> RStream (strm_ack g i (strm_at v k)))))"
    and xpending: "observes \<alpha> (r_xpending E k g n) (\<lambda>v ps. ps = take n (strm_pel (strm_at v k) g))"
    and xclaim: "answers \<alpha> (r_xclaim E k g c idle i) (\<lambda>v ms v'.
          if claimable (strm_at v k) g idle i
          then ms = strm_find (strm_at v k) i \<and> v' = v(k \<mapsto> RStream (strm_claim g c i (strm_at v k)))
          else ms = [] \<and> v' = v)"
    and zadd: "answers \<alpha> (r_zadd E k sc m) (\<lambda>v n v'. zset_ok v k \<and>
          v' = v(k \<mapsto> RZset (zset_put m sc (zset_at v k))))"
    and zrem: "answers \<alpha> (r_zrem E k m) (\<lambda>v n v'. zset_ok v k \<and>
          v' = (if v k = None then v else v(k \<mapsto> RZset (zset_rem m (zset_at v k)))))"
    and zrange: "observes \<alpha> (r_zrangebyscore E k t) (\<lambda>v ms. ms = zset_due t (zset_at v k))"
    and zcard: "observes \<alpha> (r_zcard E k) (\<lambda>v n. n = int (length (zset_at v k)))"
    and sadd: "answers \<alpha> (r_sadd E k m) (\<lambda>v n v'. set_ok v k \<and>
          v' = v(k \<mapsto> RSet (List.insert m (set_at v k))))"
    and srem: "answers \<alpha> (r_srem E k m) (\<lambda>v n v'. set_ok v k \<and>
          v' = (if v k = None then v else v(k \<mapsto> RSet (removeAll m (set_at v k)))))"
    and scard: "observes \<alpha> (r_scard E k) (\<lambda>v n. n = int (length (set_at v k)))"
    and sismember: "observes \<alpha> (r_sismember E k m) (\<lambda>v b. b = (m \<in> List.set (set_at v k)))"
    and smembers: "observes \<alpha> (r_smembers E k) (\<lambda>v ms. distinct ms \<and> List.set ms = List.set (set_at v k))"
    and publish: "observes \<alpha> (r_publish E ch d) (\<lambda>v _. True)"
begin

lemmas now_wp = silent_wp [OF now]
  and uuid_wp = silent_wp [OF uuid]
  and rand_wp = silent_wp [OF rand]
  and inc_wp = silent_wp [OF inc]
  and add_wp = silent_wp [OF add]
  and set_gauge_wp = silent_wp [OF set_gauge]
  and observe_wp = silent_wp [OF observe]

lemmas get_wp = nils_wp [OF get get_nil]
  and set_wp = answers_wp [OF set]
  and setnx_wp = answers_wp [OF setnx]
  and del_wp = answers_wp [OF del]
  and exists_wp = observes_wp [OF exists]
  and xadd_wp = answers_wp [OF xadd]
  and xdel_wp = answers_wp [OF xdel]
  and xrange_wp = observes_wp [OF xrange]
  and xlen_wp = observes_wp [OF xlen]
  and xinfo_wp = observes_wp [OF xinfo]
  and xreadgroup_wp = answers_nils_wp [OF xreadgroup xreadgroup_nil]
  and xack_wp = answers_wp [OF xack]
  and xpending_wp = observes_wp [OF xpending]
  and xclaim_wp = answers_wp [OF xclaim]
  and zadd_wp = answers_wp [OF zadd]
  and zrem_wp = answers_wp [OF zrem]
  and zrange_wp = observes_wp [OF zrange]
  and zcard_wp = observes_wp [OF zcard]
  and sadd_wp = answers_wp [OF sadd]
  and srem_wp = answers_wp [OF srem]
  and scard_wp = observes_wp [OF scard]
  and sismember_wp = observes_wp [OF sismember]
  and smembers_wp = observes_wp [OF smembers]
  and publish_wp = observes_wp [OF publish]
  and ping_wp = observes_wp [OF ping]

end

section \<open>When the server is up\<close>

text \<open>
  Progress needs more than the laws: that commands get replies. \<open>U\<close> is a condition on the
  world, kept by every command, under which a command that fits the type of its key
  succeeds. \<open>prompt U \<alpha> m P\<close>: in such a world \<open>m\<close> succeeds when \<open>P\<close> holds of the server's
  state; \<open>steady U m\<close>: the condition is kept.
\<close>

definition prompt :: "('s \<Rightarrow> bool) \<Rightarrow> ('s \<Rightarrow> view) \<Rightarrow> ('s, 'a res) io \<Rightarrow> (view \<Rightarrow> bool) \<Rightarrow> bool" where
  "prompt U \<alpha> m P \<longleftrightarrow> (\<forall>s. U s \<longrightarrow> wp m (\<lambda>r s'. U s' \<and> (P (\<alpha> s) \<longrightarrow> (\<exists>a. r = Inr a))) s)"

definition steady :: "('s \<Rightarrow> bool) \<Rightarrow> ('s, 'a) io \<Rightarrow> bool" where
  "steady U m \<longleftrightarrow> (\<forall>s. U s \<longrightarrow> wp m (\<lambda>_. U) s)"

lemma prompt_answers_wp:
  assumes "prompt U \<alpha> m P" "answers \<alpha> m R" "U s" "P (\<alpha> s)"
    and "\<And>a s'. U s' \<Longrightarrow> R (\<alpha> s) a (\<alpha> s') \<Longrightarrow> Q (Inr a) s'"
  shows "wp m Q s"
proof (rule wp_mono [OF wp_conj])
  show "wp m (\<lambda>r s'. U s' \<and> (P (\<alpha> s) \<longrightarrow> (\<exists>a. r = Inr a))) s"
    using assms(1,3) unfolding prompt_def by blast
  show "wp m (\<lambda>r s'. case r of Inr a \<Rightarrow> R (\<alpha> s) a (\<alpha> s')
      | Inl e \<Rightarrow> \<alpha> s' = \<alpha> s \<or> (\<exists>a. R (\<alpha> s) a (\<alpha> s'))) s"
    using assms(2) by (simp add: answers_def)
qed (use assms in auto)

lemma prompt_observes_wp:
  assumes "prompt U \<alpha> m P" "observes \<alpha> m R" "U s" "P (\<alpha> s)"
    and "\<And>a s'. U s' \<Longrightarrow> \<alpha> s' = \<alpha> s \<Longrightarrow> R (\<alpha> s) a \<Longrightarrow> Q (Inr a) s'"
  shows "wp m Q s"
proof (rule wp_mono [OF wp_conj])
  show "wp m (\<lambda>r s'. U s' \<and> (P (\<alpha> s) \<longrightarrow> (\<exists>a. r = Inr a))) s"
    using assms(1,3) unfolding prompt_def by blast
  show "wp m (\<lambda>r s'. \<alpha> s' = \<alpha> s \<and> (case r of Inr a \<Rightarrow> R (\<alpha> s) a | Inl e \<Rightarrow> True)) s"
    using assms(2) by (simp add: observes_def)
qed (use assms in auto)

lemma steady_silent_wp:
  assumes "steady U m" "silent \<alpha> m P" "U s"
    and "\<And>a s'. U s' \<Longrightarrow> \<alpha> s' = \<alpha> s \<Longrightarrow> P a \<Longrightarrow> Q a s'"
  shows "wp m Q s"
proof (rule wp_mono [OF wp_conj])
  show "wp m (\<lambda>_. U) s" using assms by (simp add: steady_def)
  show "wp m (\<lambda>a s'. \<alpha> s' = \<alpha> s \<and> P a) s" using assms(2) by (simp add: silent_def)
qed (use assms in auto)

locale redis_up = redis E \<alpha> for E :: "'s env" and \<alpha> :: "'s \<Rightarrow> view" +
  fixes U :: "'s \<Rightarrow> bool"
  assumes up_now: "steady U (e_now E)"
    and up_uuid: "steady U (e_uuid E)"
    and up_rand: "steady U (e_rand E)"
    and up_inc: "steady U (m_inc E nm ls)"
    and up_add: "steady U (m_add E nm ls x)"
    and up_set_gauge: "steady U (m_set E nm ls x)"
    and up_observe: "steady U (m_observe E nm ls x)"
    and up_get: "prompt U \<alpha> (r_get E k) (\<lambda>v. str_at v k \<noteq> None)"
    and up_set: "prompt U \<alpha> (r_set E k d ttl) (\<lambda>v. True)"
    and up_del: "prompt U \<alpha> (r_del E ks) (\<lambda>v. True)"
    and up_exists: "prompt U \<alpha> (r_exists E k) (\<lambda>v. True)"
    and up_setnx: "prompt U \<alpha> (r_setnx E k d ttl) (\<lambda>v. True)"
    and up_xadd: "prompt U \<alpha> (r_xadd E k fs) (\<lambda>v. strm_ok v k)"
    and up_xreadgroup: "prompt U \<alpha> (r_xreadgroup E g c ks n b) (\<lambda>v. deliveries g ks n v \<noteq> [])"
    and up_xack: "prompt U \<alpha> (r_xack E k g i) (\<lambda>v. strm_ok v k)"
    and up_zadd: "prompt U \<alpha> (r_zadd E k sc m) (\<lambda>v. zset_ok v k)"
    and up_zrem: "prompt U \<alpha> (r_zrem E k m) (\<lambda>v. zset_ok v k)"
    and up_zrange: "prompt U \<alpha> (r_zrangebyscore E k t) (\<lambda>v. zset_ok v k)"
    and up_sadd: "prompt U \<alpha> (r_sadd E k m) (\<lambda>v. set_ok v k)"
    and up_publish: "prompt U \<alpha> (r_publish E ch d) (\<lambda>v. True)"
begin

lemmas now_up = steady_silent_wp [OF up_now now]
  and uuid_up = steady_silent_wp [OF up_uuid uuid]
  and rand_up = steady_silent_wp [OF up_rand rand]
  and inc_up = steady_silent_wp [OF up_inc inc]
  and add_up = steady_silent_wp [OF up_add add]
  and set_gauge_up = steady_silent_wp [OF up_set_gauge set_gauge]
  and observe_up = steady_silent_wp [OF up_observe observe]

lemmas get_up = prompt_observes_wp [OF up_get get]
  and set_up = prompt_answers_wp [OF up_set set]
  and del_up = prompt_answers_wp [OF up_del del]
  and exists_up = prompt_observes_wp [OF up_exists exists]
  and setnx_up = prompt_answers_wp [OF up_setnx setnx]
  and xadd_up = prompt_answers_wp [OF up_xadd xadd]
  and xreadgroup_up = prompt_answers_wp [OF up_xreadgroup xreadgroup]
  and xack_up = prompt_answers_wp [OF up_xack xack]
  and zadd_up = prompt_answers_wp [OF up_zadd zadd]
  and zrem_up = prompt_answers_wp [OF up_zrem zrem]
  and zrange_up = prompt_observes_wp [OF up_zrange zrange]
  and sadd_up = prompt_answers_wp [OF up_sadd sadd]
  and publish_up = prompt_observes_wp [OF up_publish publish]

end

end
