(* ===== verification/MemRedis.thy ===== *)
theory MemRedis
  imports World
begin

text \<open>
  A Redis server in memory that satisfies the laws of the locale \<open>redis\<close>. No theorem about
  the code rests on it: it shows that the laws can hold together, and the closed witnesses
  run the handlers on it. It can be told to fail: each command consumes one entry of a script
  of faults, and an exhausted script means that all goes well.
\<close>

datatype fault =
    Works
  | Lost     \<comment> \<open>the command never reaches the server\<close>
  | NoReply  \<comment> \<open>the server executes the command, the reply is lost\<close>

record mem =
  mem_view :: view
  mem_faults :: "fault list"
  mem_clock :: int
  mem_ids :: nat

text \<open>A command: a refusal that changes nothing, or a reply and the new state.\<close>

definition mem_call :: "(view \<Rightarrow> error + 'a \<times> view) \<Rightarrow> (mem, 'a res) io" where
  "mem_call f = State (\<lambda>s. case mem_faults s of
       Lost # fs \<Rightarrow> (Inl (ErrRedis ''connection refused''), s\<lparr>mem_faults := fs\<rparr>)
     | NoReply # fs \<Rightarrow> (case f (mem_view s) of
           Inl e \<Rightarrow> (Inl (ErrRedis ''i/o timeout''), s\<lparr>mem_faults := fs\<rparr>)
         | Inr (a, v) \<Rightarrow> (Inl (ErrRedis ''i/o timeout''), s\<lparr>mem_faults := fs, mem_view := v\<rparr>))
     | fs \<Rightarrow> (case f (mem_view s) of
           Inl e \<Rightarrow> (Inl e, s\<lparr>mem_faults := tl fs\<rparr>)
         | Inr (a, v) \<Rightarrow> (Inr a, s\<lparr>mem_faults := tl fs, mem_view := v\<rparr>)))"

definition wrongtype :: error where
  "wrongtype = ErrRedis ''WRONGTYPE Operation against a key holding the wrong kind of value''"

text \<open>An ID longer than every ID in use.\<close>

definition fresh_id :: "string list \<Rightarrow> string" where
  "fresh_id ids = replicate (Suc (sum_list (map length ids))) (CHR ''1'')"

lemma fresh_id_fresh: "fresh_id ids \<notin> set ids"
proof
  assume "fresh_id ids \<in> set ids"
  then have "length (fresh_id ids) \<le> sum_list (map length ids)"
    by (intro member_le_sum_list) auto
  then show False by (simp add: fresh_id_def)
qed

definition mem_now :: "(mem, int) io" where
  "mem_now = State (\<lambda>s. (mem_clock s, s\<lparr>mem_clock := mem_clock s + 1\<rparr>))"

definition mem_uuid :: "(mem, string) io" where
  "mem_uuid = State (\<lambda>s. (''task-'' @ replicate (mem_ids s) (CHR ''x''), s\<lparr>mem_ids := Suc (mem_ids s)\<rparr>))"

definition update_key :: "(view \<Rightarrow> string \<Rightarrow> bool) \<Rightarrow> string \<Rightarrow> (view \<Rightarrow> 'a) \<Rightarrow> (view \<Rightarrow> robj) \<Rightarrow> view \<Rightarrow>
    error + 'a \<times> view" where
  "update_key ok k rep f v = (if ok v k then Inr (rep v, v(k \<mapsto> f v)) else Inl wrongtype)"

definition adjust_key :: "(view \<Rightarrow> string \<Rightarrow> bool) \<Rightarrow> string \<Rightarrow> (view \<Rightarrow> 'a) \<Rightarrow> (view \<Rightarrow> robj) \<Rightarrow> view \<Rightarrow>
    error + 'a \<times> view" where
  "adjust_key ok k rep f v =
     (if \<not> ok v k then Inl wrongtype else if v k = None then Inr (rep v, v)
      else Inr (rep v, v(k \<mapsto> f v)))"

definition read_key :: "(view \<Rightarrow> string \<Rightarrow> bool) \<Rightarrow> string \<Rightarrow> (view \<Rightarrow> 'a) \<Rightarrow> view \<Rightarrow> error + 'a \<times> view" where
  "read_key ok k rep v = (if ok v k then Inr (rep v, v) else Inl wrongtype)"

definition mem_env :: "mem env" where
  "mem_env = \<lparr>
     e_now = mem_now,
     e_uuid = mem_uuid,
     e_rand = ret (Fin (1/2)),
     m_inc = (\<lambda>_ _. ret ()),
     m_add = (\<lambda>_ _ _. ret ()),
     m_set = (\<lambda>_ _ _. ret ()),
     m_observe = (\<lambda>_ _ _. ret ()),
     r_ping = mem_call (\<lambda>v. Inr ((), v)),
     r_get = (\<lambda>k. mem_call (\<lambda>v. case v k of None \<Rightarrow> Inl RedisNil
        | Some (RStr d _) \<Rightarrow> Inr (d, v) | _ \<Rightarrow> Inl wrongtype)),
     r_set = (\<lambda>k d ttl. mem_call (\<lambda>v. Inr ((), v(k \<mapsto> RStr d ttl)))),
     r_setnx = (\<lambda>k d ttl. mem_call (\<lambda>v. if v k = None then Inr (True, v(k \<mapsto> RStr d ttl)) else Inr (False, v))),
     r_del = (\<lambda>ks. mem_call (\<lambda>v. Inr (int (length (filter (\<lambda>k. v k \<noteq> None) ks)), del_keys ks v))),
     r_exists = (\<lambda>k. mem_call (\<lambda>v. Inr (if v k = None then 0 else 1, v))),
     r_xadd = (\<lambda>k fs. mem_call (update_key strm_ok k (\<lambda>v. fresh_id (strm_ids (strm_at v k)))
        (\<lambda>v. RStream (strm_add \<lparr>m_id = fresh_id (strm_ids (strm_at v k)), m_values = fs\<rparr> (strm_at v k))))),
     r_xdel = (\<lambda>k i. mem_call (adjust_key strm_ok k
        (\<lambda>v. int (length (strm_find (strm_at v k) i)))
        (\<lambda>v. RStream ((strm_at v k)\<lparr>s_entries := filter (\<lambda>m. m_id m \<noteq> i) (s_entries (strm_at v k))\<rparr>)))),
     r_xrange = (\<lambda>k a b. mem_call (read_key strm_ok k (\<lambda>v. s_entries (strm_at v k)))),
     r_xlen = (\<lambda>k. mem_call (read_key strm_ok k (\<lambda>v. int (length (s_entries (strm_at v k)))))),
     r_xgroup_create_mkstream = (\<lambda>k g start. mem_call (\<lambda>v.
        if group_at (strm_at v k) g \<noteq> None then Inl (ErrRedis busygroup)
        else update_key strm_ok k (\<lambda>_. ()) (\<lambda>v. RStream (strm_group g (strm_at v k))) v)),
     r_xinfo_groups = (\<lambda>k. mem_call (read_key strm_ok k (\<lambda>v.
        map (\<lambda>(n, g). (n, int (length (g_pel g)))) (s_groups (strm_at v k))))),
     r_xreadgroup = (\<lambda>g c ks n b. mem_call (\<lambda>v. if deliveries g ks n v = [] then Inl RedisNil
        else Inr (deliveries g ks n v, deliver_all g c ks n v))),
     r_xack = (\<lambda>k g i. mem_call (adjust_key strm_ok k
        (\<lambda>v. int (length (filter (\<lambda>p. p_id p = i) (strm_pel (strm_at v k) g))))
        (\<lambda>v. RStream (strm_ack g i (strm_at v k))))),
     r_xpending = (\<lambda>k g n. mem_call (\<lambda>v. Inr (take n (strm_pel (strm_at v k) g), v))),
     r_xclaim = (\<lambda>k g c idle i. mem_call (\<lambda>v. if claimable (strm_at v k) g idle i
        then Inr (strm_find (strm_at v k) i, v(k \<mapsto> RStream (strm_claim g c i (strm_at v k))))
        else Inr ([], v))),
     r_zadd = (\<lambda>k sc m. mem_call (update_key zset_ok k
        (\<lambda>v. if m \<in> fst ` set (zset_at v k) then 0 else 1) (\<lambda>v. RZset (zset_put m sc (zset_at v k))))),
     r_zrem = (\<lambda>k m. mem_call (adjust_key zset_ok k
        (\<lambda>v. if m \<in> fst ` set (zset_at v k) then 1 else 0) (\<lambda>v. RZset (zset_rem m (zset_at v k))))),
     r_zrangebyscore = (\<lambda>k t. mem_call (\<lambda>v. Inr (zset_due t (zset_at v k), v))),
     r_zcard = (\<lambda>k. mem_call (\<lambda>v. Inr (int (length (zset_at v k)), v))),
     r_sadd = (\<lambda>k m. mem_call (update_key set_ok k (\<lambda>v. 1) (\<lambda>v. RSet (List.insert m (set_at v k))))),
     r_srem = (\<lambda>k m. mem_call (adjust_key set_ok k (\<lambda>v. 1) (\<lambda>v. RSet (removeAll m (set_at v k))))),
     r_scard = (\<lambda>k. mem_call (\<lambda>v. Inr (int (length (set_at v k)), v))),
     r_sismember = (\<lambda>k m. mem_call (\<lambda>v. Inr (m \<in> set (set_at v k), v))),
     r_smembers = (\<lambda>k. mem_call (\<lambda>v. Inr (remdups (set_at v k), v))),
     r_publish = (\<lambda>ch d. mem_call (\<lambda>v. Inr ((), v)))
   \<rparr>"

text \<open>Commands in memory satisfy a law when their effect function does.\<close>

lemma mem_call_answers:
  "(\<And>v a v'. f v = Inr (a, v') \<Longrightarrow> R v a v') \<Longrightarrow> answers mem_view (mem_call f) R"
  unfolding answers_def wp_def mem_call_def
  by (auto split: list.splits fault.splits sum.splits prod.splits)

lemma mem_call_observes:
  "(\<And>v a v'. f v = Inr (a, v') \<Longrightarrow> v' = v \<and> R v a) \<Longrightarrow> observes mem_view (mem_call f) R"
  unfolding observes_def wp_def mem_call_def
  by (auto split: list.splits fault.splits sum.splits prod.splits)

lemma mem_call_nils:
  "(\<And>v. f v = Inl RedisNil \<Longrightarrow> P v) \<Longrightarrow> nils mem_view (mem_call f) P"
  unfolding nils_def wp_def mem_call_def
  by (auto split: list.splits fault.splits sum.splits prod.splits)

lemma mem_call_wp:
  assumes "\<And>e. f (mem_view s) = Inl e \<Longrightarrow> Q (Inl e) (mem_view s)"
    and "\<And>a v. f (mem_view s) = Inr (a, v) \<Longrightarrow> Q (Inr a) v"
    and "Q (Inl (ErrRedis ''connection refused'')) (mem_view s)"
    and "f (mem_view s) = Inl e \<Longrightarrow> Q (Inl (ErrRedis ''i/o timeout'')) (mem_view s)"
    and "\<And>e. f (mem_view s) = Inl e \<Longrightarrow> Q (Inl (ErrRedis ''i/o timeout'')) (mem_view s)"
    and "\<And>a v. f (mem_view s) = Inr (a, v) \<Longrightarrow> Q (Inl (ErrRedis ''i/o timeout'')) v"
  shows "wp (mem_call f) (\<lambda>r s'. Q r (mem_view s')) s"
  unfolding wp_def mem_call_def using assms
  by (auto split: list.splits fault.splits sum.splits prod.splits)

interpretation mem: redis mem_env mem_view
proof (unfold_locales, goal_cases)
  case 3
  show ?case
    by (simp add: mem_env_def silent_def wp_return) (rule exI [of _ "1/2"], simp)
next
  case (20 k g s)
  show ?case
    unfolding mem_env_def env.simps
    by (rule mem_call_wp) (auto simp: update_key_def wrongtype_def busygroup_def split: if_splits)
qed (auto simp: mem_env_def silent_def wp_def mem_now_def mem_uuid_def update_key_def adjust_key_def
    read_key_def str_at_def wrongtype_def fresh_id_fresh deliveries_def
    intro!: mem_call_answers mem_call_observes mem_call_nils
    split: if_splits option.splits robj.splits)

text \<open>Without faults in the script the server in memory is up; its clock never goes back.\<close>

definition mem_up :: "int \<Rightarrow> mem \<Rightarrow> bool" where
  "mem_up T s \<longleftrightarrow> mem_faults s = [] \<and> T \<le> mem_clock s"

lemma mem_call_prompt:
  "(\<And>v. P v \<Longrightarrow> \<exists>a w. f v = Inr (a, w)) \<Longrightarrow> prompt (mem_up T) mem_view (mem_call f) P"
  unfolding prompt_def wp_def mem_call_def mem_up_def
  by (fastforce split: sum.splits prod.splits)

interpretation memup: redis_up mem_env mem_view "mem_up T" for T
proof (unfold_locales, goal_cases)
  case (8 k)
  show ?case unfolding mem_env_def env.simps
    by (rule mem_call_prompt) (auto simp: str_at_def split: option.splits robj.splits)
qed (auto simp: mem_env_def steady_def wp_def mem_now_def mem_uuid_def mem_up_def update_key_def
    adjust_key_def intro!: mem_call_prompt)

text \<open>A server without data, with a script of faults; the start of the closed witnesses.\<close>

definition empty_mem :: "fault list \<Rightarrow> mem" where
  "empty_mem fs = \<lparr>mem_view = (\<lambda>_. None), mem_faults = fs, mem_clock = 1000 * 1000000000, mem_ids = 0\<rparr>"

end
