(* ===== verification/TaskModel.thy ===== *)
theory TaskModel
  imports MemRedis
begin

text \<open>
  \<^verbatim>\<open>internal/task/task.go\<close> and the states of \<^verbatim>\<open>internal/task/state.go\<close>: priorities,
  states, tasks, requests and responses, and the JSON form a task is stored in.
  Instants and durations are in nanoseconds.
\<close>

section \<open>Priorities\<close>

text \<open>
  \<^verbatim>\<open>Priority\<close> is an \<^verbatim>\<open>int\<close>: \<open>PriorityOther n\<close> is a value outside the constants, which a
  stored document can hold.
\<close>

datatype priority =
    PriorityLow
  | PriorityNormal
  | PriorityHigh
  | PriorityCritical
  | PriorityOther int

fun priority_int :: "priority \<Rightarrow> int" where
  "priority_int PriorityLow = 0"
| "priority_int PriorityNormal = 1"
| "priority_int PriorityHigh = 2"
| "priority_int PriorityCritical = 3"
| "priority_int (PriorityOther n) = n"

text \<open>The conversion \<^verbatim>\<open>Priority(i)\<close>.\<close>

definition priority_of :: "int \<Rightarrow> priority" where
  "priority_of i = (if i = 0 then PriorityLow else if i = 1 then PriorityNormal
     else if i = 2 then PriorityHigh else if i = 3 then PriorityCritical else PriorityOther i)"

fun Priority_String :: "priority \<Rightarrow> string" where
  "Priority_String PriorityLow = ''low''"
| "Priority_String PriorityNormal = ''normal''"
| "Priority_String PriorityHigh = ''high''"
| "Priority_String PriorityCritical = ''critical''"
| "Priority_String (PriorityOther n) = ''unknown''"

definition StreamName :: "priority \<Rightarrow> string \<Rightarrow> string" where
  "StreamName p prefix = prefix @ '':'' @ Priority_String p"

definition ParsePriority :: "string \<Rightarrow> priority" where
  "ParsePriority s = (if s = ''low'' then PriorityLow else if s = ''normal'' then PriorityNormal
     else if s = ''high'' then PriorityHigh else if s = ''critical'' then PriorityCritical
     else PriorityNormal)"

definition PriorityFromInt :: "int \<Rightarrow> priority" where
  "PriorityFromInt i = (if i < 0 \<or> i > 3 then PriorityNormal else priority_of i)"

fun known_priority :: "priority \<Rightarrow> bool" where
  "known_priority (PriorityOther n) = False"
| "known_priority p = True"

interpretation prio: named_enum Priority_String ParsePriority known_priority
proof unfold_locales
  show "known_priority x \<Longrightarrow> ParsePriority (Priority_String x) = x" for x
    by (cases x) (simp_all add: ParsePriority_def)
  show "known_priority (ParsePriority s)" for s
    by (simp add: ParsePriority_def)
qed

lemma PriorityFromInt_known [simp]: "known_priority (PriorityFromInt i)"
  by (simp add: PriorityFromInt_def priority_of_def)

lemma priority_of_int [simp]: "known_priority p \<Longrightarrow> priority_of (priority_int p) = p"
  by (cases p) (simp_all add: priority_of_def)

text \<open>The streams of different priorities are different keys.\<close>

lemma StreamName_inj:
  "known_priority p \<Longrightarrow> known_priority q \<Longrightarrow> StreamName p pre = StreamName q pre \<Longrightarrow> p = q"
  by (auto simp: StreamName_def dest: prio.render_inj)

section \<open>States\<close>

datatype tstate =
    StatePending
  | StateScheduled
  | StateRunning
  | StateCompleted
  | StateFailed
  | StateRetrying
  | StateCanceled
  | StateDeadLetter
  | StateOther int

fun state_int :: "tstate \<Rightarrow> int" where
  "state_int StatePending = 0"
| "state_int StateScheduled = 1"
| "state_int StateRunning = 2"
| "state_int StateCompleted = 3"
| "state_int StateFailed = 4"
| "state_int StateRetrying = 5"
| "state_int StateCanceled = 6"
| "state_int StateDeadLetter = 7"
| "state_int (StateOther n) = n"

definition state_of :: "int \<Rightarrow> tstate" where
  "state_of i = (if i = 0 then StatePending else if i = 1 then StateScheduled
     else if i = 2 then StateRunning else if i = 3 then StateCompleted
     else if i = 4 then StateFailed else if i = 5 then StateRetrying
     else if i = 6 then StateCanceled else if i = 7 then StateDeadLetter else StateOther i)"

fun State_String :: "tstate \<Rightarrow> string" where
  "State_String StatePending = ''pending''"
| "State_String StateScheduled = ''scheduled''"
| "State_String StateRunning = ''running''"
| "State_String StateCompleted = ''completed''"
| "State_String StateFailed = ''failed''"
| "State_String StateRetrying = ''retrying''"
| "State_String StateCanceled = ''canceled''"
| "State_String StateDeadLetter = ''dead_letter''"
| "State_String (StateOther n) = ''unknown''"

definition ParseState :: "string \<Rightarrow> tstate" where
  "ParseState s = (if s = ''pending'' then StatePending else if s = ''scheduled'' then StateScheduled
     else if s = ''running'' then StateRunning else if s = ''completed'' then StateCompleted
     else if s = ''failed'' then StateFailed else if s = ''retrying'' then StateRetrying
     else if s = ''canceled'' then StateCanceled else if s = ''dead_letter'' then StateDeadLetter
     else StatePending)"

fun known_state :: "tstate \<Rightarrow> bool" where
  "known_state (StateOther n) = False"
| "known_state x = True"

interpretation tstate: named_enum State_String ParseState known_state
proof unfold_locales
  show "known_state x \<Longrightarrow> ParseState (State_String x) = x" for x
    by (cases x) (simp_all add: ParseState_def)
  show "known_state (ParseState s)" for s
    by (simp add: ParseState_def)
qed

lemma state_of_int [simp]: "known_state x \<Longrightarrow> state_of (state_int x) = x"
  by (cases x) (simp_all add: state_of_def)

section \<open>Tasks\<close>

type_synonym smap = "(string \<times> string) list option"

record task =
  t_id :: string
  t_type :: string
  t_payload :: gmap
  t_priority :: priority
  t_state :: tstate
  t_attempts :: int
  t_max_retries :: int
  t_error :: string
  t_result :: gmap
  t_worker_id :: string
  t_created_at :: int
  t_updated_at :: int
  t_started_at :: "int option"
  t_completed_at :: "int option"
  t_scheduled_at :: "int option"
  t_timeout :: int
  t_metadata :: smap

record create_request =
  rq_type :: string
  rq_payload :: gmap
  rq_priority :: int
  rq_max_retries :: int
  rq_timeout :: int
  rq_scheduled_at :: "int option"
  rq_metadata :: smap

record task_response =
  rs_id :: string
  rs_type :: string
  rs_payload :: gmap
  rs_priority :: string
  rs_state :: string
  rs_attempts :: int
  rs_max_retries :: int
  rs_error :: string
  rs_result :: gmap
  rs_worker_id :: string
  rs_created_at :: int
  rs_updated_at :: int
  rs_started_at :: "int option"
  rs_completed_at :: "int option"
  rs_scheduled_at :: "int option"
  rs_next_retry_at :: "int option"
  rs_metadata :: smap

definition New :: "'s env \<Rightarrow> string \<Rightarrow> gmap \<Rightarrow> priority \<Rightarrow> ('s, task) io" where
  "New E taskType payload priority = do {
     now \<leftarrow> e_now E;
     uuid \<leftarrow> e_uuid E;
     ret \<lparr>t_id = uuid, t_type = taskType, t_payload = payload, t_priority = priority,
          t_state = StatePending, t_attempts = 0, t_max_retries = 3, t_error = '''',
          t_result = None, t_worker_id = '''', t_created_at = now, t_updated_at = now,
          t_started_at = None, t_completed_at = None, t_scheduled_at = None,
          t_timeout = 5 * Minute, t_metadata = Some []\<rparr>
   }"

text \<open>The fields of the request that override the defaults, in the order of the code.\<close>

definition apply_request :: "create_request \<Rightarrow> task \<Rightarrow> task" where
  "apply_request req t =
     (let t = (if rq_max_retries req > 0 then t\<lparr>t_max_retries := rq_max_retries req\<rparr> else t);
          t = (if rq_timeout req > 0 then t\<lparr>t_timeout := wrap64 (rq_timeout req * Second)\<rparr> else t);
          t = (if rq_scheduled_at req \<noteq> None then t\<lparr>t_scheduled_at := rq_scheduled_at req\<rparr> else t);
          t = (if rq_metadata req \<noteq> None then t\<lparr>t_metadata := rq_metadata req\<rparr> else t)
      in t)"

definition FromRequest :: "'s env \<Rightarrow> create_request \<Rightarrow> ('s, task) io" where
  "FromRequest E req = do {
     t \<leftarrow> New E (rq_type req) (rq_payload req) (PriorityFromInt (rq_priority req));
     ret (apply_request req t)
   }"

definition ToResponse :: "task \<Rightarrow> task_response" where
  "ToResponse t =
     (let resp = \<lparr>rs_id = t_id t, rs_type = t_type t, rs_payload = t_payload t,
            rs_priority = Priority_String (t_priority t), rs_state = State_String (t_state t),
            rs_attempts = t_attempts t, rs_max_retries = t_max_retries t, rs_error = t_error t,
            rs_result = t_result t, rs_worker_id = t_worker_id t,
            rs_created_at = t_created_at t, rs_updated_at = t_updated_at t,
            rs_started_at = t_started_at t, rs_completed_at = t_completed_at t,
            rs_scheduled_at = t_scheduled_at t, rs_next_retry_at = None,
            rs_metadata = t_metadata t\<rparr>
      in if t_state t = StateRetrying \<and> t_scheduled_at t \<noteq> None
         then resp\<lparr>rs_next_retry_at := t_scheduled_at t\<rparr> else resp)"

definition CanRetry :: "task \<Rightarrow> bool" where
  "CanRetry t \<longleftrightarrow> t_attempts t < t_max_retries t"

definition IncrementAttempts :: "'s env \<Rightarrow> task \<Rightarrow> ('s, task) io" where
  "IncrementAttempts E t = do {
     now \<leftarrow> e_now E;
     ret (t\<lparr>t_attempts := wrap64 (t_attempts t + 1), t_updated_at := now\<rparr>)
   }"

section \<open>The stored form\<close>

text \<open>The JSON object of a task, field by field with its tags.\<close>

definition task_doc :: "task \<Rightarrow> gval" where
  "task_doc t = GObj (
     [(''id'', GStr (t_id t)), (''type'', GStr (t_type t)), (''payload'', gmap_doc (t_payload t)),
      (''priority'', GNum (of_int (priority_int (t_priority t)))),
      (''state'', GNum (of_int (state_int (t_state t)))),
      (''attempts'', GNum (of_int (t_attempts t))),
      (''max_retries'', GNum (of_int (t_max_retries t)))] @
     omit_string ''error'' (t_error t) @
     omit_gmap ''result'' (t_result t) @
     omit_string ''worker_id'' (t_worker_id t) @
     [(''created_at'', GTime (t_created_at t)), (''updated_at'', GTime (t_updated_at t))] @
     omit_time ''started_at'' (t_started_at t) @
     omit_time ''completed_at'' (t_completed_at t) @
     omit_time ''scheduled_at'' (t_scheduled_at t) @
     [(''timeout'', GNum (of_int (t_timeout t)))] @
     omit_smap ''metadata'' (t_metadata t))"

text \<open>\<^verbatim>\<open>t.ToJSON()\<close>, \<^verbatim>\<open>json.Marshal(t)\<close>.\<close>

definition ToJSON :: "task \<Rightarrow> gval res" where
  "ToJSON t = (if marshalable (task_doc t) then Inr (task_doc t) else Inl ErrJSON)"

text \<open>\<^verbatim>\<open>json.Unmarshal(data, &t)\<close>: every field must have its type.\<close>

definition read_task :: "(string \<times> gval) list \<Rightarrow> task option" where
  "read_task fs = do {
     i \<leftarrow> read_string (field fs ''id'');
     ty \<leftarrow> read_string (field fs ''type'');
     pl \<leftarrow> read_gmap (field fs ''payload'');
     pr \<leftarrow> read_int (field fs ''priority'');
     st \<leftarrow> read_int (field fs ''state'');
     att \<leftarrow> read_int (field fs ''attempts'');
     mx \<leftarrow> read_int (field fs ''max_retries'');
     er \<leftarrow> read_string (field fs ''error'');
     rs \<leftarrow> read_gmap (field fs ''result'');
     wk \<leftarrow> read_string (field fs ''worker_id'');
     ca \<leftarrow> read_time (field fs ''created_at'');
     ua \<leftarrow> read_time (field fs ''updated_at'');
     sa \<leftarrow> read_time_ptr (field fs ''started_at'');
     co \<leftarrow> read_time_ptr (field fs ''completed_at'');
     sc \<leftarrow> read_time_ptr (field fs ''scheduled_at'');
     tm \<leftarrow> read_int (field fs ''timeout'');
     md \<leftarrow> read_smap (field fs ''metadata'');
     Some \<lparr>t_id = i, t_type = ty, t_payload = pl, t_priority = priority_of pr, t_state = state_of st,
       t_attempts = att, t_max_retries = mx, t_error = er, t_result = rs, t_worker_id = wk,
       t_created_at = ca, t_updated_at = ua, t_started_at = sa, t_completed_at = co,
       t_scheduled_at = sc, t_timeout = tm, t_metadata = md\<rparr>
   }"

fun FromJSON :: "gval \<Rightarrow> task res" where
  "FromJSON (GObj fs) = (case read_task fs of None \<Rightarrow> Inl ErrJSON | Some t \<Rightarrow> Inr t)"
| "FromJSON GNull = (case read_task [] of None \<Rightarrow> Inl ErrJSON | Some t \<Rightarrow> Inr t)"
| "FromJSON _ = Inl ErrJSON"

text \<open>
  \<^verbatim>\<open>ToMap\<close> ignores an encoding error and then stores the empty text; \<^verbatim>\<open>FromMap\<close> wants the
  field \<^verbatim>\<open>data\<close> to be a text. In this model every value but a missing one is a text.
\<close>

definition ToMap :: "task \<Rightarrow> (string \<times> gval) list" where
  "ToMap t = [(''data'', case ToJSON t of Inr d \<Rightarrow> d | Inl _ \<Rightarrow> GStr '''')]"

definition FromMap :: "(string \<times> gval) list \<Rightarrow> task res" where
  "FromMap m = (case field m ''data'' of None \<Rightarrow> Inl ErrInvalidTaskData | Some d \<Rightarrow> FromJSON d)"

subsection \<open>Round trip\<close>

text \<open>
  What survives storage: the numbers fit into their Go types, the enumerations hold one of
  their constants. The maps with \<^verbatim>\<open>omitempty\<close> come back nil when they were empty.
\<close>

definition storable :: "task \<Rightarrow> bool" where
  "storable t \<longleftrightarrow> known_priority (t_priority t) \<and> known_state (t_state t) \<and> in_int64 (t_attempts t) \<and>
     in_int64 (t_max_retries t) \<and> in_int64 (t_timeout t) \<and>
     gmap_ok (t_payload t) \<and> gmap_ok (t_result t)"

definition drop_empty :: "'a list option \<Rightarrow> 'a list option" where
  "drop_empty m = (if m = Some [] then None else m)"

definition stored :: "task \<Rightarrow> task" where
  "stored t = t\<lparr>t_result := drop_empty (t_result t), t_metadata := drop_empty (t_metadata t)\<rparr>"

lemma field_omit:
  "field (omit_string k s) j = (if j = k \<and> s \<noteq> '''' then Some (GStr s) else None)"
  "field (omit_time k x) j = (if j = k then map_option GTime x else None)"
  "field (omit_gmap k m) j = (if j = k then map_option GObj (drop_empty m) else None)"
  "field (omit_smap k sm) j =
     (if j = k then map_option (\<lambda>a. GObj (map (\<lambda>(a, b). (a, GStr b)) a)) (drop_empty sm) else None)"
  by (auto simp: omit_string_def omit_time_def omit_gmap_def omit_smap_def field_Cons drop_empty_def
      split: option.splits)

lemma read_omitted:
  "read_string (if s \<noteq> '''' then Some (GStr s) else None) = Some s"
  "read_time_ptr (map_option GTime x) = Some x"
  "read_gmap (map_option GObj m) = Some m"
  "read_smap (map_option (\<lambda>a. GObj (map (\<lambda>(a, b). (a, GStr b)) a)) sm) = Some sm"
  "read_gmap (Some (gmap_doc m)) = Some m"
  by (cases x; cases m; cases sm; simp add: gmap_doc_def)+

lemma state_int_in_int64: "known_state x \<Longrightarrow> in_int64 (state_int x)"
  by (cases x) (simp_all add: in_int64_def)

lemma priority_int_in_int64: "known_priority x \<Longrightarrow> in_int64 (priority_int x)"
  by (cases x) (simp_all add: in_int64_def)

lemma list_all_marshalable_omit [simp]:
  "list_all (\<lambda>(k, v). marshalable v) (omit_string k s)"
  "list_all (\<lambda>(k, v). marshalable v) (omit_time k x)"
  "gmap_ok m \<Longrightarrow> list_all (\<lambda>(k, v). marshalable v) (omit_gmap k m)"
  "list_all (\<lambda>(k, v). marshalable v) (omit_smap k sm)"
proof -
  have "list_all (\<lambda>(k, v). marshalable v) (map (\<lambda>(a, b). (a, GStr b)) xs)" for xs :: "(string \<times> string) list"
    by (induction xs) auto
  then show "list_all (\<lambda>(k, v). marshalable v) (omit_string k s)"
    "list_all (\<lambda>(k, v). marshalable v) (omit_time k x)"
    "gmap_ok m \<Longrightarrow> list_all (\<lambda>(k, v). marshalable v) (omit_gmap k m)"
    "list_all (\<lambda>(k, v). marshalable v) (omit_smap k sm)"
    by (auto simp: omit_string_def omit_time_def omit_gmap_def omit_smap_def gmap_ok_def gmap_doc_def
        split: option.splits)
qed

lemma marshalable_task_doc:
  "gmap_ok (t_payload t) \<Longrightarrow> gmap_ok (t_result t) \<Longrightarrow> marshalable (task_doc t)"
  by (simp add: task_doc_def gmap_ok_def)

lemma marshalable_task_docD:
  assumes "ToJSON t = Inr d"
  shows "gmap_ok (t_payload t)" "gmap_ok (t_result t)"
  using assms
  by (auto simp: ToJSON_def task_doc_def gmap_ok_def gmap_doc_def omit_gmap_def
      split: if_splits option.splits)

lemma FromJSON_ToJSON:
  assumes "storable t"
  shows "ToJSON t = Inr (task_doc t)" "FromJSON (task_doc t) = Inr (stored t)"
proof -
  show "ToJSON t = Inr (task_doc t)"
    using assms by (simp add: ToJSON_def marshalable_task_doc storable_def)
  show "FromJSON (task_doc t) = Inr (stored t)"
    using assms
    by (simp add: task_doc_def read_task_def field_append field_Cons field_omit read_omitted
        storable_def state_int_in_int64 priority_int_in_int64 stored_def del: read_int.simps)
qed

lemma stored_simps [simp]:
  "t_id (stored t) = t_id t" "t_type (stored t) = t_type t" "t_payload (stored t) = t_payload t"
  "t_priority (stored t) = t_priority t" "t_state (stored t) = t_state t"
  "t_attempts (stored t) = t_attempts t" "t_max_retries (stored t) = t_max_retries t"
  "t_error (stored t) = t_error t" "t_worker_id (stored t) = t_worker_id t"
  "t_created_at (stored t) = t_created_at t" "t_updated_at (stored t) = t_updated_at t"
  "t_started_at (stored t) = t_started_at t" "t_completed_at (stored t) = t_completed_at t"
  "t_scheduled_at (stored t) = t_scheduled_at t" "t_timeout (stored t) = t_timeout t"
  by (simp_all add: stored_def)

lemma storable_stored [simp]: "storable (stored t) = storable t"
  by (auto simp: storable_def stored_def drop_empty_def gmap_ok_def gmap_doc_def split: option.splits)

section \<open>Properties\<close>

text \<open>Concrete tasks for the closed witnesses of this theory and those above it.\<close>

definition sample_task :: "string \<Rightarrow> priority \<Rightarrow> tstate \<Rightarrow> task" where
  "sample_task i p st = \<lparr>t_id = i, t_type = ''echo'', t_payload = Some [(''message'', GStr ''hello'')],
     t_priority = p, t_state = st, t_attempts = 0, t_max_retries = 3, t_error = '''', t_result = None,
     t_worker_id = '''', t_created_at = 0, t_updated_at = 0, t_started_at = None,
     t_completed_at = None, t_scheduled_at = None, t_timeout = 5 * Minute, t_metadata = None\<rparr>"

lemma sample_task_storable: "known_priority p \<Longrightarrow> known_state x \<Longrightarrow> storable (sample_task i p x)"
  by (simp add: sample_task_def storable_def in_int64_def gmap_ok_def gmap_doc_def)




definition sample_request :: create_request where
  "sample_request = \<lparr>rq_type = ''echo'', rq_payload = Some [(''message'', GStr ''hello'')],
     rq_priority = 7, rq_max_retries = 0, rq_timeout = 2 ^ 40, rq_scheduled_at = Some 5, rq_metadata = None\<rparr>"


end
