(* ===== verification/TaskState.thy ===== *)
theory TaskState
  imports TaskModel
begin

text \<open>
  \<^verbatim>\<open>internal/task/state.go\<close>: the transition table and the state machine that drives a
  task through it. The machine holds a pointer to its task, so each operation returns the
  task as it left it together with Go's error, \<open>None\<close> for \<^verbatim>\<open>nil\<close>.
\<close>

section \<open>The transition table\<close>

fun IsFinal :: "tstate \<Rightarrow> bool" where
  "IsFinal s = (s = StateCompleted \<or> s = StateFailed \<or> s = StateCanceled \<or> s = StateDeadLetter)"

fun IsActive :: "tstate \<Rightarrow> bool" where
  "IsActive s = (s = StateRunning \<or> s = StateRetrying)"

fun ValidTransitions :: "tstate \<Rightarrow> tstate list option" where
  "ValidTransitions StatePending = Some [StateScheduled, StateRunning, StateCanceled]"
| "ValidTransitions StateScheduled = Some [StatePending, StateRunning, StateCanceled]"
| "ValidTransitions StateRunning = Some [StateCompleted, StateFailed, StateRetrying, StateCanceled]"
| "ValidTransitions StateRetrying =
     Some [StateRunning, StateFailed, StateDeadLetter, StateCanceled, StatePending]"
| "ValidTransitions StateFailed = Some [StateRetrying, StateDeadLetter, StatePending]"
| "ValidTransitions StateCompleted = Some []"
| "ValidTransitions StateCanceled = Some []"
| "ValidTransitions StateDeadLetter = Some [StatePending]"
| "ValidTransitions (StateOther n) = None"

definition CanTransitionTo :: "tstate \<Rightarrow> tstate \<Rightarrow> bool" where
  "CanTransitionTo s target = (case ValidTransitions s of
     None \<Rightarrow> False
   | Some validTargets \<Rightarrow> list_ex (\<lambda>v. v = target) validTargets)"

text \<open>A path through the table, one permitted transition after another.\<close>

inductive leads_to :: "tstate \<Rightarrow> tstate \<Rightarrow> bool" where
  here: "leads_to s s"
| onward: "leads_to s u \<Longrightarrow> CanTransitionTo u v \<Longrightarrow> leads_to s v"

lemmas table = CanTransitionTo_def

lemma completed_stuck: "leads_to StateCompleted s \<Longrightarrow> s = StateCompleted"
  by (induction StateCompleted s rule: leads_to.induct) (auto simp: table)

lemma canceled_stuck: "leads_to StateCanceled s \<Longrightarrow> s = StateCanceled"
  by (induction StateCanceled s rule: leads_to.induct) (auto simp: table)

lemma leads_to_trans: "leads_to u v \<Longrightarrow> leads_to s u \<Longrightarrow> leads_to s v"
  by (induction rule: leads_to.induct) (auto intro: leads_to.intros)

lemma one_step: "CanTransitionTo s v \<Longrightarrow> leads_to s v"
  by (rule leads_to.onward [OF leads_to.here])

section \<open>The state machine\<close>

text \<open>What a permitted transition does to the task, with the clock reading \<open>now\<close>.\<close>

definition enter_state :: "int \<Rightarrow> tstate \<Rightarrow> task \<Rightarrow> task" where
  "enter_state now target t =
     (let t = t\<lparr>t_state := target, t_updated_at := now\<rparr> in
      case target of
        StateRunning \<Rightarrow> t\<lparr>t_started_at := Some now\<rparr>
      | StateCompleted \<Rightarrow> t\<lparr>t_completed_at := Some now\<rparr>
      | StateFailed \<Rightarrow> t\<lparr>t_completed_at := Some now\<rparr>
      | StateCanceled \<Rightarrow> t\<lparr>t_completed_at := Some now\<rparr>
      | StateDeadLetter \<Rightarrow> t\<lparr>t_completed_at := Some now\<rparr>
      | _ \<Rightarrow> t)"

definition Transition :: "'s env \<Rightarrow> task \<Rightarrow> tstate \<Rightarrow> ('s, task \<times> error option) io" where
  "Transition E t target =
     (if \<not> CanTransitionTo (t_state t) target then ret (t, Some ErrInvalidTransition)
      else do {
        now \<leftarrow> e_now E;
        ret (enter_state now target t, None)
      })"

definition Start :: "'s env \<Rightarrow> task \<Rightarrow> string \<Rightarrow> ('s, task \<times> error option) io" where
  "Start E t workerID = do {
     (t, err) \<leftarrow> Transition E t StateRunning;
     case err of Some e \<Rightarrow> ret (t, Some e)
     | None \<Rightarrow> do {
         t \<leftarrow> IncrementAttempts E (t\<lparr>t_worker_id := workerID\<rparr>);
         ret (t, None)
       }
   }"

definition Complete :: "'s env \<Rightarrow> task \<Rightarrow> gmap \<Rightarrow> ('s, task \<times> error option) io" where
  "Complete E t result = do {
     (t, err) \<leftarrow> Transition E t StateCompleted;
     case err of Some e \<Rightarrow> ret (t, Some e)
     | None \<Rightarrow> ret (t\<lparr>t_result := result, t_error := ''''\<rparr>, None)
   }"

definition Fail :: "'s env \<Rightarrow> task \<Rightarrow> string \<Rightarrow> ('s, task \<times> error option) io" where
  "Fail E t errMsg = do {
     (t, err) \<leftarrow> Transition E t StateFailed;
     case err of Some e \<Rightarrow> ret (t, Some e)
     | None \<Rightarrow> ret (t\<lparr>t_error := errMsg\<rparr>, None)
   }"

definition Retry :: "'s env \<Rightarrow> task \<Rightarrow> ('s, task \<times> error option) io" where
  "Retry E t = (if \<not> CanRetry t then Transition E t StateDeadLetter else Transition E t StateRetrying)"

definition Cancel :: "'s env \<Rightarrow> task \<Rightarrow> ('s, task \<times> error option) io" where
  "Cancel E t = Transition E t StateCanceled"

definition MoveToDLQ :: "'s env \<Rightarrow> task \<Rightarrow> ('s, task \<times> error option) io" where
  "MoveToDLQ E t = Transition E t StateDeadLetter"

text \<open>The reset happens before the transition is checked.\<close>

definition reset_task :: "task \<Rightarrow> task" where
  "reset_task t = t\<lparr>t_worker_id := '''', t_attempts := 0, t_error := '''',
     t_started_at := None, t_completed_at := None\<rparr>"

definition Requeue :: "'s env \<Rightarrow> task \<Rightarrow> ('s, task \<times> error option) io" where
  "Requeue E t = Transition E (reset_task t) StatePending"

text \<open>The operations as a datatype, for statements about any run of the machine.\<close>

datatype machine_op =
    OpTransition tstate
  | OpStart string
  | OpComplete gmap
  | OpFail string
  | OpRetry
  | OpCancel
  | OpMoveToDLQ
  | OpRequeue

fun run_op :: "'s env \<Rightarrow> machine_op \<Rightarrow> task \<Rightarrow> ('s, task \<times> error option) io" where
  "run_op E (OpTransition x) t = Transition E t x"
| "run_op E (OpStart w) t = Start E t w"
| "run_op E (OpComplete r) t = Complete E t r"
| "run_op E (OpFail m) t = Fail E t m"
| "run_op E OpRetry t = Retry E t"
| "run_op E OpCancel t = Cancel E t"
| "run_op E OpMoveToDLQ t = MoveToDLQ E t"
| "run_op E OpRequeue t = Requeue E t"

text \<open>A sequence of operations; errors are ignored and the next operation goes on.\<close>

fun run_ops :: "'s env \<Rightarrow> machine_op list \<Rightarrow> task \<Rightarrow> ('s, task) io" where
  "run_ops E [] t = ret t"
| "run_ops E (x # xs) t = do { (t, _) \<leftarrow> run_op E x t; run_ops E xs t }"

section \<open>What every operation keeps\<close>

lemma enter_state_simps [simp]:
  "t_state (enter_state now x t) = x" "t_id (enter_state now x t) = t_id t"
  "t_type (enter_state now x t) = t_type t" "t_payload (enter_state now x t) = t_payload t"
  "t_priority (enter_state now x t) = t_priority t" "t_attempts (enter_state now x t) = t_attempts t"
  "t_max_retries (enter_state now x t) = t_max_retries t" "t_error (enter_state now x t) = t_error t"
  "t_result (enter_state now x t) = t_result t" "t_worker_id (enter_state now x t) = t_worker_id t"
  "t_created_at (enter_state now x t) = t_created_at t" "t_updated_at (enter_state now x t) = now"
  "t_scheduled_at (enter_state now x t) = t_scheduled_at t" "t_timeout (enter_state now x t) = t_timeout t"
  "t_metadata (enter_state now x t) = t_metadata t"
  by (auto simp: enter_state_def Let_def split: tstate.splits)

lemma enter_state_times [simp]:
  "t_started_at (enter_state now x t) = (if x = StateRunning then Some now else t_started_at t)"
  "t_completed_at (enter_state now x t) = (if IsFinal x then Some now else t_completed_at t)"
  by (auto simp: enter_state_def Let_def split: tstate.splits)

text \<open>
  The weakest precondition of a transition: it needs no law of the clock, because the
  reading may be any value.
\<close>

lemma Transition_wp:
  assumes "\<not> CanTransitionTo (t_state t) x \<Longrightarrow> Q (t, Some ErrInvalidTransition) s"
    and "\<And>now s'. CanTransitionTo (t_state t) x \<Longrightarrow> run_state (e_now E) s = (now, s') \<Longrightarrow>
           Q (enter_state now x t, None) s'"
  shows "wp (Transition E t x) Q s"
  using assms by (auto simp: Transition_def wp_def split: prod.splits)

lemma e_now_wp: "(\<And>now s'. Q now s') \<Longrightarrow> wp (e_now E) Q s"
  by (simp add: wp_runI)

text \<open>
  An operation either fails with the task's state unchanged, or moves the task along an
  entry of the table; no operation touches identity, type, payload, priority, retry limit,
  timeout or creation time.
\<close>

definition machine_keeps :: "task \<Rightarrow> task \<times> error option \<Rightarrow> bool" where
  "machine_keeps t r = (case r of (t', err) \<Rightarrow>
     (case err of None \<Rightarrow> CanTransitionTo (t_state t) (t_state t')
      | Some e \<Rightarrow> e = ErrInvalidTransition \<and> t_state t' = t_state t) \<and>
     t_id t' = t_id t \<and> t_type t' = t_type t \<and> t_payload t' = t_payload t \<and>
     t_priority t' = t_priority t \<and> t_max_retries t' = t_max_retries t \<and>
     t_timeout t' = t_timeout t \<and> t_created_at t' = t_created_at t \<and> t_metadata t' = t_metadata t)"

lemma Transition_keeps: "wp (Transition E t x) (\<lambda>r _. machine_keeps t r) s"
  by (rule Transition_wp) (simp_all add: machine_keeps_def)

lemmas machine_ops = Start_def Complete_def Fail_def Retry_def Cancel_def MoveToDLQ_def Requeue_def

lemma run_op_keeps: "wp (run_op E op t) (\<lambda>r _. machine_keeps t r) s"
proof (cases op)
  case (OpStart w)
  then show ?thesis
    by (auto simp: machine_ops wp_eqs machine_keeps_def IncrementAttempts_def
        intro!: Transition_wp e_now_wp)
qed (auto simp: machine_ops wp_eqs machine_keeps_def reset_task_def intro!: Transition_wp)

lemma run_ops_leads_to:
  "wp (run_ops E ops t) (\<lambda>t' _. leads_to (t_state t) (t_state t')) s"
proof (induction ops arbitrary: t s)
  case Nil
  then show ?case by (simp add: wp_eqs leads_to.here)
next
  case (Cons x xs)
  have step: "leads_to (t_state t) (t_state t')" if "machine_keeps t (t', err)" for t' err
    using that by (auto simp: machine_keeps_def one_step leads_to.here split: option.splits)
  show ?case unfolding run_ops.simps wp_bind
  proof (rule wp_mono [OF run_op_keeps])
    fix r s' assume "machine_keeps t r"
    then show "wp (case r of (t, _) \<Rightarrow> run_ops E xs t)
        (\<lambda>t' _. leads_to (t_state t) (t_state t')) s'"
      using step by (cases r) (auto intro: wp_mono [OF Cons.IH] leads_to_trans)
  qed
qed

text \<open>With the laws of the clock a transition leaves the server alone.\<close>

context redis
begin

lemma Transition_silent:
  assumes "\<And>s'. \<alpha> s' = \<alpha> s \<Longrightarrow> \<not> CanTransitionTo (t_state t) x \<Longrightarrow> Q (t, Some ErrInvalidTransition) s'"
    and "\<And>now s'. \<alpha> s' = \<alpha> s \<Longrightarrow> CanTransitionTo (t_state t) x \<Longrightarrow> Q (enter_state now x t, None) s'"
  shows "wp (Transition E t x) Q s"
  using assms by (auto simp: Transition_def wp_eqs intro!: now_wp)

end

context redis_up
begin

lemma Transition_up:
  assumes "U s" "CanTransitionTo (t_state t) x"
    and "\<And>now s'. U s' \<Longrightarrow> \<alpha> s' = \<alpha> s \<Longrightarrow> Q (enter_state now x t, None) s'"
  shows "wp (Transition E t x) Q s"
  using assms by (auto simp: Transition_def wp_eqs intro!: now_up)

end

section \<open>Properties\<close>

text \<open>
  An operation of the state machine either is refused as an invalid transition with the
  task's state unchanged, or takes the task along one entry of the transition table; identity,
  type, payload, priority, retry limit, timeout, creation time and metadata never change.
\<close>

theorem machine_step:
  "machine_keeps t (fst (run_state (run_op E op t) s))"
  using run_op_keeps [of E op t s] by (simp add: wp_def split: prod.splits)

text \<open>
  C12: Whatever operations are called in whatever order, the state a task ends in is reached from
  its first state by a path through the transition table.
\<close>

theorem machine_path:
  "leads_to (t_state t) (t_state (fst (run_state (run_ops E ops t) s)))"
  using run_ops_leads_to [of E ops t s] by (simp add: wp_def split: prod.splits)

text \<open>
  A completed or canceled task stays in its state through any sequence of operations, and
  each of these operations is refused.
\<close>

theorem terminal_stays:
  assumes "t_state t \<in> {StateCompleted, StateCanceled}"
  shows "t_state (fst (run_state (run_ops E ops t) s)) = t_state t \<and>
    snd (fst (run_state (run_op E op t) s)) = Some ErrInvalidTransition"
proof -
  let ?r = "fst (run_state (run_op E op t) s)"
  have "leads_to (t_state t) (t_state (fst (run_state (run_ops E ops t) s)))"
    using run_ops_leads_to [of E ops t s] by (simp add: wp_def split: prod.splits)
  moreover have "machine_keeps t ?r"
    using run_op_keeps [of E op t s] by (simp add: wp_def split: prod.splits)
  ultimately show ?thesis using assms completed_stuck canceled_stuck
    by (auto simp: machine_keeps_def table split: option.splits)
qed

lemma terminal_stays_witness:
  "t_state (fst (run_state (run_ops mem_env [OpRequeue, OpStart ''w'', OpFail ''x''] 
       (sample_task ''a'' PriorityLow StateCanceled)) (empty_mem []))) = StateCanceled"
  using terminal_stays [of "sample_task ''a'' PriorityLow StateCanceled" mem_env
      "[OpRequeue, OpStart ''w'', OpFail ''x'']" "empty_mem []" OpRequeue]
  by (simp add: sample_task_def)

end
