(* ===== verification/RetryPolicy.thy ===== *)
theory RetryPolicy
  imports TaskState
begin

text \<open>
  \<^verbatim>\<open>internal/task/retry.go\<close>: the retry policy with its exponential backoff in floating
  point, and the retryer that prepares a failed task for its next run.
\<close>

section \<open>The policy\<close>

record retry_policy =
  MaxAttempts :: int
  InitialBackoff :: int
  MaxBackoff :: int
  BackoffFactor :: f64
  JitterFactor :: f64

definition DefaultRetryPolicy :: retry_policy where
  "DefaultRetryPolicy = \<lparr>MaxAttempts = 3, InitialBackoff = 1 * Second, MaxBackoff = 5 * Minute,
     BackoffFactor = Fin 2, JitterFactor = fin (1/10)\<rparr>"

text \<open>The exponential backoff, capped: the first two steps of \<^verbatim>\<open>CalculateBackoff\<close>.\<close>

definition capped_backoff :: "retry_policy \<Rightarrow> int \<Rightarrow> f64" where
  "capped_backoff p attempt =
     (let backoff = f_mul (f_of_int (InitialBackoff p)) (f_pow (BackoffFactor p) attempt) in
      if f_less (f_of_int (MaxBackoff p)) backoff then f_of_int (MaxBackoff p) else backoff)"

text \<open>The jitter for the random number \<open>r\<close>: between minus and plus the jitter factor.\<close>

definition add_jitter :: "retry_policy \<Rightarrow> f64 \<Rightarrow> f64 \<Rightarrow> f64" where
  "add_jitter p r backoff =
     (let jitter = f_mul (f_mul backoff (JitterFactor p)) (f_sub (f_mul r (Fin 2)) (Fin 1))
      in f_add backoff jitter)"

definition CalculateBackoff :: "'s env \<Rightarrow> retry_policy \<Rightarrow> int \<Rightarrow> ('s, int) io" where
  "CalculateBackoff E p attempt =
     (if attempt \<le> 0 then ret (InitialBackoff p)
      else do {
        backoff \<leftarrow> (if f_less (Fin 0) (JitterFactor p)
          then do { r \<leftarrow> e_rand E; ret (add_jitter p r (capped_backoff p attempt)) }
          else ret (capped_backoff p attempt));
        let backoff = (if f_less backoff (Fin 0) then f_of_int (InitialBackoff p) else backoff);
        ret (f_to_int64 backoff)
      })"

definition ShouldRetry :: "retry_policy \<Rightarrow> task \<Rightarrow> bool" where
  "ShouldRetry p t \<longleftrightarrow> t_attempts t < MaxAttempts p"

definition NextRetryTime :: "'s env \<Rightarrow> retry_policy \<Rightarrow> task \<Rightarrow> ('s, int) io" where
  "NextRetryTime E p t = do {
     backoff \<leftarrow> CalculateBackoff E p (t_attempts t);
     now \<leftarrow> e_now E;
     ret (now + backoff)
   }"

record retry_info =
  ri_should_retry :: bool
  ri_next_retry_at :: int
  ri_backoff_delay :: int
  ri_attempts_left :: int
  ri_total_attempts :: int

definition GetRetryInfo :: "'s env \<Rightarrow> retry_policy \<Rightarrow> task \<Rightarrow> ('s, retry_info) io" where
  "GetRetryInfo E p t = do {
     let shouldRetry = ShouldRetry p t;
     backoff \<leftarrow> CalculateBackoff E p (t_attempts t);
     now \<leftarrow> e_now E;
     ret \<lparr>ri_should_retry = shouldRetry, ri_next_retry_at = now + backoff,
          ri_backoff_delay = backoff, ri_attempts_left = MaxAttempts p - t_attempts t,
          ri_total_attempts = MaxAttempts p\<rparr>
   }"

section \<open>The retryer\<close>

definition NewRetryer :: "retry_policy option \<Rightarrow> retry_policy" where
  "NewRetryer policy = (case policy of None \<Rightarrow> DefaultRetryPolicy | Some p \<Rightarrow> p)"

text \<open>The result holds the task, whether to retry, and when (the zero time if not).\<close>

definition ProcessFailure :: "'s env \<Rightarrow> retry_policy \<Rightarrow> task \<Rightarrow> string \<Rightarrow> ('s, task \<times> bool \<times> int) io" where
  "ProcessFailure E p t errMsg = do {
     now \<leftarrow> e_now E;
     let t = t\<lparr>t_error := errMsg, t_updated_at := now\<rparr>;
     if ShouldRetry p t then do {
       retryAt \<leftarrow> NextRetryTime E p t;
       ret (t, True, retryAt)
     } else ret (t, False, zero_time)
   }"

definition ScheduleRetry :: "'s env \<Rightarrow> retry_policy \<Rightarrow> task \<Rightarrow> ('s, task \<times> error option) io" where
  "ScheduleRetry E p t = do {
     (t, err) \<leftarrow> Retry E t;
     case err of Some e \<Rightarrow> ret (t, Some e)
     | None \<Rightarrow> do {
         retryAt \<leftarrow> NextRetryTime E p t;
         ret (t\<lparr>t_scheduled_at := Some retryAt\<rparr>, None)
       }
   }"

text \<open>Here the state is overwritten, whatever the state machine answered.\<close>

definition PrepareForRequeue :: "'s env \<Rightarrow> task \<Rightarrow> ('s, task) io" where
  "PrepareForRequeue E t = do {
     (t, _) \<leftarrow> Retry E t;
     now \<leftarrow> e_now E;
     ret (t\<lparr>t_state := StatePending, t_scheduled_at := None, t_updated_at := now\<rparr>)
   }"

section \<open>Bounds of the backoff\<close>

text \<open>
  A reasonable policy: durations between 0 and about 104 days, a factor of at least one and
  a jitter factor of at most one.
\<close>

definition policy_ok :: "retry_policy \<Rightarrow> bool" where
  "policy_ok p \<longleftrightarrow> 0 \<le> InitialBackoff p \<and> InitialBackoff p \<le> MaxBackoff p \<and> MaxBackoff p \<le> 2 ^ 52 \<and>
     (\<exists>b. BackoffFactor p = Fin b \<and> 1 \<le> b) \<and>
     (\<exists>j. JitterFactor p = Fin j \<and> 0 \<le> j \<and> j \<le> 1)"

lemma f_less_Fin_zero: "f_less (Fin 0) (Fin j) \<longleftrightarrow> 0 < j"
  by simp

lemma f_pow_ge_one:
  assumes "1 \<le> b" "0 \<le> n"
  shows "f_pow (Fin b) n = PInf \<or> (\<exists>x. f_pow (Fin b) n = Fin x \<and> 1 \<le> x)"
proof -
  have "1 \<le> b ^ nat n" using assms by simp
  then have "1 \<le> round53 (b ^ nat n)" using r53.rnd_ge_int [of 1 "b ^ nat n"] by simp
  then show ?thesis
    using fin_cases_nonneg [of "b ^ nat n"] \<open>1 \<le> b ^ nat n\<close> by (auto simp: f_pow_def)
qed

text \<open>Without NaN the capped backoff is a double between the initial and the maximal one.\<close>

lemma capped_backoff_range:
  assumes "policy_ok p" "0 < InitialBackoff p" "0 < attempt"
  shows "\<exists>x. capped_backoff p attempt = Fin x \<and> of_int (InitialBackoff p) \<le> x \<and>
           x \<le> of_int (MaxBackoff p) \<and> round53 x = x"
proof -
  let ?i = "InitialBackoff p" and ?m = "MaxBackoff p"
  from assms(1) obtain b where b: "BackoffFactor p = Fin b" "1 \<le> b" by (auto simp: policy_ok_def)
  have im: "\<bar>?i\<bar> \<le> 2 ^ 53" "\<bar>?m\<bar> \<le> 2 ^ 53" "?i \<le> ?m" using assms by (auto simp: policy_ok_def)
  have fi: "f_of_int ?i = Fin (of_int ?i)" "f_of_int ?m = Fin (of_int ?m)" using im by simp_all
  have max_int: "round53 (of_int ?m) = of_int ?m" using im by (simp add: round53_of_int)
  from assms(3) have "f_pow (Fin b) attempt = PInf \<or> (\<exists>x. f_pow (Fin b) attempt = Fin x \<and> 1 \<le> x)"
    using f_pow_ge_one [OF b(2), of attempt] by simp
  then show ?thesis
  proof (elim disjE exE conjE)
    assume "f_pow (Fin b) attempt = PInf"
    then have "capped_backoff p attempt = Fin (of_int ?m)"
      using assms(2) by (simp add: capped_backoff_def fi b Let_def)
    then show ?thesis using im(3) max_int by simp
  next
    fix x assume x: "f_pow (Fin b) attempt = Fin x" "1 \<le> x"
    have le: "of_int ?i \<le> of_int ?i * x" using x assms(2) by simp
    then have lo: "of_int ?i \<le> round53 (of_int ?i * x)"
      using r53.rnd_ge_int [of ?i] assms(2) im by simp
    have nn: "0 \<le> of_int ?i * x" using le assms(2) by simp
    have idem: "round53 (round53 y) = round53 y" for y
      by (rule round53_idem)
    show ?thesis
      using fin_cases_nonneg [OF nn] lo im(3) max_int idem
      by (auto simp: capped_backoff_def fi b x Let_def split: if_splits)
  qed
qed

lemma fin_unit: "\<bar>x\<bar> \<le> 2 \<Longrightarrow> fin x = Fin (round53 x)"
  using fin_small [of x 2] by simp

text \<open>The random factor is a double between -1 and 1.\<close>

lemma jitter_factor_range:
  assumes "0 \<le> r" "r < 1"
  shows "\<exists>v. f_sub (f_mul (Fin r) (Fin 2)) (Fin 1) = Fin v \<and> \<bar>v\<bar> \<le> 1"
proof -
  have u: "f_mul (Fin r) (Fin 2) = Fin (round53 (r * 2))" using assms by (simp add: fin_unit)
  have "0 \<le> round53 (r * 2)" "round53 (r * 2) \<le> 2"
    using assms r53.rnd_nonneg [of "r * 2"] r53.rnd_le_int [of "r * 2" 2] by simp_all
  then have w: "\<bar>round53 (r * 2) + - 1\<bar> \<le> 1" by (simp add: abs_le_iff)
  then have "\<bar>round53 (round53 (r * 2) + - 1)\<bar> \<le> 1"
    using r53.rnd_abs_le_int [of "round53 (r * 2) + - 1" 1] by simp
  moreover have "f_sub (f_mul (Fin r) (Fin 2)) (Fin 1) = fin (round53 (r * 2) + - 1)"
    unfolding f_sub_def u by simp
  ultimately show ?thesis using w fin_unit [of "round53 (r * 2) + - 1"] by simp
qed

text \<open>Jitter at most doubles the delay and never makes it negative.\<close>

lemma add_jitter_range:
  assumes p: "policy_ok p" and x: "0 \<le> x" "x \<le> of_int (MaxBackoff p)" "round53 x = x"
    and r: "0 \<le> r" "r < 1"
  shows "\<exists>y. add_jitter p (Fin r) (Fin x) = Fin y \<and> 0 \<le> y \<and> y \<le> of_int (2 * MaxBackoff p)"
proof -
  let ?m = "MaxBackoff p"
  have m: "?m \<le> 2 ^ 53" "2 * ?m \<le> 2 ^ 53" "0 \<le> ?m" using p by (auto simp: policy_ok_def)
  from p obtain j where j: "JitterFactor p = Fin j" "0 \<le> j" "j \<le> 1" by (auto simp: policy_ok_def)
  from jitter_factor_range [OF r] obtain v where
    v: "f_sub (f_mul (Fin r) (Fin 2)) (Fin 1) = Fin v" "\<bar>v\<bar> \<le> 1" by blast
  define y where "y = round53 (x * j)"
  have xj: "0 \<le> x * j" "x * j \<le> of_int ?m"
    using x j mult_left_le [of j x] by (auto intro: order_trans)
  have fy: "f_mul (Fin x) (Fin j) = Fin y"
    using fin_small [of "x * j" ?m] xj m by (simp add: y_def)
  have y: "0 \<le> y" "y \<le> x" "round53 y = y"
    using r53.rnd_nonneg [OF xj(1)] r53.rnd_shrink [of x j] x j by (simp_all add: y_def round53_idem)
  define z where "z = round53 (y * v)"
  have yv: "\<bar>y * v\<bar> \<le> y" using y v(2) mult_left_le [of "\<bar>v\<bar>" y] by (simp add: abs_mult)
  have z: "\<bar>z\<bar> \<le> x"
  proof -
    have "\<bar>z\<bar> = round53 \<bar>y * v\<bar>"
      unfolding z_def using round53_minus [of "y * v"] r53.rnd_nonneg [of "\<bar>y * v\<bar>"]
      by (cases "0 \<le> y * v") auto
    also have "\<dots> \<le> round53 y" using yv by (intro round53_mono) simp_all
    finally show ?thesis using y by simp
  qed
  have fz: "f_mul (Fin y) (Fin v) = Fin z"
    using fin_small [of "y * v" ?m] yv y x m by (simp add: z_def)
  have s: "0 \<le> x + z" "x + z \<le> of_int (2 * ?m)" using z x by auto
  then have "f_add (Fin x) (Fin z) = Fin (round53 (x + z))"
    using fin_small [of "x + z" "2 * ?m"] m by simp
  then have "add_jitter p (Fin r) (Fin x) = Fin (round53 (x + z))"
    unfolding add_jitter_def Let_def j(1) v(1) fy fz .
  moreover have "0 \<le> round53 (x + z)" "round53 (x + z) \<le> of_int (2 * ?m)"
    using r53.rnd_nonneg [OF s(1)] r53.rnd_le_int [OF s] m by simp_all
  ultimately show ?thesis by blast
qed

lemma f_to_int64_range:
  "0 \<le> y \<Longrightarrow> y \<le> of_int n \<Longrightarrow> in_int64 n \<Longrightarrow> 0 \<le> f_to_int64 (Fin y) \<and> f_to_int64 (Fin y) \<le> n"
proof -
  assume "0 \<le> y" "y \<le> of_int n" "in_int64 n"
  then have "0 \<le> \<lfloor>y\<rfloor>" "\<lfloor>y\<rfloor> \<le> n" by (simp_all add: floor_le_iff)
  then have "in_int64 \<lfloor>y\<rfloor>" using \<open>in_int64 n\<close> unfolding in_int64_def by linarith
  then show ?thesis using \<open>0 \<le> y\<close> \<open>0 \<le> \<lfloor>y\<rfloor>\<close> \<open>\<lfloor>y\<rfloor> \<le> n\<close> by (simp add: trunc_rat_def)
qed

lemma policy_int64: "policy_ok p \<Longrightarrow> in_int64 (2 * MaxBackoff p) \<and> in_int64 (MaxBackoff p)"
  by (auto simp: policy_ok_def in_int64_def)

text \<open>The delay of an attempt, for any reading of the random generator.\<close>

context redis
begin

lemma CalculateBackoff_wp:
  assumes p: "policy_ok p" "0 < InitialBackoff p"
  shows "wp (CalculateBackoff E p attempt) (\<lambda>d s'. \<alpha> s' = \<alpha> s \<and> 0 \<le> d \<and> d \<le> 2 * MaxBackoff p) s"
proof (cases "0 < attempt")
  case False
  then show ?thesis using p by (auto simp: CalculateBackoff_def wp_eqs policy_ok_def)
next
  case True
  from capped_backoff_range [OF p True] obtain x where
    x: "capped_backoff p attempt = Fin x" "of_int (InitialBackoff p) \<le> x"
      "x \<le> of_int (MaxBackoff p)" "round53 x = x" by blast
  have x0: "0 \<le> x" using x(2) p(2) by (simp add: order_trans [of 0 "of_int (InitialBackoff p)"])
  have no_jitter: "x \<le> of_int (2 * MaxBackoff p)" using x x0 by simp
  note int64 = policy_int64 [OF p(1), THEN conjunct1]
  have fits: "0 \<le> f_to_int64 (Fin y) \<and> f_to_int64 (Fin y) \<le> 2 * MaxBackoff p"
    if "0 \<le> y" "y \<le> of_int (2 * MaxBackoff p)" for y
    using f_to_int64_range [OF that int64] .
  have nonneg: "\<not> f_less (Fin y) (Fin 0)" if "0 \<le> y" for y using that by simp
  show ?thesis
  proof (cases "f_less (Fin 0) (JitterFactor p)")
    case jitter: True
    have "\<exists>y. add_jitter p u (Fin x) = Fin y \<and> 0 \<le> y \<and> y \<le> of_int (2 * MaxBackoff p)"
      if "\<exists>r. u = Fin r \<and> 0 \<le> r \<and> r < 1" for u
      using that add_jitter_range [OF p(1) x0 x(3,4)] by blast
    then show ?thesis using True jitter fits nonneg
      by (auto simp: CalculateBackoff_def wp_eqs x(1) Let_def simp del: f_to_int64.simps f_less.simps
          intro!: rand_wp) (metis (no_types, lifting))+
  next
    case False
    with True fits [OF x0 no_jitter] nonneg [OF x0] show ?thesis
      by (simp add: CalculateBackoff_def wp_eqs x(1) Let_def del: f_to_int64.simps f_less.simps)
  qed
qed

end

lemma in_int64_53: "0 \<le> d \<Longrightarrow> d \<le> 2 ^ 53 \<Longrightarrow> in_int64 d"
  by (simp add: in_int64_def)

text \<open>With factor 2 and no jitter the floating-point result is the exact one.\<close>

lemma capped_doubling:
  assumes "BackoffFactor p = Fin 2" "0 < InitialBackoff p" "InitialBackoff p \<le> 2 ^ 53"
    and "0 \<le> MaxBackoff p" "MaxBackoff p \<le> 2 ^ 53" "0 < attempt"
  shows "capped_backoff p attempt = Fin (of_int (min (InitialBackoff p * 2 ^ nat attempt) (MaxBackoff p)))"
proof -
  let ?i = "InitialBackoff p" and ?m = "MaxBackoff p" and ?n = "nat attempt"
  let ?x = "of_int ?i * 2 ^ ?n :: rat"
  have fi: "f_of_int ?i = Fin (of_int ?i)" "f_of_int ?m = Fin (of_int ?m)" using assms by simp_all
  have x: "?x = of_int (?i * 2 ^ ?n)" by simp
  have pow: "f_pow (Fin 2) attempt = fin (2 ^ ?n)" using assms(6) by (simp add: f_pow_def)
  show ?thesis
  proof (cases "?i * 2 ^ ?n \<le> 2 ^ 53")
    case True
    have "?n < 1024"
    proof (rule ccontr)
      assume "\<not> ?n < 1024"
      then have "(2::int) ^ 1024 \<le> 2 ^ ?n" by (intro power_increasing) simp_all
      also have "\<dots> \<le> ?i * 2 ^ ?n" using assms(2) by simp
      finally show False using True by simp
    qed
    moreover have "fin ?x = Fin ?x"
    proof -
      have "\<bar>?i * 2 ^ ?n\<bar> \<le> 2 ^ 53" using True assms(2) by simp
      then show ?thesis unfolding x f_of_int_def [symmetric] by (rule f_of_int_small)
    qed
    ultimately have val: "f_mul (f_of_int ?i) (f_pow (BackoffFactor p) attempt) = Fin ?x"
      unfolding assms(1) fi(1) pow fin_pow2 by simp
    have "capped_backoff p attempt =
        (if of_int ?m < ?x then Fin (of_int ?m) else Fin ?x)"
      unfolding capped_backoff_def Let_def val fi(2) by simp
    then show ?thesis unfolding x of_int_less_iff by (simp add: min_def)
  next
    case False
    then have "of_int (2 ^ 53) \<le> ?x" unfolding x of_int_le_iff by simp
    then have big: "2 ^ 53 \<le> round53 ?x" using r53.rnd_ge_int [of "2 ^ 53" ?x] by simp
    have m: "of_int ?m \<le> (2 ^ 53 :: rat)" using assms(5) by (metis of_int_le_iff of_int_numeral of_int_power)
    have min: "min (?i * 2 ^ ?n) ?m = ?m" using False assms(5) by simp
    have "0 \<le> ?x" using assms(2) by simp
    from fin_cases_nonneg [OF this] have
      "f_less (Fin (of_int ?m)) (fin ?x) \<or> fin ?x = Fin (of_int ?m)"
      using big m by auto
    then have "?n < 1024 \<Longrightarrow> ?thesis"
      by (auto simp: capped_backoff_def fi assms(1) pow fin_pow2 Let_def min simp del: f_less.simps)
    moreover have "\<not> ?n < 1024 \<Longrightarrow> ?thesis"
      using assms(2) by (simp add: capped_backoff_def fi assms(1) pow fin_pow2 Let_def min)
    ultimately show ?thesis by blast
  qed
qed

text \<open>The default policy is a reasonable one.\<close>

lemma fin_tenth: "\<exists>j. fin (1/10) = Fin j \<and> 0 \<le> j \<and> j \<le> 1"
  using fin_unit [of "1/10"] r53.rnd_nonneg [of "1/10"] r53.rnd_le_int [of "1/10" 1] by simp

lemma default_policy_ok: "policy_ok DefaultRetryPolicy"
  using fin_tenth by (simp add: policy_ok_def DefaultRetryPolicy_def)

section \<open>Properties\<close>

text \<open>
  C16: With backoff factor 2 and no jitter, the delay computed in floating point for a retry is
  exactly the documented one, the initial backoff doubled per attempt and capped at the maximum.
\<close>

theorem backoff_exact:
  assumes "BackoffFactor p = Fin 2" "JitterFactor p = Fin 0"
    and "0 < InitialBackoff p" "InitialBackoff p \<le> 2 ^ 53" "0 \<le> MaxBackoff p" "MaxBackoff p \<le> 2 ^ 53"
    and "0 < attempt"
  shows "run_state (CalculateBackoff E p attempt) s =
           (min (InitialBackoff p * 2 ^ nat attempt) (MaxBackoff p), s)"
proof -
  let ?d = "min (InitialBackoff p * 2 ^ nat attempt) (MaxBackoff p)"
  have "0 \<le> ?d" using assms(3,5) by simp
  moreover have "?d \<le> 2 ^ 53" using assms(6) by (rule min.coboundedI2)
  ultimately have "in_int64 ?d" by (rule in_int64_53)
  moreover have "\<not> ?d < 0" using \<open>0 \<le> ?d\<close> by (simp only: not_less)
  ultimately show ?thesis
    using capped_doubling [OF assms(1,3-7)] f_to_int64_Fin_int [of ?d] assms(2,7)
    by (simp add: CalculateBackoff_def Let_def del: f_to_int64.simps of_int_min min_less_iff_disj)
qed

theorem backoff_exact_witness:
  "run_state (CalculateBackoff mem_env (DefaultRetryPolicy\<lparr>JitterFactor := Fin 0\<rparr>) 3) (empty_mem []) =
     (8 * Second, empty_mem [])"
  using backoff_exact [of "DefaultRetryPolicy\<lparr>JitterFactor := Fin 0\<rparr>" 3 mem_env "empty_mem []"]
  by (simp add: DefaultRetryPolicy_def)

text \<open>
  For a policy with sensible settings the delay of any attempt lies between 0 and twice the
  maximal backoff, whatever the random generator returns, and computing it leaves the server alone.
\<close>

theorem backoff_bounds:
  assumes "redis E \<alpha>" "policy_ok p" "0 < InitialBackoff p"
    and "run_state (CalculateBackoff E p attempt) s = (d, s')"
  shows "0 \<le> d \<and> d \<le> 2 * MaxBackoff p \<and> \<alpha> s' = \<alpha> s"
  using wp_runD [OF redis.CalculateBackoff_wp [OF assms(1-3)] assms(4)] by simp

theorem backoff_bounds_witness:
  "0 \<le> fst (run_state (CalculateBackoff mem_env DefaultRetryPolicy 9) (empty_mem [])) \<and>
   fst (run_state (CalculateBackoff mem_env DefaultRetryPolicy 9) (empty_mem [])) \<le> 10 * Minute \<and>
   mem_view (snd (run_state (CalculateBackoff mem_env DefaultRetryPolicy 9) (empty_mem []))) = mem_view (empty_mem [])"
  using backoff_bounds [OF mem.redis_axioms default_policy_ok _ run_fstI [OF refl], of 9 "empty_mem []"]
  by (simp add: DefaultRetryPolicy_def)

section \<open>A failed task on its way to the next attempt\<close>

context redis
begin

lemma CalculateBackoff_silent:
  "(\<And>d s'. \<alpha> s' = \<alpha> s \<Longrightarrow> Q d s') \<Longrightarrow> wp (CalculateBackoff E p attempt) Q s"
  by (auto simp: CalculateBackoff_def wp_eqs Let_def intro!: rand_wp)

lemma NextRetryTime_silent:
  "(\<And>d s'. \<alpha> s' = \<alpha> s \<Longrightarrow> Q d s') \<Longrightarrow> wp (NextRetryTime E p t) Q s"
  by (auto simp: NextRetryTime_def wp_eqs intro!: CalculateBackoff_silent now_wp)

lemma ScheduleRetry_wp:
  assumes "t_state t = StateFailed" "CanRetry t"
    and "\<And>now retryAt s'. \<alpha> s' = \<alpha> s \<Longrightarrow>
      Q ((enter_state now StateRetrying t)\<lparr>t_scheduled_at := Some retryAt\<rparr>, None) s'"
  shows "wp (ScheduleRetry E p t) Q s"
  unfolding ScheduleRetry_def Retry_def
  using assms by (auto simp: wp_eqs table intro!: Transition_silent NextRetryTime_silent)

lemma PrepareForRequeue_wp:
  assumes "\<And>t' s'. \<alpha> s' = \<alpha> s \<Longrightarrow> t_state t' = StatePending \<Longrightarrow> t_scheduled_at t' = None \<Longrightarrow>
      t_id t' = t_id t \<Longrightarrow> t_priority t' = t_priority t \<Longrightarrow> t_attempts t' = t_attempts t \<Longrightarrow>
      storable t' = storable (t\<lparr>t_state := StatePending\<rparr>) \<Longrightarrow> Q t' s'"
  shows "wp (PrepareForRequeue E t) Q s"
  unfolding PrepareForRequeue_def Retry_def
  by (auto simp: wp_eqs storable_def intro!: Transition_silent now_wp assms)

end

context redis_up
begin

lemma CalculateBackoff_up:
  "U s \<Longrightarrow> (\<And>d s'. U s' \<Longrightarrow> \<alpha> s' = \<alpha> s \<Longrightarrow> Q d s') \<Longrightarrow> wp (CalculateBackoff E p attempt) Q s"
  by (auto simp: CalculateBackoff_def wp_eqs Let_def intro!: rand_up)

lemma NextRetryTime_up:
  "U s \<Longrightarrow> (\<And>d s'. U s' \<Longrightarrow> \<alpha> s' = \<alpha> s \<Longrightarrow> Q d s') \<Longrightarrow> wp (NextRetryTime E p t) Q s"
  by (auto simp: NextRetryTime_def wp_eqs intro!: CalculateBackoff_up now_up)

lemma ScheduleRetry_up:
  assumes "U s" "t_state t = StateFailed" "CanRetry t"
    and "\<And>now retryAt s'. U s' \<Longrightarrow> \<alpha> s' = \<alpha> s \<Longrightarrow>
      Q ((enter_state now StateRetrying t)\<lparr>t_scheduled_at := Some retryAt\<rparr>, None) s'"
  shows "wp (ScheduleRetry E p t) Q s"
  unfolding ScheduleRetry_def Retry_def
  using assms by (auto simp: wp_eqs table intro!: Transition_up NextRetryTime_up)

lemma PrepareForRequeue_up:
  assumes "U s" and "\<And>t' s'. U s' \<Longrightarrow> \<alpha> s' = \<alpha> s \<Longrightarrow> t_state t' = StatePending \<Longrightarrow>
      t_scheduled_at t' = None \<Longrightarrow> t_id t' = t_id t \<Longrightarrow> t_priority t' = t_priority t \<Longrightarrow>
      t_attempts t' = t_attempts t \<Longrightarrow> storable t' = storable (t\<lparr>t_state := StatePending\<rparr>) \<Longrightarrow> Q t' s'"
  shows "wp (PrepareForRequeue E t) Q s"
  unfolding PrepareForRequeue_def Retry_def Transition_def
  using assms by (auto simp: wp_eqs storable_def intro!: now_up)

end

text \<open>
  Recovery prepares any task for another run: whatever its state was, a final one included,
  it leaves pending and without a start time, with identity, priority and attempts kept.
\<close>

theorem PrepareForRequeue_pending:
  assumes "redis E \<alpha>" "run_state (PrepareForRequeue E t) s = (t', s')"
  shows "t_state t' = StatePending \<and> t_scheduled_at t' = None \<and> t_id t' = t_id t \<and>
    t_priority t' = t_priority t \<and> t_attempts t' = t_attempts t \<and> \<alpha> s' = \<alpha> s"
  by (rule wp_runD [OF redis.PrepareForRequeue_wp [OF assms(1)] assms(2)]) simp

theorem PrepareForRequeue_pending_witness:
  "t_state (fst (run_state (PrepareForRequeue mem_env (sample_task ''a'' PriorityLow StateCanceled)) (empty_mem []))) =
     StatePending"
  using PrepareForRequeue_pending [OF mem.redis_axioms run_fstI [OF refl],
      of "sample_task ''a'' PriorityLow StateCanceled" "empty_mem []"] by simp

end
