(* ===== verification/Config.thy ===== *)
theory Config
  imports RetryPolicy
begin

text \<open>
  \<^verbatim>\<open>internal/config/config.go\<close>: the settings and their defaults. \<^verbatim>\<open>viper\<close>, which overlays a
  file and the environment on the defaults, is third-party: \<open>Load\<close> takes what it does as
  an argument.
\<close>

record server_config =
  sv_host :: string
  sv_port :: int
  sv_admin_port :: int
  sv_read_timeout :: int
  sv_write_timeout :: int
  sv_idle_timeout :: int

record redis_config =
  rc_addr :: string
  rc_password :: string
  rc_db :: int
  rc_pool_size :: int
  rc_min_idle_conns :: int
  rc_max_retries :: int
  rc_dial_timeout :: int
  rc_read_timeout :: int
  rc_write_timeout :: int

record worker_config =
  wc_id :: string
  wc_concurrency :: int
  wc_heartbeat_interval :: int
  wc_heartbeat_timeout :: int
  wc_shutdown_timeout :: int

record queue_config =
  qc_stream_prefix :: string
  qc_consumer_group :: string
  qc_max_queue_size :: int
  qc_block_timeout :: int
  qc_claim_min_idle :: int
  qc_recovery_interval :: int
  qc_retry_max_attempts :: int
  qc_retry_initial_backoff :: int
  qc_retry_max_backoff :: int
  qc_retry_backoff_factor :: f64
  qc_retry_jitter_factor :: f64
  qc_task_retention_days :: int
  qc_rate_limit_rps :: int

record metrics_config =
  mc_enabled :: bool
  mc_path :: string

record auth_config =
  ac_enabled :: bool
  ac_jwt_secret :: string
  ac_api_keys :: "string list"

record config =
  cf_server :: server_config
  cf_redis :: redis_config
  cf_worker :: worker_config
  cf_queue :: queue_config
  cf_metrics :: metrics_config
  cf_auth :: auth_config
  cf_log_level :: string

text \<open>\<^verbatim>\<open>setDefaults\<close>, section by section.\<close>

definition default_config :: config where
  "default_config = \<lparr>
     cf_server = \<lparr>sv_host = ''0.0.0.0'', sv_port = 8080, sv_admin_port = 8081,
       sv_read_timeout = 30 * Second, sv_write_timeout = 30 * Second, sv_idle_timeout = 120 * Second\<rparr>,
     cf_redis = \<lparr>rc_addr = ''localhost:6379'', rc_password = '''', rc_db = 0, rc_pool_size = 100,
       rc_min_idle_conns = 10, rc_max_retries = 3, rc_dial_timeout = 5 * Second,
       rc_read_timeout = 3 * Second, rc_write_timeout = 3 * Second\<rparr>,
     cf_worker = \<lparr>wc_id = '''', wc_concurrency = 10, wc_heartbeat_interval = 5 * Second,
       wc_heartbeat_timeout = 15 * Second, wc_shutdown_timeout = 30 * Second\<rparr>,
     cf_queue = \<lparr>qc_stream_prefix = ''tasks'', qc_consumer_group = ''workers'',
       qc_max_queue_size = 1000000, qc_block_timeout = 5 * Second, qc_claim_min_idle = 30 * Second,
       qc_recovery_interval = 10 * Second, qc_retry_max_attempts = 3,
       qc_retry_initial_backoff = 1 * Second, qc_retry_max_backoff = 5 * Minute,
       qc_retry_backoff_factor = Fin 2, qc_retry_jitter_factor = fin (1/10),
       qc_task_retention_days = 7, qc_rate_limit_rps = 1000\<rparr>,
     cf_metrics = \<lparr>mc_enabled = True, mc_path = ''/metrics''\<rparr>,
     cf_auth = \<lparr>ac_enabled = False, ac_jwt_secret = '''', ac_api_keys = []\<rparr>,
     cf_log_level = ''info''\<rparr>"

text \<open>
  \<^verbatim>\<open>Load\<close>: \<open>readFile\<close> stands for \<^verbatim>\<open>viper.ReadInConfig\<close> (\<open>Inl (notFound, e)\<close> is an error,
  ignored when it says that there is no file), \<open>unmarshal\<close> for overlaying the file and the
  environment on the defaults.
\<close>

definition Load :: "(bool \<times> error) + 'f \<Rightarrow> ('f option \<Rightarrow> config \<Rightarrow> config res) \<Rightarrow> config res" where
  "Load readFile unmarshal = (case readFile of
     Inl (notFound, e) \<Rightarrow> if \<not> notFound then Inl e else unmarshal None default_config
   | Inr f \<Rightarrow> unmarshal (Some f) default_config)"

text \<open>The retry policy a worker pool builds from its queue settings.\<close>

definition queue_retry_policy :: "queue_config \<Rightarrow> retry_policy" where
  "queue_retry_policy c = \<lparr>MaxAttempts = qc_retry_max_attempts c,
     InitialBackoff = qc_retry_initial_backoff c, MaxBackoff = qc_retry_max_backoff c,
     BackoffFactor = qc_retry_backoff_factor c, JitterFactor = qc_retry_jitter_factor c\<rparr>"

lemma default_queue_policy: "queue_retry_policy (cf_queue default_config) = DefaultRetryPolicy"
  by (simp add: queue_retry_policy_def default_config_def DefaultRetryPolicy_def)

end
