(* ===== verification/RedisQueue.thy ===== *)
theory RedisQueue
  imports Config
begin

text \<open>
  \<^verbatim>\<open>internal/queue/redis_streams.go\<close>: the priority queue over four Redis streams, with the
  tasks themselves stored under keys of their own.
\<close>

section \<open>The queue and its keys\<close>

record redis_queue =
  streamPrefix :: string
  consumerGroup :: string
  blockTimeout :: int
  claimMinIdle :: int
  taskRetentionDays :: int

text \<open>The order in which every loop over the streams goes.\<close>

definition priorities :: "priority list" where
  "priorities = [PriorityCritical, PriorityHigh, PriorityNormal, PriorityLow]"

definition stream_of :: "redis_queue \<Rightarrow> priority \<Rightarrow> string" where
  "stream_of q p = StreamName p (streamPrefix q)"

definition taskKey :: "string \<Rightarrow> string" where
  "taskKey taskID = ''task:'' @ taskID"

section \<open>Setting up\<close>

fun initStreams_loop :: "'s env \<Rightarrow> redis_queue \<Rightarrow> priority list \<Rightarrow> ('s, error option) io" where
  "initStreams_loop E q [] = ret None"
| "initStreams_loop E q (p # ps) = do {
     let streamName = stream_of q p;
     r \<leftarrow> r_xgroup_create_mkstream E streamName (consumerGroup q) ''0'';
     case r of
       Inl err \<Rightarrow> if error_text err \<noteq> busygroup
         then ret (Some (Wrapf (''failed to create consumer group for '' @ streamName) err))
         else initStreams_loop E q ps
     | Inr _ \<Rightarrow> initStreams_loop E q ps
   }"

definition initStreams :: "'s env \<Rightarrow> redis_queue \<Rightarrow> ('s, error option) io" where
  "initStreams E q = initStreams_loop E q priorities"

definition NewRedisQueue :: "'s env \<Rightarrow> queue_config \<Rightarrow> ('s, redis_queue res) io" where
  "NewRedisQueue E c = do {
     r \<leftarrow> r_ping E;
     case r of
       Inl err \<Rightarrow> ret (Inl (Wrapf ''failed to connect to Redis'' err))
     | Inr _ \<Rightarrow> do {
         let q = \<lparr>streamPrefix = qc_stream_prefix c, consumerGroup = qc_consumer_group c,
           blockTimeout = qc_block_timeout c, claimMinIdle = qc_claim_min_idle c,
           taskRetentionDays = qc_task_retention_days c\<rparr>;
         err \<leftarrow> initStreams E q;
         case err of Some e \<Rightarrow> ret (Inl e) | None \<Rightarrow> ret (Inr q)
       }
   }"

section \<open>Tasks in storage\<close>

definition GetTask :: "'s env \<Rightarrow> string \<Rightarrow> ('s, task res) io" where
  "GetTask E taskID = do {
     r \<leftarrow> r_get E (taskKey taskID);
     case r of
       Inl err \<Rightarrow> if err = RedisNil then ret (Inl ErrTaskNotFound)
         else ret (Inl (Wrapf ''failed to get task'' err))
     | Inr data \<Rightarrow> (case FromJSON data of
           Inl err \<Rightarrow> ret (Inl (Wrapf ''failed to unmarshal task'' err))
         | Inr t \<Rightarrow> ret (Inr t))
   }"

text \<open>\<^verbatim>\<open>return q.client.Set(...).Err()\<close>.\<close>

fun err_of :: "'a res \<Rightarrow> error option" where
  "err_of (Inl e) = Some e"
| "err_of (Inr _) = None"

definition GetRetentionTTL :: "redis_queue \<Rightarrow> int" where
  "GetRetentionTTL q = (if taskRetentionDays q \<le> 0 then 0
     else wrap64 (wrap64 (taskRetentionDays q * 24) * Hour))"

definition UpdateTask :: "'s env \<Rightarrow> redis_queue \<Rightarrow> task \<Rightarrow> ('s, error option) io" where
  "UpdateTask E q t = (case ToJSON t of
     Inl err \<Rightarrow> ret (Some (Wrapf ''failed to marshal task'' err))
   | Inr data \<Rightarrow>
       if IsFinal (t_state t) \<and> taskRetentionDays q > 0 then do {
         let ttl = wrap64 (wrap64 (taskRetentionDays q * 24) * Hour);
         r \<leftarrow> r_set E (taskKey (t_id t)) data ttl;
         ret (err_of r)
       } else do {
         r \<leftarrow> r_set E (taskKey (t_id t)) data 0;
         ret (err_of r)
       })"

definition UpdateTaskWithTTL :: "'s env \<Rightarrow> task \<Rightarrow> int \<Rightarrow> ('s, error option) io" where
  "UpdateTaskWithTTL E t ttl = (case ToJSON t of
     Inl err \<Rightarrow> ret (Some (Wrapf ''failed to marshal task'' err))
   | Inr data \<Rightarrow> do {
       r \<leftarrow> r_set E (taskKey (t_id t)) data ttl;
       ret (err_of r)
     })"

definition DeleteTask :: "'s env \<Rightarrow> string \<Rightarrow> ('s, error option) io" where
  "DeleteTask E taskID = do { r \<leftarrow> r_del E [taskKey taskID]; ret (err_of r) }"

definition Queue_RemoveScheduledTask :: "'s env \<Rightarrow> string \<Rightarrow> ('s, error option) io" where
  "Queue_RemoveScheduledTask E taskID = do {
     r \<leftarrow> r_zrem E ''tasks:scheduled'' taskID;
     ret (err_of r)
   }"

section \<open>Enqueue, dequeue, acknowledge\<close>

definition task_ref :: "task \<Rightarrow> (string \<times> gval) list" where
  "task_ref t = [(''task_id'', GStr (t_id t)), (''type'', GStr (t_type t))]"

definition Enqueue :: "'s env \<Rightarrow> redis_queue \<Rightarrow> task \<Rightarrow> ('s, error option) io" where
  "Enqueue E q t = do {
     let streamName = stream_of q (t_priority t);
     case ToJSON t of
       Inl err \<Rightarrow> ret (Some (Wrapf ''failed to marshal task'' err))
     | Inr taskData \<Rightarrow> do {
         r \<leftarrow> r_set E (taskKey (t_id t)) taskData 0;
         case r of
           Inl err \<Rightarrow> ret (Some (Wrapf ''failed to store task data'' err))
         | Inr _ \<Rightarrow> do {
             r \<leftarrow> r_xadd E streamName (task_ref t);
             case r of
               Inl err \<Rightarrow> do {
                 _ \<leftarrow> r_del E [taskKey (t_id t)];
                 ret (Some (Wrapf ''failed to add task to stream'' err))
               }
             | Inr _ \<Rightarrow> ret None
           }
       }
   }"

text \<open>
  The results are Go's \<^verbatim>\<open>(*Task, string, error)\<close>: an error, nothing, or a task with the ID
  of its message.
\<close>

fun Dequeue_loop :: "'s env \<Rightarrow> redis_queue \<Rightarrow> string \<Rightarrow> priority list \<Rightarrow>
    ('s, (task \<times> string) option res) io" where
  "Dequeue_loop E q consumerID [] = ret (Inr None)"
| "Dequeue_loop E q consumerID (p # ps) = do {
     let streamName = stream_of q p;
     r \<leftarrow> r_xreadgroup E (consumerGroup q) consumerID [streamName] 1 0;
     case r of
       Inl err \<Rightarrow> if err = RedisNil then Dequeue_loop E q consumerID ps
         else ret (Inl (Wrapf (''failed to read from stream '' @ streamName) err))
     | Inr streams \<Rightarrow> (case streams of
           [] \<Rightarrow> Dequeue_loop E q consumerID ps
         | (_, msgs) # _ \<Rightarrow> (case msgs of
               [] \<Rightarrow> Dequeue_loop E q consumerID ps
             | msg # _ \<Rightarrow> (case as_string (field (m_values msg) ''task_id'') of
                   None \<Rightarrow> do {
                     _ \<leftarrow> r_xack E streamName (consumerGroup q) (m_id msg);
                     Dequeue_loop E q consumerID ps
                   }
                 | Some taskID \<Rightarrow> do {
                     r \<leftarrow> GetTask E taskID;
                     case r of
                       Inl _ \<Rightarrow> do {
                         _ \<leftarrow> r_xack E streamName (consumerGroup q) (m_id msg);
                         Dequeue_loop E q consumerID ps
                       }
                     | Inr t \<Rightarrow> ret (Inr (Some (t, m_id msg)))
                   })))
   }"

definition Dequeue :: "'s env \<Rightarrow> redis_queue \<Rightarrow> string \<Rightarrow> ('s, (task \<times> string) option res) io" where
  "Dequeue E q consumerID = Dequeue_loop E q consumerID priorities"

definition DequeueBlocking :: "'s env \<Rightarrow> redis_queue \<Rightarrow> string \<Rightarrow> ('s, (task \<times> string) option res) io" where
  "DequeueBlocking E q consumerID = do {
     let streams = map (stream_of q) priorities;
     r \<leftarrow> r_xreadgroup E (consumerGroup q) consumerID streams 1 (blockTimeout q);
     case r of
       Inl err \<Rightarrow> if err = RedisNil then ret (Inr None)
         else ret (Inl (Wrapf ''failed to read from streams'' err))
     | Inr result \<Rightarrow> (case result of
           [] \<Rightarrow> ret (Inr None)
         | (streamName, msgs) # _ \<Rightarrow> (case msgs of
               [] \<Rightarrow> ret (Inr None)
             | msg # _ \<Rightarrow> (case as_string (field (m_values msg) ''task_id'') of
                   None \<Rightarrow> do {
                     _ \<leftarrow> r_xack E streamName (consumerGroup q) (m_id msg);
                     ret (Inr None)
                   }
                 | Some taskID \<Rightarrow> do {
                     r \<leftarrow> GetTask E taskID;
                     case r of
                       Inl _ \<Rightarrow> do {
                         _ \<leftarrow> r_xack E streamName (consumerGroup q) (m_id msg);
                         ret (Inr None)
                       }
                     | Inr t \<Rightarrow> ret (Inr (Some (t, m_id msg)))
                   })))
   }"

definition Acknowledge :: "'s env \<Rightarrow> redis_queue \<Rightarrow> task \<Rightarrow> string \<Rightarrow> ('s, error option) io" where
  "Acknowledge E q t messageID = do {
     r \<leftarrow> r_xack E (stream_of q (t_priority t)) (consumerGroup q) messageID;
     ret (err_of r)
   }"

section \<open>Inspection\<close>

record priority_stats =
  ps_queued :: int
  ps_pending_unacked :: int

record queue_stats =
  qs_queues :: "(string \<times> priority_stats) list"
  qs_scheduled_count :: int
  qs_dlq_size :: int
  qs_total_queued :: int
  qs_total_pending_unacked :: int
  qs_total_deferred :: int

text \<open>The pending count of the queue's own group, 0 when it is not among the groups.\<close>

definition group_pending :: "string \<Rightarrow> (string \<times> int) list \<Rightarrow> int option" where
  "group_pending g groups = map_of groups g"

fun GetQueueStats_loop :: "'s env \<Rightarrow> redis_queue \<Rightarrow> priority list \<Rightarrow> queue_stats \<Rightarrow> ('s, queue_stats) io" where
  "GetQueueStats_loop E q [] stats = ret stats"
| "GetQueueStats_loop E q (p # ps) stats = do {
     let streamName = stream_of q p;
     len \<leftarrow> r_xlen E streamName;
     let queued = (case len of Inl _ \<Rightarrow> 0 | Inr n \<Rightarrow> n);
     groups \<leftarrow> r_xinfo_groups E streamName;
     let unacked = (case groups of Inl _ \<Rightarrow> 0 | Inr gs \<Rightarrow>
       (case group_pending (consumerGroup q) gs of None \<Rightarrow> 0 | Some n \<Rightarrow> n));
     GetQueueStats_loop E q ps (stats\<lparr>
       qs_queues := qs_queues stats @
         [(Priority_String p, \<lparr>ps_queued = queued, ps_pending_unacked = unacked\<rparr>)],
       qs_total_queued := qs_total_queued stats + queued,
       qs_total_pending_unacked := qs_total_pending_unacked stats + unacked\<rparr>)
   }"

definition GetQueueStats :: "'s env \<Rightarrow> redis_queue \<Rightarrow> ('s, queue_stats) io" where
  "GetQueueStats E q = do {
     stats \<leftarrow> GetQueueStats_loop E q priorities \<lparr>qs_queues = [], qs_scheduled_count = 0,
       qs_dlq_size = 0, qs_total_queued = 0, qs_total_pending_unacked = 0, qs_total_deferred = 0\<rparr>;
     scheduled \<leftarrow> r_zcard E ''tasks:scheduled'';
     let stats = (case scheduled of Inl _ \<Rightarrow> stats | Inr n \<Rightarrow> stats\<lparr>qs_scheduled_count := n\<rparr>);
     ret (stats\<lparr>qs_total_deferred := qs_scheduled_count stats\<rparr>)
   }"

fun GetQueueDepth_loop :: "'s env \<Rightarrow> redis_queue \<Rightarrow> priority list \<Rightarrow> (priority \<times> int) list \<Rightarrow>
    ('s, (priority \<times> int) list) io" where
  "GetQueueDepth_loop E q [] depths = ret depths"
| "GetQueueDepth_loop E q (p # ps) depths = do {
     info \<leftarrow> r_xinfo_groups E (stream_of q p);
     case info of
       Inl _ \<Rightarrow> GetQueueDepth_loop E q ps depths
     | Inr groups \<Rightarrow> (case group_pending (consumerGroup q) groups of
           None \<Rightarrow> GetQueueDepth_loop E q ps depths
         | Some n \<Rightarrow> GetQueueDepth_loop E q ps (depths @ [(p, n)]))
   }"

definition GetQueueDepth :: "'s env \<Rightarrow> redis_queue \<Rightarrow> ('s, (priority \<times> int) list) io" where
  "GetQueueDepth E q = GetQueueDepth_loop E q priorities []"

section \<open>Orphans\<close>

text \<open>One pending message: its task when it could be claimed and read.\<close>

definition claim_one :: "'s env \<Rightarrow> redis_queue \<Rightarrow> string \<Rightarrow> string \<Rightarrow> pending \<Rightarrow>
    ('s, (task \<times> string) option) io" where
  "claim_one E q consumerID streamName p =
     (if p_idle p < claimMinIdle q then ret None
      else do {
        claimed \<leftarrow> r_xclaim E streamName (consumerGroup q) consumerID (claimMinIdle q) (p_id p);
        case claimed of
          Inl _ \<Rightarrow> ret None
        | Inr msgs \<Rightarrow> (case msgs of
              [] \<Rightarrow> ret None
            | msg # _ \<Rightarrow> (case as_string (field (m_values msg) ''task_id'') of
                  None \<Rightarrow> ret None
                | Some taskID \<Rightarrow> do {
                    r \<leftarrow> GetTask E taskID;
                    case r of Inl _ \<Rightarrow> ret None | Inr t \<Rightarrow> ret (Some (t, m_id msg))
                  }))
      })"

fun claim_loop :: "'s env \<Rightarrow> redis_queue \<Rightarrow> string \<Rightarrow> string \<Rightarrow> pending list \<Rightarrow>
    ('s, (task \<times> string) list) io" where
  "claim_loop E q consumerID streamName [] = ret []"
| "claim_loop E q consumerID streamName (p # ps) = do {
     r \<leftarrow> claim_one E q consumerID streamName p;
     rest \<leftarrow> claim_loop E q consumerID streamName ps;
     ret (case r of None \<Rightarrow> rest | Some x \<Rightarrow> x # rest)
   }"

fun ClaimOrphanedTasks_loop :: "'s env \<Rightarrow> redis_queue \<Rightarrow> string \<Rightarrow> priority list \<Rightarrow>
    ('s, (task \<times> string) list) io" where
  "ClaimOrphanedTasks_loop E q consumerID [] = ret []"
| "ClaimOrphanedTasks_loop E q consumerID (p # ps) = do {
     let streamName = stream_of q p;
     pending \<leftarrow> r_xpending E streamName (consumerGroup q) 100;
     case pending of
       Inl _ \<Rightarrow> ClaimOrphanedTasks_loop E q consumerID ps
     | Inr entries \<Rightarrow> do {
         here \<leftarrow> claim_loop E q consumerID streamName entries;
         rest \<leftarrow> ClaimOrphanedTasks_loop E q consumerID ps;
         ret (here @ rest)
       }
   }"

text \<open>The error result of the code is always nil.\<close>

definition ClaimOrphanedTasks :: "'s env \<Rightarrow> redis_queue \<Rightarrow> string \<Rightarrow> ('s, (task \<times> string) list) io" where
  "ClaimOrphanedTasks E q consumerID = ClaimOrphanedTasks_loop E q consumerID priorities"

section \<open>What the operations do\<close>

text \<open>Views that agree but for some keys.\<close>

definition same_but :: "string set \<Rightarrow> view \<Rightarrow> view \<Rightarrow> bool" where
  "same_but K v w \<longleftrightarrow> (\<forall>k. k \<notin> K \<longrightarrow> w k = v k)"

lemma same_but_refl [simp, intro]: "same_but K v v"
  by (simp add: same_but_def)

lemma same_but_trans: "same_but K u v \<Longrightarrow> same_but K v w \<Longrightarrow> same_but K u w"
  by (simp add: same_but_def)

lemma same_but_upd [simp]: "k \<in> K \<Longrightarrow> same_but K v (w(k := x)) \<longleftrightarrow> same_but K v w"
  by (auto simp: same_but_def)

lemma same_but_del [simp]: "set ks \<subseteq> K \<Longrightarrow> same_but K v (del_keys ks w) \<longleftrightarrow> same_but K v w"
  by (auto simp: same_but_def del_keys_def)

text \<open>A task put into storage with an expiry, and a reference to it put at the end of a stream.\<close>

definition put_task :: "task \<Rightarrow> int \<Rightarrow> view \<Rightarrow> view" where
  "put_task t ttl v = v(taskKey (t_id t) \<mapsto> RStr (task_doc t) ttl)"

definition push_ref :: "string \<Rightarrow> string \<Rightarrow> task \<Rightarrow> view \<Rightarrow> view" where
  "push_ref k i t v = v(k \<mapsto> RStream (strm_add \<lparr>m_id = i, m_values = task_ref t\<rparr> (strm_at v k)))"

definition ack_msg :: "string \<Rightarrow> string \<Rightarrow> string \<Rightarrow> view \<Rightarrow> view" where
  "ack_msg k grp i v = (if v k = None then v else v(k \<mapsto> RStream (strm_ack grp i (strm_at v k))))"

text \<open>The task stored under an ID, when there is one that can be read.\<close>

definition task_at :: "view \<Rightarrow> string \<Rightarrow> task option" where
  "task_at v i = (case str_at v (taskKey i) of None \<Rightarrow> None
     | Some d \<Rightarrow> (case FromJSON d of Inl _ \<Rightarrow> None | Inr t \<Rightarrow> Some t))"

lemma taskKey_inj [simp]: "taskKey i = taskKey j \<longleftrightarrow> i = j"
  by (simp add: taskKey_def)

lemma task_at_put [simp]:
  "storable t \<Longrightarrow> task_at (put_task t ttl v) i = (if i = t_id t then Some (stored t) else task_at v i)"
  by (simp add: task_at_def put_task_def FromJSON_ToJSON)

lemma task_at_cong: "v (taskKey i) = w (taskKey i) \<Longrightarrow> task_at v i = task_at w i"
  by (simp add: task_at_def str_at_def)

text \<open>What \<^verbatim>\<open>UpdateTask\<close> sets as expiry.\<close>

definition update_ttl :: "redis_queue \<Rightarrow> task \<Rightarrow> int" where
  "update_ttl q t = (if IsFinal (t_state t) then GetRetentionTTL q else 0)"

lemma UpdateTask_alt:
  "UpdateTask E q t = (case ToJSON t of
     Inl err \<Rightarrow> ret (Some (Wrapf ''failed to marshal task'' err))
   | Inr data \<Rightarrow> do { r \<leftarrow> r_set E (taskKey (t_id t)) data (update_ttl q t); ret (err_of r) })"
  by (simp add: UpdateTask_def update_ttl_def GetRetentionTTL_def not_less split: sum.splits
      del: IsFinal.simps)

text \<open>
  What a failed enqueue can have changed: the task's key \<open>k\<close> and the stream \<open>sk\<close>, but no pending
  reference.
\<close>

definition enq_frame :: "string \<Rightarrow> string \<Rightarrow> view \<Rightarrow> view \<Rightarrow> bool" where
  "enq_frame k sk v w \<longleftrightarrow> same_but {k, sk} v w \<and>
     (k \<noteq> sk \<longrightarrow> (\<forall>g. strm_pel (strm_at w sk) g = strm_pel (strm_at v sk) g))"

lemma enq_frame_intros:
  "enq_frame k sk v v"
  "enq_frame k sk v w \<Longrightarrow> enq_frame k sk v (w(k := x))"
  "enq_frame k sk v w \<Longrightarrow> enq_frame k sk v (w(sk \<mapsto> RStream (strm_add m (strm_at w sk))))"
  "enq_frame k sk v w \<Longrightarrow> enq_frame k sk v (del_keys [k] w)"
  by (auto simp: enq_frame_def strm_at_def del_keys_def same_but_def)

lemma ToJSON_cases: "ToJSON t = Inr d \<Longrightarrow> d = task_doc t"
  by (simp add: ToJSON_def split: if_splits)

context redis
begin

lemma UpdateTask_wp:
  assumes "\<And>s'. ToJSON t = Inr (task_doc t) \<Longrightarrow> \<alpha> s' = put_task t (update_ttl q t) (\<alpha> s) \<Longrightarrow> Q None s'"
    and "\<And>e s'. \<alpha> s' = \<alpha> s \<or> \<alpha> s' = put_task t (update_ttl q t) (\<alpha> s) \<Longrightarrow> Q (Some e) s'"
  shows "wp (UpdateTask E q t) Q s"
proof (cases "ToJSON t")
  case (Inr d)
  then have [simp]: "d = task_doc t" by (rule ToJSON_cases)
  show ?thesis unfolding UpdateTask_alt Inr
    using Inr by (auto simp: wp_eqs put_task_def intro!: set_wp assms)
qed (simp add: UpdateTask_alt wp_eqs assms(2))

lemma GetTask_wp:
  assumes "\<And>t s'. \<alpha> s' = \<alpha> s \<Longrightarrow> task_at (\<alpha> s) i = Some t \<Longrightarrow> Q (Inr t) s'"
    and "\<And>e s'. \<alpha> s' = \<alpha> s \<Longrightarrow> (e = ErrTaskNotFound \<Longrightarrow> (\<alpha> s) (taskKey i) = None) \<Longrightarrow> Q (Inl e) s'"
  shows "wp (GetTask E i) Q s"
  unfolding GetTask_def wp_bind
  by (rule get_wp) (auto simp: wp_eqs task_at_def intro!: assms split: sum.splits)

lemma Acknowledge_wp:
  assumes "\<And>r s'. \<alpha> s' = ack_msg (stream_of q (t_priority t)) (consumerGroup q) i (\<alpha> s) \<Longrightarrow> Q r s'"
    and "\<And>e s'. \<alpha> s' = \<alpha> s \<Longrightarrow> Q (Some e) s'"
  shows "wp (Acknowledge E q t i) Q s"
  unfolding Acknowledge_def wp_bind
  by (rule xack_wp) (auto simp: wp_eqs ack_msg_def intro: assms)

lemma Enqueue_wp:
  assumes "\<And>i s'. ToJSON t = Inr (task_doc t) \<Longrightarrow> strm_ok (\<alpha> s) (stream_of q (t_priority t)) \<Longrightarrow>
        i \<notin> List.set (strm_ids (strm_at (\<alpha> s) (stream_of q (t_priority t)))) \<Longrightarrow>
        taskKey (t_id t) \<noteq> stream_of q (t_priority t) \<Longrightarrow>
        \<alpha> s' = push_ref (stream_of q (t_priority t)) i t (put_task t 0 (\<alpha> s)) \<Longrightarrow> Q None s'"
    and "\<And>e s'. enq_frame (taskKey (t_id t)) (stream_of q (t_priority t)) (\<alpha> s) (\<alpha> s') \<Longrightarrow> Q (Some e) s'"
  shows "wp (Enqueue E q t) Q s"
proof (cases "ToJSON t")
  case (Inl e)
  then show ?thesis by (simp add: Enqueue_def wp_eqs assms(2) enq_frame_intros)
next
  case (Inr d)
  let ?k = "taskKey (t_id t)" and ?sk = "stream_of q (t_priority t)"
  have d: "d = task_doc t" using ToJSON_cases [OF Inr] .
  have cleanup: "wp (r_del E [?k]) (\<lambda>_. wp (ret (Some e)) Q) s'"
    if "enq_frame ?k ?sk (\<alpha> s) (\<alpha> s')" for e s'
    using that by (intro del_wp) (auto simp: wp_eqs intro!: assms(2) enq_frame_intros)
  have push: "wp (r_xadd E ?sk (task_ref t)) (\<lambda>r. wp (case r of
        Inl err \<Rightarrow> do { _ \<leftarrow> r_del E [?k]; ret (Some (Wrapf ''failed to add task to stream'' err)) }
      | Inr _ \<Rightarrow> ret None) Q) s1"
    if s1: "\<alpha> s1 = (\<alpha> s)(?k \<mapsto> RStr d 0)" for s1
  proof (rule xadd_wp, goal_cases)
    case (1 i s')
    have "?k \<noteq> ?sk" using 1 s1 by (auto simp: strm_ok_def)
    then show ?case using 1 s1
      by (auto simp: wp_eqs d push_ref_def put_task_def strm_ok_def Inr intro!: assms(1))
  next
    case (2 e s')
    have "enq_frame ?k ?sk (\<alpha> s) (\<alpha> s1)" unfolding s1 by (intro enq_frame_intros)
    then have "enq_frame ?k ?sk (\<alpha> s) (\<alpha> s')" using 2 enq_frame_intros(3) by auto
    then show ?case using cleanup by (simp add: wp_case_sum wp_bind)
  qed
  show ?thesis unfolding Enqueue_def Let_def wp_bind
    by (auto simp: Inr wp_eqs simp del: wp_case_sum intro!: set_wp push assms(2) enq_frame_intros)
qed

end

section \<open>Taking a task\<close>

text \<open>The references a priority has not handed out yet, and the first priority that has some.\<close>

definition next_refs :: "redis_queue \<Rightarrow> view \<Rightarrow> priority \<Rightarrow> message list" where
  "next_refs q v p = strm_new (strm_at v (stream_of q p)) (consumerGroup q)"

definition first_ready :: "redis_queue \<Rightarrow> view \<Rightarrow> priority option" where
  "first_ready q v = find (\<lambda>p. next_refs q v p \<noteq> []) priorities"

text \<open>The references handed out and not yet acknowledged.\<close>

definition pending_refs :: "redis_queue \<Rightarrow> view \<Rightarrow> priority \<Rightarrow> pending list" where
  "pending_refs q v p = strm_pel (strm_at v (stream_of q p)) (consumerGroup q)"

text \<open>The effect of the read: every stream with a new reference hands out its first.\<close>

definition deliver_heads :: "redis_queue \<Rightarrow> string \<Rightarrow> view \<Rightarrow> view" where
  "deliver_heads q c v = deliver_all (consumerGroup q) c (map (stream_of q) priorities) 1 v"

definition ref_id :: "message \<Rightarrow> string option" where
  "ref_id msg = as_string (field (m_values msg) ''task_id'')"

lemma ref_id_task_ref [simp]: "ref_id \<lparr>m_id = i, m_values = task_ref t\<rparr> = Some (t_id t)"
  by (simp add: ref_id_def task_ref_def field_Cons)

lemma deliveries_Cons:
  "deliveries g (k # ks) 1 v = (if strm_new (strm_at v k) g = [] then deliveries g ks 1 v
     else (k, [hd (strm_new (strm_at v k) g)]) # deliveries g ks 1 v)"
  by (cases "strm_new (strm_at v k) g") (simp_all add: deliveries_def)

lemma deliveries_find:
  "find (\<lambda>p. strm_new (strm_at v (f p)) g \<noteq> []) ps = None \<Longrightarrow> deliveries g (map f ps) 1 v = []"
  "find (\<lambda>p. strm_new (strm_at v (f p)) g \<noteq> []) ps = Some p \<Longrightarrow>
     \<exists>rest. deliveries g (map f ps) 1 v = (f p, [hd (strm_new (strm_at v (f p)) g)]) # rest"
  by (induction ps) (auto simp: deliveries_Cons deliveries_def [of _ "[]"] simp del: One_nat_def
      split: if_splits)

lemma deliveries_first_ready:
  "first_ready q v = None \<Longrightarrow> deliveries (consumerGroup q) (map (stream_of q) priorities) 1 v = []"
  "first_ready q v = Some p \<Longrightarrow> \<exists>rest. deliveries (consumerGroup q) (map (stream_of q) priorities) 1 v =
     (stream_of q p, [hd (next_refs q v p)]) # rest"
  unfolding first_ready_def next_refs_def by (rule deliveries_find, assumption)+

lemma strm_new_is_stream: "strm_new (strm_at v k) g \<noteq> [] \<Longrightarrow> \<exists>x. v k = Some (RStream x)"
  by (auto simp: strm_at_def strm_new_def empty_strm_def group_at_def
      split: option.splits robj.splits)

lemma str_at_deliver_all [simp]: "str_at (deliver_all g c ks n v) k = str_at v k"
  using strm_new_is_stream [of v k g] by (auto simp: deliver_all_def str_at_def)

lemma task_at_deliver_heads [simp]: "task_at (deliver_heads q c v) i = task_at v i"
  by (simp add: task_at_def deliver_heads_def)

lemma first_readyD: "first_ready q v = Some p \<Longrightarrow> next_refs q v p \<noteq> [] \<and> p \<in> set priorities"
  by (auto simp: first_ready_def find_Some_iff)

context redis
begin

lemma DequeueBlocking_wp:
  assumes none: "\<And>s'. \<alpha> s' = \<alpha> s \<Longrightarrow> first_ready q (\<alpha> s) = None \<Longrightarrow> Q (Inr None) s'"
    and err: "\<And>e s'. \<alpha> s' = \<alpha> s \<or> \<alpha> s' = deliver_heads q c (\<alpha> s) \<Longrightarrow> Q (Inl e) s'"
    and lost: "\<And>p s'. first_ready q (\<alpha> s) = Some p \<Longrightarrow>
        \<alpha> s' = deliver_heads q c (\<alpha> s) \<or>
        \<alpha> s' = ack_msg (stream_of q p) (consumerGroup q) (m_id (hd (next_refs q (\<alpha> s) p)))
                 (deliver_heads q c (\<alpha> s)) \<Longrightarrow> Q (Inr None) s'"
    and got: "\<And>p i t s'. first_ready q (\<alpha> s) = Some p \<Longrightarrow>
        ref_id (hd (next_refs q (\<alpha> s) p)) = Some i \<Longrightarrow> task_at (\<alpha> s) i = Some t \<Longrightarrow>
        \<alpha> s' = deliver_heads q c (\<alpha> s) \<Longrightarrow> Q (Inr (Some (t, m_id (hd (next_refs q (\<alpha> s) p))))) s'"
  shows "wp (DequeueBlocking E q c) Q s"
  unfolding DequeueBlocking_def Let_def wp_bind
proof (rule xreadgroup_wp, goal_cases)
  case (1 r s')
  then obtain p where p: "first_ready q (\<alpha> s) = Some p"
    using deliveries_first_ready(1) [of q "\<alpha> s"] by (cases "first_ready q (\<alpha> s)") auto
  let ?m = "hd (next_refs q (\<alpha> s) p)"
  obtain rest where r: "r = (stream_of q p, [?m]) # rest"
    using 1 deliveries_first_ready(2) [OF p] by blast
  have s': "\<alpha> s' = deliver_heads q c (\<alpha> s)" using 1 by (simp add: deliver_heads_def)
  have drop: "wp (r_xack E (stream_of q p) (consumerGroup q) (m_id ?m)) (\<lambda>_. wp (ret (Inr None)) Q) u"
    if "\<alpha> u = deliver_heads q c (\<alpha> s)" for u
    using that by (intro xack_wp) (auto simp: wp_eqs ack_msg_def intro!: lost [OF p] split: if_splits)
  show ?case
  proof (cases "ref_id ?m")
    case None
    then show ?thesis unfolding r by (simp add: wp_case_option wp_bind ref_id_def drop [OF s'])
  next
    case (Some i)
    have "wp (GetTask E i) (\<lambda>x. wp (case x of
          Inl _ \<Rightarrow> do { _ \<leftarrow> r_xack E (stream_of q p) (consumerGroup q) (m_id ?m); ret (Inr None) }
        | Inr t \<Rightarrow> ret (Inr (Some (t, m_id ?m)))) Q) s'"
    proof (rule GetTask_wp, goal_cases)
      case (1 t u)
      then show ?case using s' got [OF p Some, of t u] by (simp add: wp_eqs)
    next
      case (2 e u)
      then show ?case using drop [of u] s' by (simp add: wp_bind)
    qed
    then show ?thesis using Some unfolding r by (simp add: wp_bind ref_id_def)
  qed
next
  case (2 s')
  then have "first_ready q (\<alpha> s) = None"
    using deliveries_first_ready(2) [of q "\<alpha> s"] by (cases "first_ready q (\<alpha> s)") fastforce+
  then show ?case using 2 by (simp add: wp_eqs none)
next
  case (3 e s')
  then show ?case by (auto simp: wp_eqs deliver_heads_def intro!: err)
qed

end

section \<open>Claiming orphans\<close>

text \<open>
  A claim moves pending references to another consumer; it neither adds nor removes any, and
  it touches no task.
\<close>

definition refs_kept :: "redis_queue \<Rightarrow> view \<Rightarrow> view \<Rightarrow> bool" where
  "refs_kept q v w \<longleftrightarrow> (\<forall>i. task_at w i = task_at v i) \<and>
     (\<forall>p. map p_id (pending_refs q w p) = map p_id (pending_refs q v p) \<and>
          next_refs q w p = next_refs q v p)"

text \<open>A task with the message that was pending for it, long enough to count as orphaned.\<close>

definition orphan :: "redis_queue \<Rightarrow> view \<Rightarrow> task \<times> string \<Rightarrow> bool" where
  "orphan q v x = (\<exists>p \<in> set priorities. \<exists>e \<in> set (pending_refs q v p).
     p_id e = snd x \<and> claimMinIdle q \<le> p_idle e \<and> (\<exists>i. task_at v i = Some (fst x)))"

lemma refs_kept_refl [simp]: "refs_kept q v v"
  by (simp add: refs_kept_def)

lemma refs_kept_trans: "refs_kept q u v \<Longrightarrow> refs_kept q v w \<Longrightarrow> refs_kept q u w"
  by (simp add: refs_kept_def)

lemma strm_pel_is_stream: "strm_pel (strm_at v k) g \<noteq> [] \<Longrightarrow> \<exists>x. v k = Some (RStream x)"
  by (auto simp: strm_at_def strm_pel_def empty_strm_def group_at_def
      split: option.splits robj.splits)

lemma str_at_stream: "v k = Some (RStream x) \<Longrightarrow> str_at v k = None"
  by (simp add: str_at_def)

lemma refs_kept_claim:
  assumes "claimable (strm_at v k) (consumerGroup q) idle i"
  shows "refs_kept q v (v(k \<mapsto> RStream (strm_claim (consumerGroup q) c i (strm_at v k))))"
proof -
  have "strm_pel (strm_at v k) (consumerGroup q) \<noteq> []"
    using assms by (auto simp: claimable_def)
  then obtain x where "v k = Some (RStream x)" using strm_pel_is_stream by blast
  then show ?thesis
    by (auto simp: refs_kept_def task_at_def pending_refs_def next_refs_def str_at_stream)
qed

lemma stream_of_inj: "p \<in> set priorities \<Longrightarrow> p' \<in> set priorities \<Longrightarrow>
    stream_of q p = stream_of q p' \<longleftrightarrow> p = p'"
  by (auto simp: stream_of_def priorities_def StreamName_def)

lemma distinct_priorities: "distinct priorities"
  by (simp add: priorities_def)

lemma pending_refs_cong: "w (stream_of q p) = v (stream_of q p) \<Longrightarrow> pending_refs q w p = pending_refs q v p"
  by (simp add: pending_refs_def strm_at_def)

context redis
begin

text \<open>What one step of the claim loops ensures, seen from the view at the start.\<close>

definition claim_post :: "redis_queue \<Rightarrow> string \<Rightarrow> 's \<Rightarrow> view \<Rightarrow> (task \<times> string) list \<Rightarrow> 's \<Rightarrow> bool" where
  "claim_post q k s v xs s' \<longleftrightarrow> refs_kept q v (\<alpha> s') \<and> same_but {k} (\<alpha> s) (\<alpha> s') \<and> (\<forall>x \<in> List.set xs. orphan q v x)"

lemma claim_one_wp:
  assumes e: "p \<in> List.set priorities" "e \<in> List.set (pending_refs q v p)" and v: "refs_kept q v (\<alpha> s)"
  shows "wp (claim_one E q c (stream_of q p) e)
    (\<lambda>r s'. claim_post q (stream_of q p) s v (case r of None \<Rightarrow> [] | Some x \<Rightarrow> [x]) s') s"
proof (cases "p_idle e < claimMinIdle q")
  case True
  then show ?thesis using v by (simp add: claim_one_def wp_eqs claim_post_def)
next
  case idle: False
  let ?k = "stream_of q p" and ?g = "consumerGroup q"
  let ?post = "\<lambda>r s'. claim_post q ?k s v (case r of None \<Rightarrow> [] | Some x \<Rightarrow> [x]) s'"
  have none: "?post None u" if "\<alpha> u = \<alpha> s \<or> \<alpha> u = (\<alpha> s)(?k \<mapsto> RStream (strm_claim ?g c (p_id e) (strm_at (\<alpha> s) ?k))) \<and>
      claimable (strm_at (\<alpha> s) ?k) ?g (claimMinIdle q) (p_id e)" for u
    using that v refs_kept_trans [OF v refs_kept_claim] by (auto simp: claim_post_def)
  show ?thesis
    unfolding claim_one_def using idle
  proof (simp only: if_False wp_bind, intro xclaim_wp, goal_cases)
    case (1 ms u)
    show ?case
    proof (cases "claimable (strm_at (\<alpha> s) ?k) ?g (claimMinIdle q) (p_id e)")
      case True
      then have u: "\<alpha> u = (\<alpha> s)(?k \<mapsto> RStream (strm_claim ?g c (p_id e) (strm_at (\<alpha> s) ?k)))"
        and ms: "ms = strm_find (strm_at (\<alpha> s) ?k) (p_id e)" using 1 by auto
      have keep: "refs_kept q v (\<alpha> u)" unfolding u by (rule refs_kept_trans [OF v refs_kept_claim [OF True]])
      have post: "?post (Some (t, p_id e)) u'" if "\<alpha> u' = \<alpha> u" "task_at (\<alpha> u) i = Some t" for u' i t
      proof -
        have "task_at v i = Some t" using that keep by (simp add: refs_kept_def)
        then show ?thesis using that keep e idle u
          by (auto simp: claim_post_def orphan_def not_less)
      qed
      have nil: "?post None u'" if "\<alpha> u' = \<alpha> u" for u'
        using that u True by (intro none) simp
      show ?thesis
      proof (cases ms)
        case Nil
        then show ?thesis using nil by (simp add: wp_eqs)
      next
        case (Cons m rest)
        then have "m \<in> List.set (strm_find (strm_at (\<alpha> s) ?k) (p_id e))" using ms by simp
        then have "m_id m = p_id e" by (simp add: strm_find_def)
        then show ?thesis using Cons nil post
          by (auto simp: wp_case_sum wp_case_option wp_bind wp_return
              split: option.splits intro!: GetTask_wp)
      qed
    next
      case False
      then show ?thesis using 1 none by (simp add: wp_eqs)
    qed
  next
    case (2 err u)
    then show ?case using none by (auto simp: wp_eqs split: if_splits)
  qed
qed

lemma claim_loop_wp:
  assumes "p \<in> List.set priorities" "List.set es \<subseteq> List.set (pending_refs q v p)" "refs_kept q v (\<alpha> s)"
  shows "wp (claim_loop E q c (stream_of q p) es) (\<lambda>xs s'. claim_post q (stream_of q p) s v xs s') s"
  using assms(2,3)
proof (induction es arbitrary: s)
  case Nil
  then show ?case by (simp add: wp_eqs claim_post_def)
next
  case (Cons e es)
  show ?case unfolding claim_loop.simps wp_bind
  proof (rule wp_mono [OF claim_one_wp [OF assms(1), of e q v]], goal_cases)
    case (3 r s1)
    then have "refs_kept q v (\<alpha> s1)" by (simp add: claim_post_def)
    then have "wp (claim_loop E q c (stream_of q p) es)
        (\<lambda>xs s'. claim_post q (stream_of q p) s1 v xs s') s1"
      using Cons.IH Cons.prems by simp
    then show ?case
      by (rule wp_mono) (use 3 in \<open>auto simp: wp_eqs claim_post_def intro: same_but_trans split: option.splits\<close>)
  qed (use Cons.prems in auto)
qed

lemma ClaimOrphanedTasks_loop_wp:
  assumes "List.set ps \<subseteq> List.set priorities" "distinct ps" "refs_kept q v (\<alpha> s)"
    "\<forall>p \<in> List.set ps. pending_refs q (\<alpha> s) p = pending_refs q v p"
  shows "wp (ClaimOrphanedTasks_loop E q c ps)
    (\<lambda>xs s'. refs_kept q v (\<alpha> s') \<and> (\<forall>x \<in> List.set xs. orphan q v x)) s"
  using assms
proof (induction ps arbitrary: s)
  case Nil
  then show ?case by (simp add: wp_eqs)
next
  case (Cons p ps)
  have p: "p \<in> List.set priorities" and ps: "List.set ps \<subseteq> List.set priorities" "distinct ps" "p \<notin> List.set ps"
    using Cons.prems by auto
  show ?case unfolding ClaimOrphanedTasks_loop.simps Let_def wp_bind
  proof (rule xpending_wp, goal_cases)
    case (1 es s1)
    have es: "List.set es \<subseteq> List.set (pending_refs q v p)"
      using 1 Cons.prems(4) by (auto simp: pending_refs_def dest: in_set_takeD)
    have k1: "refs_kept q v (\<alpha> s1)" using 1 Cons.prems by simp
    show ?case unfolding wp_case_sum sum.case wp_bind
    proof (rule wp_mono [OF claim_loop_wp [OF p es k1]])
      fix here s2 assume here: "claim_post q (stream_of q p) s1 v here s2"
      have "pending_refs q (\<alpha> s2) p' = pending_refs q v p'" if "p' \<in> List.set ps" for p'
      proof -
        have "stream_of q p' \<noteq> stream_of q p" using that ps p stream_of_inj by blast
        then have "pending_refs q (\<alpha> s2) p' = pending_refs q (\<alpha> s1) p'"
          using here by (intro pending_refs_cong) (simp add: claim_post_def same_but_def)
        then show ?thesis using that 1 Cons.prems(4) by simp
      qed
      then have "wp (ClaimOrphanedTasks_loop E q c ps)
          (\<lambda>xs s'. refs_kept q v (\<alpha> s') \<and> (\<forall>x \<in> List.set xs. orphan q v x)) s2"
        using here ps by (intro Cons.IH) (auto simp: claim_post_def)
      then show "wp (ClaimOrphanedTasks_loop E q c ps) (\<lambda>rest. wp (ret (here @ rest))
          (\<lambda>xs s'. refs_kept q v (\<alpha> s') \<and> (\<forall>x \<in> List.set xs. orphan q v x))) s2"
        by (rule wp_mono) (use here in \<open>auto simp: wp_eqs claim_post_def\<close>)
    qed
  next
    case (2 e s1)
    then show ?case using Cons.prems by (auto simp: wp_eqs intro!: Cons.IH)
  qed
qed

lemma ClaimOrphanedTasks_wp:
  "wp (ClaimOrphanedTasks E q c)
    (\<lambda>xs s'. refs_kept q (\<alpha> s) (\<alpha> s') \<and> (\<forall>x \<in> List.set xs. orphan q (\<alpha> s) x)) s"
  unfolding ClaimOrphanedTasks_def
  by (rule ClaimOrphanedTasks_loop_wp) (simp_all add: distinct_priorities)

end

section \<open>Counting\<close>

lemma map_of_group_counts:
  "map_of (map (\<lambda>(n, g). (n, int (length (g_pel g)))) gs) grp =
     map_option (\<lambda>g. int (length (g_pel g))) (map_of gs grp)"
  by (induction gs) auto

text \<open>
  A statistic of one priority: each number is the real one, or 0 when the query failed. The
  backlog is the length of the stream, acknowledged entries included.
\<close>

definition stat_ok :: "redis_queue \<Rightarrow> view \<Rightarrow> priority \<Rightarrow> string \<times> priority_stats \<Rightarrow> bool" where
  "stat_ok q v p x \<longleftrightarrow> fst x = Priority_String p \<and>
     ps_queued (snd x) \<in> {0, int (length (s_entries (strm_at v (stream_of q p))))} \<and>
     ps_pending_unacked (snd x) \<in> {0, int (length (pending_refs q v p))}"

text \<open>What the loop adds to the statistics it starts from.\<close>

definition stats_post :: "redis_queue \<Rightarrow> view \<Rightarrow> priority list \<Rightarrow> queue_stats \<Rightarrow> queue_stats \<Rightarrow> bool" where
  "stats_post q v ps st r \<longleftrightarrow> (\<exists>xs. qs_queues r = qs_queues st @ xs \<and> list_all2 (stat_ok q v) ps xs \<and>
     qs_total_queued r = qs_total_queued st + (\<Sum>x\<leftarrow>xs. ps_queued (snd x)) \<and>
     qs_total_pending_unacked r = qs_total_pending_unacked st + (\<Sum>x\<leftarrow>xs. ps_pending_unacked (snd x))) \<and>
     qs_scheduled_count r = qs_scheduled_count st \<and> qs_dlq_size r = qs_dlq_size st"

lemma stats_post_Nil: "stats_post q v [] st st"
  by (simp add: stats_post_def)

lemma stats_post_Cons:
  assumes "stat_ok q v p (Priority_String p, x)"
    and "stats_post q v ps (st\<lparr>qs_queues := qs_queues st @ [(Priority_String p, x)],
        qs_total_queued := qs_total_queued st + ps_queued x,
        qs_total_pending_unacked := qs_total_pending_unacked st + ps_pending_unacked x\<rparr>) r"
  shows "stats_post q v (p # ps) st r"
proof -
  from assms(2) obtain xs where "qs_queues r = qs_queues st @ (Priority_String p, x) # xs"
    "list_all2 (stat_ok q v) ps xs"
    "qs_total_queued r = qs_total_queued st + (ps_queued x + (\<Sum>x\<leftarrow>xs. ps_queued (snd x)))"
    "qs_total_pending_unacked r = qs_total_pending_unacked st +
       (ps_pending_unacked x + (\<Sum>x\<leftarrow>xs. ps_pending_unacked (snd x)))"
    by (auto simp: stats_post_def)
  with assms show ?thesis
    unfolding stats_post_def by (intro conjI exI [of _ "(Priority_String p, x) # xs"]) auto
qed

text \<open>The pending count read from the groups, 0 after an error.\<close>

definition unacked_of :: "redis_queue \<Rightarrow> (string \<times> int) list res \<Rightarrow> int" where
  "unacked_of q r = (case r of Inl _ \<Rightarrow> 0 | Inr gs \<Rightarrow>
     (case group_pending (consumerGroup q) gs of None \<Rightarrow> 0 | Some n \<Rightarrow> n))"

lemma unacked_of_counts:
  "unacked_of q (Inr (map (\<lambda>(n, g). (n, int (length (g_pel g)))) (s_groups (strm_at v (stream_of q p)))))
     \<in> {0, int (length (pending_refs q v p))}"
  by (auto simp: unacked_of_def group_pending_def map_of_group_counts pending_refs_def strm_pel_def
      group_at_def split: option.splits)

context redis
begin

lemma GetQueueDepth_loop_wp:
  "wp (GetQueueDepth_loop E q ps acc) (\<lambda>r s'. \<alpha> s' = \<alpha> s \<and>
     sum_list (map snd r) \<le> sum_list (map snd acc) + (\<Sum>p\<leftarrow>ps. int (length (pending_refs q (\<alpha> s) p)))) s"
proof (induction ps arbitrary: acc s)
  case (Cons p ps)
  have ih: "wp (GetQueueDepth_loop E q ps acc') (\<lambda>r s'. \<alpha> s' = \<alpha> s \<and> sum_list (map snd r) \<le>
      sum_list (map snd acc) + (\<Sum>p\<leftarrow>p # ps. int (length (pending_refs q (\<alpha> s) p)))) s1"
    if "\<alpha> s1 = \<alpha> s" "sum_list (map snd acc') \<le> sum_list (map snd acc) + int (length (pending_refs q (\<alpha> s) p))"
    for acc' s1
    by (rule wp_mono [OF Cons.IH [of acc' s1]]) (use that in auto)
  show ?case unfolding GetQueueDepth_loop.simps wp_bind
  proof (rule xinfo_wp, goal_cases)
    case (1 gs s1)
    have "group_pending (consumerGroup q) gs = None \<or>
        group_pending (consumerGroup q) gs = Some (int (length (pending_refs q (\<alpha> s) p)))"
      using 1 by (auto simp: group_pending_def map_of_group_counts pending_refs_def strm_pel_def
          group_at_def split: option.splits)
    then show ?case using 1
      by (elim disjE) (auto simp: wp_eqs intro!: ih [simplified])
  next
    case (2 e s1)
    then show ?case by (auto simp: wp_eqs intro!: ih [simplified])
  qed
qed (simp add: wp_eqs)

lemma GetQueueDepth_wp:
  "wp (GetQueueDepth E q) (\<lambda>r s'. \<alpha> s' = \<alpha> s \<and>
     sum_list (map snd r) \<le> (\<Sum>p\<leftarrow>priorities. int (length (pending_refs q (\<alpha> s) p)))) s"
  unfolding GetQueueDepth_def by (rule wp_mono [OF GetQueueDepth_loop_wp]) simp

lemma GetQueueStats_loop_wp:
  "wp (GetQueueStats_loop E q ps st) (\<lambda>r s'. \<alpha> s' = \<alpha> s \<and> stats_post q (\<alpha> s) ps st r) s"
proof (induction ps arbitrary: st s)
  case (Cons p ps)
  let ?next = "\<lambda>x. st\<lparr>qs_queues := qs_queues st @ [(Priority_String p, x)],
        qs_total_queued := qs_total_queued st + ps_queued x,
        qs_total_pending_unacked := qs_total_pending_unacked st + ps_pending_unacked x\<rparr>"
  have step: "wp (GetQueueStats_loop E q ps (?next x))
      (\<lambda>r s'. \<alpha> s' = \<alpha> s \<and> stats_post q (\<alpha> s) (p # ps) st r) s1"
    if "\<alpha> s1 = \<alpha> s" "stat_ok q (\<alpha> s) p (Priority_String p, x)" for x s1
    by (rule wp_mono [OF Cons.IH]) (use that stats_post_Cons in auto)
  have info: "wp (r_xinfo_groups E (stream_of q p)) (\<lambda>groups. wp (GetQueueStats_loop E q ps
       (?next \<lparr>ps_queued = queued, ps_pending_unacked = unacked_of q groups\<rparr>))
      (\<lambda>r s'. \<alpha> s' = \<alpha> s \<and> stats_post q (\<alpha> s) (p # ps) st r)) s1"
    if s1: "\<alpha> s1 = \<alpha> s" "queued \<in> {0, int (length (s_entries (strm_at (\<alpha> s) (stream_of q p))))}" for queued s1
  proof (rule xinfo_wp, goal_cases)
    case (1 gs s2)
    show ?case
      by (rule step) (use 1 s1 unacked_of_counts [of q "\<alpha> s" p] in \<open>auto simp: stat_ok_def\<close>)
  next
    case (2 e s2)
    show ?case by (rule step) (use 2 s1 in \<open>auto simp: stat_ok_def unacked_of_def\<close>)
  qed
  show ?case unfolding GetQueueStats_loop.simps Let_def wp_bind
  proof (rule xlen_wp, goal_cases)
    case (1 n s1)
    then show ?case using info [of s1 n] by (simp add: unacked_of_def)
  next
    case (2 e s1)
    then show ?case using info [of s1 0] by (simp add: unacked_of_def)
  qed
qed (simp add: wp_eqs stats_post_Nil)

lemma GetQueueStats_wp:
  "wp (GetQueueStats E q) (\<lambda>r s'. \<alpha> s' = \<alpha> s \<and> qs_dlq_size r = 0 \<and>
     list_all2 (stat_ok q (\<alpha> s)) priorities (qs_queues r) \<and>
     qs_total_queued r = (\<Sum>x\<leftarrow>qs_queues r. ps_queued (snd x)) \<and>
     qs_total_pending_unacked r = (\<Sum>x\<leftarrow>qs_queues r. ps_pending_unacked (snd x)) \<and>
     qs_scheduled_count r \<in> {0, int (length (zset_at (\<alpha> s) ''tasks:scheduled''))} \<and>
     qs_total_deferred r = qs_scheduled_count r) s"
  unfolding GetQueueStats_def wp_bind
  by (rule wp_mono [OF GetQueueStats_loop_wp])
    (auto simp: wp_eqs stats_post_def Let_def intro!: zcard_wp)

end

section \<open>When the server is up\<close>

text \<open>
  A prefix that keeps the streams apart from the task keys. The other keys of the program
  end differently from every stream.
\<close>

definition queue_ok :: "redis_queue \<Rightarrow> bool" where
  "queue_ok q \<longleftrightarrow> take 5 (streamPrefix q @ '':'') \<noteq> ''task:''"

lemma taskKey_not_stream:
  assumes "queue_ok q"
  shows "taskKey i \<noteq> stream_of q p" "stream_of q p \<noteq> taskKey i"
proof -
  have "take 5 (taskKey i) = ''task:''" by (simp add: taskKey_def)
  moreover have "take 5 (stream_of q p) \<noteq> ''task:''"
  proof (cases "length (streamPrefix q @ '':'') \<ge> 5")
    case True
    then have "take 5 (stream_of q p) = take 5 (streamPrefix q @ '':'')"
      unfolding stream_of_def StreamName_def by (metis append_assoc take_append append_Nil2
          diff_is_0_eq' take_0 append_same_eq)
    then show ?thesis using assms by (simp add: queue_ok_def)
  next
    case False
    then have "length (streamPrefix q) \<le> 3" by simp
    then have "(stream_of q p) ! length (streamPrefix q) = CHR '':'' \<and>
        (''task:'') ! length (streamPrefix q) \<noteq> CHR '':'' \<and> length (streamPrefix q) < 5"
      by (auto simp: stream_of_def StreamName_def nth_append numeral_eq_Suc le_Suc_eq)
    then show ?thesis by (metis nth_take)
  qed
  ultimately show "taskKey i \<noteq> stream_of q p" "stream_of q p \<noteq> taskKey i" by metis+
qed

lemma last_stream_of: "last (stream_of q p) = last (Priority_String p)"
  by (cases p) (simp_all add: stream_of_def StreamName_def)

lemma stream_not_key:
  "last k \<notin> {CHR ''l'', CHR ''h'', CHR ''w'', CHR ''n''} \<Longrightarrow> stream_of q p \<noteq> k \<and> k \<noteq> stream_of q p"
  using last_stream_of [of q p] by (cases p) auto

lemma stream_keys [simp]:
  "stream_of q p \<noteq> ''tasks:scheduled''" "stream_of q p \<noteq> ''tasks:dlq''" "stream_of q p \<noteq> ''tasks:dlq:set''"
  "''tasks:scheduled'' \<noteq> stream_of q p" "''tasks:dlq'' \<noteq> stream_of q p" "''tasks:dlq:set'' \<noteq> stream_of q p"
  using stream_not_key [of "''tasks:scheduled''" q p] stream_not_key [of "''tasks:dlq''" q p]
    stream_not_key [of "''tasks:dlq:set''" q p] by simp_all

lemma task_keys [simp]:
  "taskKey i \<noteq> ''tasks:scheduled''" "taskKey i \<noteq> ''tasks:dlq''" "taskKey i \<noteq> ''tasks:dlq:set''"
  "''tasks:scheduled'' \<noteq> taskKey i" "''tasks:dlq'' \<noteq> taskKey i" "''tasks:dlq:set'' \<noteq> taskKey i"
  by (simp_all add: taskKey_def)

context redis_up
begin

lemma UpdateTask_up:
  assumes "U s" "storable t"
    and "\<And>s'. U s' \<Longrightarrow> \<alpha> s' = put_task t (update_ttl q t) (\<alpha> s) \<Longrightarrow> Q None s'"
  shows "wp (UpdateTask E q t) Q s"
  using assms unfolding UpdateTask_alt
  by (simp add: FromJSON_ToJSON(1) wp_bind) (rule set_up, auto simp: wp_eqs put_task_def)

lemma GetTask_up:
  assumes "U s" "task_at (\<alpha> s) i = Some t" "\<And>s'. U s' \<Longrightarrow> \<alpha> s' = \<alpha> s \<Longrightarrow> Q (Inr t) s'"
  shows "wp (GetTask E i) Q s"
  unfolding GetTask_def wp_bind
  by (rule get_up) (use assms in \<open>auto simp: task_at_def wp_eqs split: option.splits sum.splits\<close>)

lemma Acknowledge_up:
  assumes "U s" "strm_ok (\<alpha> s) (stream_of q (t_priority t))"
    and "\<And>s'. U s' \<Longrightarrow> \<alpha> s' = ack_msg (stream_of q (t_priority t)) (consumerGroup q) i (\<alpha> s) \<Longrightarrow> Q None s'"
  shows "wp (Acknowledge E q t i) Q s"
  unfolding Acknowledge_def wp_bind
  by (rule xack_up) (use assms in \<open>auto simp: wp_eqs ack_msg_def split: if_splits\<close>)

lemma Enqueue_up:
  assumes "U s" "storable t" "queue_ok q" "strm_ok (\<alpha> s) (stream_of q (t_priority t))"
    and "\<And>i s'. U s' \<Longrightarrow> i \<notin> List.set (strm_ids (strm_at (\<alpha> s) (stream_of q (t_priority t)))) \<Longrightarrow>
        \<alpha> s' = push_ref (stream_of q (t_priority t)) i t (put_task t 0 (\<alpha> s)) \<Longrightarrow> Q None s'"
  shows "wp (Enqueue E q t) Q s"
  unfolding Enqueue_def FromJSON_ToJSON(1) [OF assms(2)] Let_def sum.case wp_bind
proof (rule set_up, goal_cases)
  case (3 a s1)
  have ne: "stream_of q (t_priority t) \<noteq> taskKey (t_id t)" using assms(3) taskKey_not_stream by simp
  show ?case unfolding sum.case wp_bind
  proof (rule xadd_up, goal_cases)
    case (2)
    then show ?case using 3 assms(4) ne by (simp add: strm_ok_def)
  next
    case (3 i s2)
    then show ?case using \<open>\<alpha> s1 = _\<close> ne
      by (auto simp: wp_eqs push_ref_def put_task_def intro!: assms(5))
  qed (use 3 in simp)
qed (use assms in auto)

end

section \<open>A sample queue\<close>

text \<open>
  Concrete data for the closed witnesses: the default queue and a server in memory whose streams
  exist, before and after some tasks are enqueued.
\<close>

definition sample_queue :: redis_queue where
  "sample_queue = \<lparr>streamPrefix = ''tasks'', consumerGroup = ''workers'', blockTimeout = 5 * Second,
     claimMinIdle = 30 * Second, taskRetentionDays = 7\<rparr>"

definition sample_mem :: mem where
  "sample_mem = snd (run_state (initStreams mem_env sample_queue) (empty_mem []))"

definition enqueue_all :: "task list \<Rightarrow> mem \<Rightarrow> mem" where
  "enqueue_all ts s = snd (run_state (for_each ts (\<lambda>t. do {
     _ \<leftarrow> Enqueue mem_env sample_queue t; ret () })) s)"

section \<open>Properties\<close>

text \<open>The view after a successful \<^verbatim>\<open>Enqueue\<close>.\<close>

lemma next_refs_push:
  assumes "queue_ok q" "group_at (strm_at v (stream_of q p)) (consumerGroup q) \<noteq> None"
  shows "next_refs q (push_ref (stream_of q p) i t (put_task t ttl v)) p =
      next_refs q v p @ [\<lparr>m_id = i, m_values = task_ref t\<rparr>]"
    and "stream_of q p' \<noteq> stream_of q p \<Longrightarrow>
      next_refs q (push_ref (stream_of q p) i t (put_task t ttl v)) p' = next_refs q v p'"
proof -
  have at: "strm_at (put_task t ttl v) (stream_of q r) = strm_at v (stream_of q r)" for r
    using taskKey_not_stream [OF assms(1)] by (simp add: put_task_def)
  show "next_refs q (push_ref (stream_of q p) i t (put_task t ttl v)) p =
      next_refs q v p @ [\<lparr>m_id = i, m_values = task_ref t\<rparr>]"
    using assms(2) by (simp add: next_refs_def push_ref_def at strm_new_add)
  show "stream_of q p' \<noteq> stream_of q p \<Longrightarrow>
      next_refs q (push_ref (stream_of q p) i t (put_task t ttl v)) p' = next_refs q v p'"
    by (simp add: next_refs_def push_ref_def at)
qed

lemma task_at_push:
  "queue_ok q \<Longrightarrow> task_at (push_ref (stream_of q p) i t v) j = task_at v j"
  using taskKey_not_stream by (intro task_at_cong) (simp add: push_ref_def)



text \<open>What a read leaves of each priority.\<close>

lemma deliver_heads_refs:
  assumes "p \<in> set priorities" "next_refs q v p \<noteq> []"
  shows "next_refs q (deliver_heads q c v) p = tl (next_refs q v p)"
    and "pending_refs q (deliver_heads q c v) p = pending_refs q v p @
      [\<lparr>p_id = m_id (hd (next_refs q v p)), p_consumer = c, p_idle = 0\<rparr>]"
proof -
  have "strm_at (deliver_heads q c v) (stream_of q p) =
      strm_deliver (consumerGroup q) c 1 (strm_at v (stream_of q p))"
    using assms by (simp add: deliver_heads_def deliver_all_def strm_at_def next_refs_def)
  then show "next_refs q (deliver_heads q c v) p = tl (next_refs q v p)"
    "pending_refs q (deliver_heads q c v) p = pending_refs q v p @
      [\<lparr>p_id = m_id (hd (next_refs q v p)), p_consumer = c, p_idle = 0\<rparr>]"
    using assms(2) by (cases "next_refs q v p"; simp add: next_refs_def pending_refs_def drop_Suc)+
qed

text \<open>
  A dequeued task comes from the highest priority that has anything to hand out, and its
  reference is the oldest there: every stream before it in the order critical, high, normal, low
  is empty.
\<close>

theorem dequeue_priority:
  assumes "redis E \<alpha>" "run_state (DequeueBlocking E q c) s = (Inr (Some (t, m)), s')"
  shows "\<exists>higher p lower i.
    [PriorityCritical, PriorityHigh, PriorityNormal, PriorityLow] = higher @ p # lower \<and>
    (\<forall>p' \<in> set higher. next_refs q (\<alpha> s) p' = []) \<and> next_refs q (\<alpha> s) p \<noteq> [] \<and>
    m_id (hd (next_refs q (\<alpha> s) p)) = m \<and> ref_id (hd (next_refs q (\<alpha> s) p)) = Some i \<and>
    task_at (\<alpha> s) i = Some t"
proof -
  define C where "C = (\<lambda>r :: (task \<times> string) option res. case r of Inr (Some (t, m)) \<Rightarrow>
    \<exists>p i. first_ready q (\<alpha> s) = Some p \<and> m_id (hd (next_refs q (\<alpha> s) p)) = m \<and>
      ref_id (hd (next_refs q (\<alpha> s) p)) = Some i \<and> task_at (\<alpha> s) i = Some t | _ \<Rightarrow> True)"
  have "wp (DequeueBlocking E q c) (\<lambda>r _. C r) s"
    by (rule redis.DequeueBlocking_wp [OF assms(1)]) (auto simp: C_def)
  then have "C (Inr (Some (t, m)))" using assms(2) by (rule wp_runD)
  then obtain p i where p: "first_ready q (\<alpha> s) = Some p" "m_id (hd (next_refs q (\<alpha> s) p)) = m"
    "ref_id (hd (next_refs q (\<alpha> s) p)) = Some i" "task_at (\<alpha> s) i = Some t"
    by (auto simp: C_def)
  from p(1) obtain k where k: "k < length priorities" "priorities ! k = p"
    "\<forall>j < k. next_refs q (\<alpha> s) (priorities ! j) = []" "next_refs q (\<alpha> s) p \<noteq> []"
    by (auto simp: first_ready_def find_Some_iff)
  have "priorities = take k priorities @ p # drop (Suc k) priorities"
    using k(1,2) id_take_nth_drop by blast
  moreover have "\<forall>p' \<in> set (take k priorities). next_refs q (\<alpha> s) p' = []"
    using k(1,3) by (auto simp: in_set_conv_nth)
  ultimately show ?thesis using p k(4) unfolding priorities_def by blast
qed

theorem dequeue_priority_witness:
  "\<exists>higher p lower i. [PriorityCritical, PriorityHigh, PriorityNormal, PriorityLow] = higher @ p # lower \<and>
     (\<forall>p' \<in> set higher. next_refs sample_queue (mem_view (enqueue_all [sample_task ''a'' PriorityLow StatePending,
        sample_task ''b'' PriorityHigh StatePending] sample_mem)) p' = []) \<and>
     ref_id (hd (next_refs sample_queue (mem_view (enqueue_all [sample_task ''a'' PriorityLow StatePending,
        sample_task ''b'' PriorityHigh StatePending] sample_mem)) p)) = Some i"
proof -
  let ?s = "enqueue_all [sample_task ''a'' PriorityLow StatePending, sample_task ''b'' PriorityHigh StatePending] sample_mem"
  have "fst (run_state (DequeueBlocking mem_env sample_queue ''w'') ?s) =
      Inr (Some (sample_task ''b'' PriorityHigh StatePending, ''1''))" by code_simp
  from dequeue_priority [OF mem.redis_axioms run_fstI [OF this]] show ?thesis by blast
qed

text \<open>
  The same read takes the oldest reference off every other non-empty stream as well: it becomes
  pending for this consumer, although only one task is returned.
\<close>

theorem dequeue_takes_every_head:
  assumes "redis E \<alpha>" "run_state (DequeueBlocking E q c) s = (Inr (Some (t, m)), s')"
  shows "\<forall>p \<in> set priorities. next_refs q (\<alpha> s) p \<noteq> [] \<longrightarrow>
    next_refs q (\<alpha> s') p = tl (next_refs q (\<alpha> s) p) \<and>
    pending_refs q (\<alpha> s') p = pending_refs q (\<alpha> s) p @
      [\<lparr>p_id = m_id (hd (next_refs q (\<alpha> s) p)), p_consumer = c, p_idle = 0\<rparr>]"
proof -
  have "wp (DequeueBlocking E q c) (\<lambda>r s'. (\<exists>x. r = Inr (Some x)) \<longrightarrow> \<alpha> s' = deliver_heads q c (\<alpha> s)) s"
    by (rule redis.DequeueBlocking_wp [OF assms(1)]) auto
  then have "\<alpha> s' = deliver_heads q c (\<alpha> s)" using wp_runD [OF _ assms(2)] by blast
  then show ?thesis using deliver_heads_refs by metis
qed

theorem dequeue_takes_every_head_witness:
  "pending_refs sample_queue (mem_view (snd (run_state (DequeueBlocking mem_env sample_queue ''w'')
     (enqueue_all [sample_task ''a'' PriorityLow StatePending, sample_task ''b'' PriorityHigh StatePending]
        sample_mem)))) PriorityLow \<noteq> []"
proof -
  let ?s = "enqueue_all [sample_task ''a'' PriorityLow StatePending, sample_task ''b'' PriorityHigh StatePending] sample_mem"
  have "fst (run_state (DequeueBlocking mem_env sample_queue ''w'') ?s) =
      Inr (Some (sample_task ''b'' PriorityHigh StatePending, ''1''))" by code_simp
  note all = dequeue_takes_every_head [OF mem.redis_axioms run_fstI [OF this]]
  have "next_refs sample_queue (mem_view ?s) PriorityLow \<noteq> []" by code_simp
  then show ?thesis using bspec [OF all, of PriorityLow] by (simp add: priorities_def)
qed

text \<open>
  C33: Claiming orphans loses and duplicates nothing: no task changes, every stream keeps the same
  pending message IDs and the same undelivered references, and each claimed task was pending for
  at least the claim time.
\<close>

theorem claim_keeps_messages:
  assumes "redis E \<alpha>" "run_state (ClaimOrphanedTasks E q c) s = (xs, s')"
  shows "(\<forall>i. task_at (\<alpha> s') i = task_at (\<alpha> s) i) \<and>
    (\<forall>p. map p_id (pending_refs q (\<alpha> s') p) = map p_id (pending_refs q (\<alpha> s) p) \<and>
         next_refs q (\<alpha> s') p = next_refs q (\<alpha> s) p) \<and>
    (\<forall>(t, m) \<in> set xs. \<exists>p \<in> set priorities. \<exists>e \<in> set (pending_refs q (\<alpha> s) p).
       p_id e = m \<and> claimMinIdle q \<le> p_idle e \<and> (\<exists>i. task_at (\<alpha> s) i = Some t))"
  using wp_runD [OF redis.ClaimOrphanedTasks_wp [OF assms(1)] assms(2)]
  unfolding refs_kept_def orphan_def by fastforce

text \<open>A queue that claims at once, for a claim that succeeds on a fresh server.\<close>

theorem claim_keeps_messages_witness:
  "\<exists>p \<in> set priorities. \<exists>e \<in> set (pending_refs (sample_queue\<lparr>claimMinIdle := 0\<rparr>) (mem_view (snd (run_state
     (DequeueBlocking mem_env sample_queue ''w'')
     (enqueue_all [sample_task ''a'' PriorityLow StatePending] sample_mem)))) p). p_id e = ''1''"
proof -
  let ?q = "sample_queue\<lparr>claimMinIdle := 0\<rparr>"
  let ?s = "snd (run_state (DequeueBlocking mem_env sample_queue ''w'')
     (enqueue_all [sample_task ''a'' PriorityLow StatePending] sample_mem))"
  have "fst (run_state (ClaimOrphanedTasks mem_env ?q ''v'') ?s) =
      [(sample_task ''a'' PriorityLow StatePending, ''1'')]" by code_simp
  from claim_keeps_messages [OF mem.redis_axioms run_fstI [OF this]] show ?thesis by auto
qed

text \<open>
  Queue statistics are read-only and never invent numbers: for each priority in order the
  backlog is the length of its stream or 0, the unacknowledged count is the size of its pending
  list or 0 (0 after a failed query), and the totals are the sums.
\<close>

theorem stats_faithful:
  assumes "redis E \<alpha>" "run_state (GetQueueStats E q) s = (st, s')"
  shows "\<alpha> s' = \<alpha> s \<and> map fst (qs_queues st) = map Priority_String priorities \<and>
    list_all2 (\<lambda>p (n, x). ps_queued x \<in> {0, int (length (s_entries (strm_at (\<alpha> s) (stream_of q p))))} \<and>
        ps_pending_unacked x \<in> {0, int (length (pending_refs q (\<alpha> s) p))}) priorities (qs_queues st) \<and>
    qs_total_queued st = (\<Sum>(n, x)\<leftarrow>qs_queues st. ps_queued x) \<and>
    qs_total_pending_unacked st = (\<Sum>(n, x)\<leftarrow>qs_queues st. ps_pending_unacked x) \<and>
    qs_scheduled_count st \<in> {0, int (length (zset_at (\<alpha> s) ''tasks:scheduled''))} \<and>
    qs_total_deferred st = qs_scheduled_count st"
proof -
  note r = wp_runD [OF redis.GetQueueStats_wp [OF assms(1)] assms(2)]
  have names: "map fst xs = map Priority_String ps" if "list_all2 (stat_ok q v) ps xs" for ps xs v
    using that by (induction rule: list_all2_induct) (auto simp: stat_ok_def)
  have "list_all2 (\<lambda>p (n, x). ps_queued x \<in> {0, int (length (s_entries (strm_at v (stream_of q p))))} \<and>
        ps_pending_unacked x \<in> {0, int (length (pending_refs q v p))}) ps xs"
    if "list_all2 (stat_ok q v) ps xs" for ps xs v
    using that by (rule list_all2_mono) (auto simp: stat_ok_def)
  then show ?thesis using r names by (auto simp: case_prod_unfold)
qed

theorem stats_faithful_witness:
  "qs_total_deferred (fst (run_state (GetQueueStats mem_env sample_queue)
     (enqueue_all [sample_task ''a'' PriorityLow StatePending] sample_mem))) = 0 \<and>
   map fst (qs_queues (fst (run_state (GetQueueStats mem_env sample_queue)
     (enqueue_all [sample_task ''a'' PriorityLow StatePending] sample_mem)))) =
     [''critical'', ''high'', ''normal'', ''low'']"
proof -
  let ?s = "enqueue_all [sample_task ''a'' PriorityLow StatePending] sample_mem"
  have "zset_at (mem_view ?s) ''tasks:scheduled'' = []" by code_simp
  with stats_faithful [OF mem.redis_axioms run_fstI [OF refl], of sample_queue ?s] show ?thesis
    by (simp add: priorities_def)
qed

text \<open>
  For a retention of up to 106751 days the expiry of a finished task is exactly that many
  days, without overflow; a task that is not finished is stored without expiry, and so is every
  task when the retention is not positive.
\<close>

theorem update_expiry:
  assumes "redis E \<alpha>" "taskRetentionDays q \<le> 106751"
    and "run_state (UpdateTask E q t) s = (None, s')"
  shows "\<alpha> s' = (\<alpha> s)(taskKey (t_id t) \<mapsto> RStr (task_doc t)
    (if t_state t \<in> {StateCompleted, StateFailed, StateCanceled, StateDeadLetter} \<and> taskRetentionDays q > 0
     then taskRetentionDays q * 24 * Hour else 0))"
proof -
  have "wp (UpdateTask E q t) (\<lambda>r s'. r = None \<longrightarrow> \<alpha> s' = put_task t (update_ttl q t) (\<alpha> s)) s"
    by (rule redis.UpdateTask_wp [OF assms(1)]) simp_all
  then have "\<alpha> s' = put_task t (update_ttl q t) (\<alpha> s)" using wp_runD [OF _ assms(3)] by blast
  moreover have "GetRetentionTTL q = (if taskRetentionDays q > 0 then taskRetentionDays q * 24 * Hour else 0)"
    using assms(2) by (auto simp: GetRetentionTTL_def in_int64_def)
  ultimately show ?thesis by (auto simp: put_task_def update_ttl_def)
qed

theorem update_expiry_witness:
  "mem_view (snd (run_state (UpdateTask mem_env sample_queue (sample_task ''a'' PriorityLow StateFailed)) sample_mem))
     ''task:a'' = Some (RStr (task_doc (sample_task ''a'' PriorityLow StateFailed)) (7 * 24 * Hour))"
proof -
  have "fst (run_state (UpdateTask mem_env sample_queue (sample_task ''a'' PriorityLow StateFailed)) sample_mem) = None"
    by code_simp
  from update_expiry [OF mem.redis_axioms _ run_fstI [OF this]] show ?thesis
    by (simp add: sample_queue_def sample_task_def taskKey_def)
qed

end
