(* ===== verification/Scheduler.thy ===== *)
theory Scheduler
  imports RedisQueue
begin

text \<open>
  \<^verbatim>\<open>internal/queue/scheduler.go\<close>: tasks with a start time wait in a sorted set, scored by
  that time in seconds; a polling loop moves the due ones to their priority streams.
\<close>

section \<open>Scheduling\<close>

definition scheduledSetKey :: string where
  "scheduledSetKey = ''tasks:scheduled''"

definition schedulerLockKey :: string where
  "schedulerLockKey = ''scheduler:lock''"

definition schedulerPollInterval :: int where
  "schedulerPollInterval = 1 * Second"

definition schedulerLockTTL :: int where
  "schedulerLockTTL = 5 * Second"

text \<open>
  The scheduler's state: the queue it feeds and its interval. \<open>NewScheduler\<close> also makes the
  stop channel, which is an event of the loop below.
\<close>

record scheduler =
  sc_queue :: redis_queue
  sc_pollInterval :: int

definition NewScheduler :: "redis_queue \<Rightarrow> scheduler" where
  "NewScheduler q = \<lparr>sc_queue = q, sc_pollInterval = schedulerPollInterval\<rparr>"

definition ScheduleTask :: "'s env \<Rightarrow> task \<Rightarrow> int \<Rightarrow> ('s, error option) io" where
  "ScheduleTask E t scheduledAt = (case ToJSON t of
     Inl err \<Rightarrow> ret (Some (Wrapf ''failed to marshal task'' err))
   | Inr taskData \<Rightarrow> do {
       r \<leftarrow> r_set E (taskKey (t_id t)) taskData 0;
       case r of
         Inl err \<Rightarrow> ret (Some (Wrapf ''failed to store task data'' err))
       | Inr _ \<Rightarrow> do {
           r \<leftarrow> r_zadd E scheduledSetKey (Unix scheduledAt) (t_id t);
           case r of
             Inl err \<Rightarrow> do {
               _ \<leftarrow> r_del E [taskKey (t_id t)];
               ret (Some (Wrapf ''failed to add task to scheduled set'' err))
             }
           | Inr _ \<Rightarrow> ret None
         }
     })"

text \<open>The closure the handlers and the worker pool use; its body is the same.\<close>

definition ScheduleTaskFunc :: "'s env \<Rightarrow> task \<Rightarrow> int \<Rightarrow> ('s, error option) io" where
  "ScheduleTaskFunc E = (\<lambda>t scheduledAt. (case ToJSON t of
     Inl err \<Rightarrow> ret (Some (Wrapf ''failed to marshal task'' err))
   | Inr taskData \<Rightarrow> do {
       r \<leftarrow> r_set E (taskKey (t_id t)) taskData 0;
       case r of
         Inl err \<Rightarrow> ret (Some (Wrapf ''failed to store task data'' err))
       | Inr _ \<Rightarrow> do {
           r \<leftarrow> r_zadd E scheduledSetKey (Unix scheduledAt) (t_id t);
           case r of
             Inl err \<Rightarrow> do {
               _ \<leftarrow> r_del E [taskKey (t_id t)];
               ret (Some (Wrapf ''failed to add task to scheduled set'' err))
             }
           | Inr _ \<Rightarrow> ret None
         }
     }))"

definition GetScheduledCount :: "'s env \<Rightarrow> ('s, int res) io" where
  "GetScheduledCount E = r_zcard E scheduledSetKey"

definition RemoveScheduledTask :: "'s env \<Rightarrow> string \<Rightarrow> ('s, error option) io" where
  "RemoveScheduledTask E taskID = do { r \<leftarrow> r_zrem E scheduledSetKey taskID; ret (err_of r) }"

section \<open>Activation\<close>

definition activateTask :: "'s env \<Rightarrow> redis_queue \<Rightarrow> string \<Rightarrow> ('s, error option) io" where
  "activateTask E q taskID = do {
     r \<leftarrow> GetTask E taskID;
     case r of
       Inl _ \<Rightarrow> do { _ \<leftarrow> r_zrem E scheduledSetKey taskID; ret None }
     | Inr t \<Rightarrow>
         if t_state t \<noteq> StateScheduled \<and> t_state t \<noteq> StateRetrying
         then do { _ \<leftarrow> r_zrem E scheduledSetKey taskID; ret None }
         else do {
           (t, err) \<leftarrow> Transition E t StatePending;
           case err of
             Some e \<Rightarrow> ret (Some (Wrapf ''failed to transition task'' e))
           | None \<Rightarrow> do {
               err \<leftarrow> UpdateTask E q t;
               case err of
                 Some e \<Rightarrow> ret (Some (Wrapf ''failed to update task'' e))
               | None \<Rightarrow> do {
                   r \<leftarrow> r_xadd E (stream_of q (t_priority t)) (task_ref t);
                   case r of
                     Inl e \<Rightarrow> ret (Some (Wrapf ''failed to add task to stream'' e))
                   | Inr _ \<Rightarrow> do {
                       _ \<leftarrow> r_zrem E scheduledSetKey taskID;
                       ret None
                     }
                 }
             }
         }
   }"

text \<open>
  One poll. The lock is released by a deferred \<^verbatim>\<open>Del\<close> on every path that took it; an
  activation that fails is logged and the next one goes on.
\<close>

definition activate_due :: "'s env \<Rightarrow> redis_queue \<Rightarrow> ('s, unit) io" where
  "activate_due E q = do {
     now \<leftarrow> e_now E;
     taskIDs \<leftarrow> r_zrangebyscore E scheduledSetKey (Unix now);
     case taskIDs of
       Inl _ \<Rightarrow> ret ()
     | Inr ids \<Rightarrow> if ids = [] then ret ()
         else for_each ids (\<lambda>taskID. do { _ \<leftarrow> activateTask E q taskID; ret () })
   }"

definition processDueTasks :: "'s env \<Rightarrow> redis_queue \<Rightarrow> ('s, unit) io" where
  "processDueTasks E q = do {
     locked \<leftarrow> r_setnx E schedulerLockKey (GStr ''1'') schedulerLockTTL;
     case locked of
       Inl _ \<Rightarrow> ret ()
     | Inr b \<Rightarrow> if \<not> b then ret () else do {
         _ \<leftarrow> activate_due E q;
         _ \<leftarrow> r_del E [schedulerLockKey];
         ret ()
       }
   }"

text \<open>
  The polling loop, driven by what its \<^verbatim>\<open>select\<close> picks: a tick, the end of the context or
  the closed stop channel. The loop returns at the first of the latter two.
\<close>

datatype loop_event =
    CtxDone
  | StopClosed
  | Tick

fun schedulerLoop :: "'s env \<Rightarrow> redis_queue \<Rightarrow> loop_event list \<Rightarrow> ('s, unit) io" where
  "schedulerLoop E q [] = ret ()"
| "schedulerLoop E q (CtxDone # evs) = ret ()"
| "schedulerLoop E q (StopClosed # evs) = ret ()"
| "schedulerLoop E q (Tick # evs) = do { _ \<leftarrow> processDueTasks E q; schedulerLoop E q evs }"

section \<open>What the operations do\<close>

text \<open>The two effects on the scheduled set.\<close>

definition sched_put :: "string \<Rightarrow> int \<Rightarrow> view \<Rightarrow> view" where
  "sched_put i scheduledAt v = v(scheduledSetKey \<mapsto> RZset (zset_put i (Unix scheduledAt) (zset_at v scheduledSetKey)))"

definition sched_rem :: "string \<Rightarrow> view \<Rightarrow> view" where
  "sched_rem i v = (if v scheduledSetKey = None then v
     else v(scheduledSetKey \<mapsto> RZset (zset_rem i (zset_at v scheduledSetKey))))"

definition scheduled :: "view \<Rightarrow> (string \<times> int) set" where
  "scheduled v = set (zset_at v scheduledSetKey)"

lemma sched_keys [simp]:
  "taskKey i \<noteq> scheduledSetKey" "scheduledSetKey \<noteq> taskKey i"
  "stream_of q p \<noteq> scheduledSetKey" "scheduledSetKey \<noteq> stream_of q p"
  by (simp_all add: scheduledSetKey_def)

lemma scheduled_simps [simp]:
  "scheduled (sched_put i scheduledAt v) = insert (i, Unix scheduledAt) {x \<in> scheduled v. fst x \<noteq> i}"
  "scheduled (sched_rem i v) = {x \<in> scheduled v. fst x \<noteq> i}"
  "scheduled (put_task t ttl v) = scheduled v"
  "scheduled (push_ref (stream_of q p) m t v) = scheduled v"
  "scheduled (ack_msg (stream_of q p) g m v) = scheduled v"
  by (auto simp: scheduled_def sched_put_def sched_rem_def zset_put_set zset_rem_set put_task_def
      push_ref_def ack_msg_def zset_at_def)

lemma scheduled_cong: "w scheduledSetKey = v scheduledSetKey \<Longrightarrow> scheduled w = scheduled v"
  by (simp add: scheduled_def zset_at_def)

lemma task_at_sched [simp]:
  "task_at (sched_put i n v) j = task_at v j" "task_at (sched_rem i v) j = task_at v j"
  by (auto simp: task_at_def sched_put_def sched_rem_def)

context redis
begin

lemma ScheduleTaskFunc_wp:
  assumes "\<And>s'. ToJSON t = Inr (task_doc t) \<Longrightarrow>
        \<alpha> s' = sched_put (t_id t) scheduledAt (put_task t 0 (\<alpha> s)) \<Longrightarrow> Q None s'"
    and "\<And>e s'. same_but {taskKey (t_id t), scheduledSetKey} (\<alpha> s) (\<alpha> s') \<Longrightarrow> Q (Some e) s'"
  shows "wp (ScheduleTaskFunc E t scheduledAt) Q s"
proof (cases "ToJSON t")
  case (Inl e)
  then show ?thesis by (simp add: ScheduleTaskFunc_def wp_eqs assms(2))
next
  case (Inr d)
  let ?k = "taskKey (t_id t)" and ?K = "scheduledSetKey"
  have d: "d = task_doc t" using ToJSON_cases [OF Inr] .
  have cleanup: "wp (r_del E [?k]) (\<lambda>_. wp (ret (Some e)) Q) s'"
    if "same_but {?k, ?K} (\<alpha> s) (\<alpha> s')" for e s'
    using that by (intro del_wp) (auto simp: wp_eqs intro!: assms(2))
  have add: "wp (r_zadd E ?K (Unix scheduledAt) (t_id t)) (\<lambda>r. wp (case r of
        Inl err \<Rightarrow> do { _ \<leftarrow> r_del E [?k]; ret (Some (Wrapf ''failed to add task to scheduled set'' err)) }
      | Inr _ \<Rightarrow> ret None) Q) s1"
    if s1: "\<alpha> s1 = (\<alpha> s)(?k \<mapsto> RStr d 0)" for s1
  proof (rule zadd_wp, goal_cases)
    case (1 n s')
    then show ?case using s1
      by (auto simp: wp_eqs d put_task_def sched_put_def Inr intro!: assms(1))
  next
    case (2 e s')
    then have "same_but {?k, ?K} (\<alpha> s) (\<alpha> s')" using s1 by auto
    then show ?case using cleanup by (simp add: wp_case_sum wp_bind)
  qed
  show ?thesis unfolding ScheduleTaskFunc_def wp_bind
    by (auto simp: Inr wp_eqs simp del: wp_case_sum intro!: set_wp add assms(2))
qed

lemma ScheduleTask_eq: "ScheduleTask E t scheduledAt = ScheduleTaskFunc E t scheduledAt"
  by (simp add: ScheduleTask_def ScheduleTaskFunc_def)

text \<open>Whatever happens, an activation takes at most the task it is about off the set.\<close>

lemma zrem_frame:
  assumes "\<alpha> s = v" "\<And>r s'. \<alpha> s' = v \<or> \<alpha> s' = sched_rem i v \<Longrightarrow> Q r s'"
  shows "wp (r_zrem E scheduledSetKey i) Q s"
  by (rule zrem_wp) (use assms in \<open>auto simp: sched_rem_def split: if_splits\<close>)

lemma activateTask_scheduled:
  "wp (activateTask E q i) (\<lambda>_ s'. scheduled (\<alpha> s') = scheduled (\<alpha> s) \<or>
     scheduled (\<alpha> s') = {x \<in> scheduled (\<alpha> s). fst x \<noteq> i}) s"
proof -
  let ?Q = "\<lambda>_ s'. scheduled (\<alpha> s') = scheduled (\<alpha> s) \<or>
     scheduled (\<alpha> s') = {x \<in> scheduled (\<alpha> s). fst x \<noteq> i}"
  have zrem: "wp (r_zrem E scheduledSetKey i) (\<lambda>_. wp (ret None) ?Q) s1"
    if "scheduled (\<alpha> s1) = scheduled (\<alpha> s)" for s1
    by (rule zrem_frame [OF refl], erule disjE) (simp_all add: wp_return that)
  have xadd: "wp (r_xadd E (stream_of q p) fs) (\<lambda>r. wp (case r of
      Inl e \<Rightarrow> ret (Some (Wrapf ''failed to add task to stream'' e))
    | Inr _ \<Rightarrow> do { _ \<leftarrow> r_zrem E scheduledSetKey i; ret None }) ?Q) s1"
    if "scheduled (\<alpha> s1) = scheduled (\<alpha> s)" for s1 p fs
  proof -
    have keep: "scheduled ((\<alpha> s1)(stream_of q p \<mapsto> x)) = scheduled (\<alpha> s)" for x
      using that scheduled_cong [of "(\<alpha> s1)(stream_of q p \<mapsto> x)" "\<alpha> s1"] by simp
    show ?thesis
    proof (rule xadd_wp, goal_cases)
      case (1 a s')
      then show ?case using keep zrem [of s'] by (simp add: wp_bind)
    next
      case (2 e s')
      then have "scheduled (\<alpha> s') = scheduled (\<alpha> s)" using that keep by auto
      then show ?case by (simp add: wp_return)
    qed
  qed
  show ?thesis unfolding activateTask_def wp_bind
  proof (rule GetTask_wp, goal_cases)
    case (1 t s1)
    show ?case
    proof (cases "t_state t \<noteq> StateScheduled \<and> t_state t \<noteq> StateRetrying")
      case True
      then show ?thesis using zrem [of s1] 1 by (simp add: wp_bind)
    next
      case False
      have update: "wp (UpdateTask E q t') (\<lambda>err. wp (case err of
          Some e \<Rightarrow> ret (Some (Wrapf ''failed to update task'' e))
        | None \<Rightarrow> do {
            r \<leftarrow> r_xadd E (stream_of q p) fs;
            case r of Inl e \<Rightarrow> ret (Some (Wrapf ''failed to add task to stream'' e))
            | Inr _ \<Rightarrow> do { _ \<leftarrow> r_zrem E scheduledSetKey i; ret None }
          }) ?Q) s2" if "\<alpha> s2 = \<alpha> s" for s2 t' p fs
        by (rule UpdateTask_wp) (use that xadd in \<open>auto simp: wp_case_option wp_bind wp_return\<close>)
      note s1 = 1
      show ?thesis unfolding sum.case if_not_P [OF False] wp_bind
      proof (rule Transition_silent, goal_cases)
        case (1 s2)
        then show ?case using s1 by (simp add: wp_return)
      next
        case (2 now s2)
        then show ?case using update [of s2 "enter_state now StatePending t" "t_priority t"] s1 by (simp add: wp_bind)
      qed
    qed
  next
    case (2 e s1)
    then show ?case using zrem [of s1] by (simp add: wp_bind)
  qed
qed

end

section \<open>A poll\<close>

definition due_ids :: "int \<Rightarrow> view \<Rightarrow> string set" where
  "due_ids n v = {i. \<exists>sc \<le> n. (i, sc) \<in> scheduled v}"

lemma lock_keys [simp]:
  "schedulerLockKey \<noteq> scheduledSetKey" "scheduledSetKey \<noteq> schedulerLockKey"
  "schedulerLockKey \<noteq> taskKey i" "taskKey i \<noteq> schedulerLockKey"
  "schedulerLockKey \<noteq> stream_of q p" "stream_of q p \<noteq> schedulerLockKey"
  using stream_not_key [of schedulerLockKey q p]
  by (simp_all add: schedulerLockKey_def scheduledSetKey_def taskKey_def)

lemma scheduled_lock [simp]:
  "scheduled (v(schedulerLockKey := x)) = scheduled v" "scheduled (del_keys [schedulerLockKey] v) = scheduled v"
  by (simp_all add: scheduled_def zset_at_def del_keys_def)

context redis
begin

text \<open>While another instance holds the lock, a poll does nothing.\<close>

lemma processDueTasks_locked_wp:
  assumes "\<alpha> s schedulerLockKey \<noteq> None"
  shows "wp (processDueTasks E q) (\<lambda>_ s'. \<alpha> s' = \<alpha> s) s"
  unfolding processDueTasks_def wp_bind
  by (rule setnx_wp) (use assms in \<open>auto simp: wp_eqs split: if_splits\<close>)

text \<open>Only due entries leave the set: \<open>C\<close> says that the clock reads at most \<open>T\<close>.\<close>

lemma activate_due_early_wp:
  assumes C: "\<And>s. C s \<Longrightarrow> wp (e_now E) (\<lambda>t _. t \<le> T) s" "C s"
    and late: "late \<subseteq> scheduled (\<alpha> s)" "\<forall>x \<in> late. fst x \<notin> due_ids (Unix T) (\<alpha> s)"
  shows "wp (activate_due E q) (\<lambda>_ s'. late \<subseteq> scheduled (\<alpha> s')) s"
  unfolding activate_due_def wp_bind
proof (rule wp_mono [OF wp_conj [OF C(1) [OF C(2)] now [unfolded silent_def, rule_format]]])
  fix now s1 assume s1: "now \<le> T \<and> \<alpha> s1 = \<alpha> s \<and> True"
  show "wp (r_zrangebyscore E scheduledSetKey (Unix now)) (\<lambda>taskIDs. wp (case taskIDs of
        Inl _ \<Rightarrow> ret ()
      | Inr ids \<Rightarrow> if ids = [] then ret ()
          else for_each ids (\<lambda>taskID. do { _ \<leftarrow> activateTask E q taskID; ret () }))
      (\<lambda>_ s'. late \<subseteq> scheduled (\<alpha> s'))) s1"
  proof (rule zrange_wp, goal_cases)
    case (1 ids s2)
    let ?Inv = "\<lambda>ids s'. List.set ids \<subseteq> due_ids (Unix T) (\<alpha> s) \<and> late \<subseteq> scheduled (\<alpha> s')"
    have "List.set ids \<subseteq> due_ids (Unix T) (\<alpha> s)"
      using 1 s1 Unix_mono [of now T]
      by (auto simp: due_ids_def zset_due_set scheduled_def intro: order_trans)
    then have "?Inv ids s2" using 1 s1 late by simp
    moreover have "wp (do { _ \<leftarrow> activateTask E q i; ret () }) (\<lambda>_. ?Inv js) s'"
      if "?Inv (i # js) s'" for i js s'
      unfolding wp_bind
      by (rule wp_mono [OF activateTask_scheduled]) (use that late in \<open>auto simp: wp_return\<close>)
    ultimately show ?case by (auto simp: wp_eqs intro!: wp_for_each [where Inv = ?Inv])
  qed (use s1 late in \<open>simp add: wp_return\<close>)
qed

lemma processDueTasks_early_wp:
  assumes C: "steady C (r_setnx E schedulerLockKey (GStr ''1'') schedulerLockTTL)"
      "\<And>s. C s \<Longrightarrow> wp (e_now E) (\<lambda>t _. t \<le> T) s" "C s"
  shows "wp (processDueTasks E q)
    (\<lambda>_ s'. {x \<in> scheduled (\<alpha> s). fst x \<notin> due_ids (Unix T) (\<alpha> s)} \<subseteq> scheduled (\<alpha> s')) s"
  unfolding processDueTasks_def wp_bind
proof (rule wp_mono [OF wp_conj])
  let ?late = "{x \<in> scheduled (\<alpha> s). fst x \<notin> due_ids (Unix T) (\<alpha> s)}"
  show "wp (r_setnx E schedulerLockKey (GStr ''1'') schedulerLockTTL) (\<lambda>_. C) s"
    using C(1,3) by (simp add: steady_def)
  show "wp (r_setnx E schedulerLockKey (GStr ''1'') schedulerLockTTL)
      (\<lambda>_ s1. scheduled (\<alpha> s1) = scheduled (\<alpha> s)) s"
    by (rule setnx_wp) (auto split: if_splits)
  fix r s1 assume s1: "C s1 \<and> scheduled (\<alpha> s1) = scheduled (\<alpha> s)"
  have "wp (activate_due E q) (\<lambda>_ s'. ?late \<subseteq> scheduled (\<alpha> s')) s1"
  proof (rule activate_due_early_wp)
    show "wp (e_now E) (\<lambda>t _. t \<le> T) u" if "C u" for u by (rule C(2) [OF that])
  qed (use s1 in \<open>auto simp: due_ids_def\<close>)
  then show "wp (case r of Inl _ \<Rightarrow> ret () | Inr b \<Rightarrow> if \<not> b then ret () else do {
       _ \<leftarrow> activate_due E q; _ \<leftarrow> r_del E [schedulerLockKey]; ret () })
     (\<lambda>_ s'. ?late \<subseteq> scheduled (\<alpha> s')) s1"
    using s1 by (auto simp: wp_return wp_bind split: sum.split
        elim!: wp_mono intro!: del_wp)
qed

end

section \<open>A poll when the server is up\<close>

text \<open>A task that can be activated, and one that has been.\<close>

definition ready :: "redis_queue \<Rightarrow> view \<Rightarrow> string \<Rightarrow> bool" where
  "ready q v i \<longleftrightarrow> (\<exists>t. task_at v i = Some t \<and> t_id t = i \<and> storable t \<and>
     t_state t \<in> {StateScheduled, StateRetrying} \<and>
     group_at (strm_at v (stream_of q (t_priority t))) (consumerGroup q) \<noteq> None)"

definition activated :: "redis_queue \<Rightarrow> view \<Rightarrow> string \<Rightarrow> bool" where
  "activated q v i \<longleftrightarrow> i \<notin> fst ` scheduled v \<and>
     (\<exists>t. task_at v i = Some t \<and> t_state t = StatePending \<and>
        (\<exists>m \<in> set (next_refs q v (t_priority t)). ref_id m = Some i))"

definition activate_view :: "redis_queue \<Rightarrow> string \<Rightarrow> task \<Rightarrow> view \<Rightarrow> view" where
  "activate_view q m t v = sched_rem (t_id t) (push_ref (stream_of q (t_priority t)) m t (put_task t 0 v))"

lemma group_is_stream: "group_at (strm_at v k) g \<noteq> None \<Longrightarrow> strm_ok v k"
  by (auto simp: strm_at_def strm_ok_def empty_strm_def group_at_def split: option.splits robj.splits)

lemma strm_at_activate:
  assumes "queue_ok q"
  shows "strm_at (activate_view q m t v) (stream_of q p) =
    (if stream_of q p = stream_of q (t_priority t)
     then strm_add \<lparr>m_id = m, m_values = task_ref t\<rparr> (strm_at v (stream_of q p))
     else strm_at v (stream_of q p))"
  using taskKey_not_stream [OF assms]
  by (simp add: activate_view_def sched_rem_def push_ref_def put_task_def strm_at_def)

lemma task_at_activate:
  assumes "queue_ok q" "storable t"
  shows "task_at (activate_view q m t v) j = (if j = t_id t then Some (stored t) else task_at v j)"
proof -
  have "task_at (push_ref (stream_of q p) m t w) j = task_at w j" for p w
    using taskKey_not_stream [OF assms(1)] by (intro task_at_cong) (simp add: push_ref_def)
  then show ?thesis using assms(2) by (simp add: activate_view_def)
qed

lemma scheduled_activate: "scheduled (activate_view q m t v) = {x \<in> scheduled v. fst x \<noteq> t_id t}"
  by (simp add: activate_view_def)

lemma activate_keeps:
  assumes "queue_ok q" "storable t" "t_state t = StatePending"
    and g: "group_at (strm_at v (stream_of q (t_priority t))) (consumerGroup q) \<noteq> None"
  shows "activated q (activate_view q m t v) (t_id t)"
    and "activated q v j \<Longrightarrow> activated q (activate_view q m t v) j"
    and "ready q v j \<Longrightarrow> j \<noteq> t_id t \<Longrightarrow> ready q (activate_view q m t v) j"
proof -
  have refs: "set (next_refs q v p) \<subseteq> set (next_refs q (activate_view q m t v) p)" for p
    by (auto simp: next_refs_def strm_at_activate [OF assms(1)] strm_new_add)
  have new: "\<lparr>m_id = m, m_values = task_ref t\<rparr> \<in> set (next_refs q (activate_view q m t v) (t_priority t))"
    using g by (auto simp: next_refs_def strm_at_activate [OF assms(1)] strm_new_add)
  show own: "activated q (activate_view q m t v) (t_id t)"
    unfolding activated_def
    by (auto simp: scheduled_activate task_at_activate [OF assms(1,2)] assms(3) intro!: bexI [OF _ new])
  show "activated q (activate_view q m t v) j" if "activated q v j"
    using that own refs
    by (cases "j = t_id t")
      (auto simp: activated_def scheduled_activate task_at_activate [OF assms(1,2)])
  show "ready q (activate_view q m t v) j" if "ready q v j" "j \<noteq> t_id t"
    using that
    by (auto simp: ready_def task_at_activate [OF assms(1,2)] strm_at_activate [OF assms(1)])
qed

context redis_up
begin

lemma activateTask_up:
  assumes "U s" "queue_ok q" "zset_ok (\<alpha> s) scheduledSetKey" "ready q (\<alpha> s) i"
    and "\<And>t m s'. U s' \<Longrightarrow> t_id t = i \<Longrightarrow> storable t \<Longrightarrow> t_state t = StatePending \<Longrightarrow>
      group_at (strm_at (\<alpha> s) (stream_of q (t_priority t))) (consumerGroup q) \<noteq> None \<Longrightarrow>
      \<alpha> s' = activate_view q m t (\<alpha> s) \<Longrightarrow> Q None s'"
  shows "wp (activateTask E q i) Q s"
proof -
  obtain t where t: "task_at (\<alpha> s) i = Some t" "t_id t = i" "storable t"
    "t_state t = StateScheduled \<or> t_state t = StateRetrying"
    and g: "group_at (strm_at (\<alpha> s) (stream_of q (t_priority t))) (consumerGroup q) \<noteq> None"
    using assms(4) by (auto simp: ready_def)
  have final: "wp (r_zrem E scheduledSetKey i) (\<lambda>_. wp (ret None) Q) s2"
    if "U s2" "\<alpha> s2 = push_ref (stream_of q (t_priority t)) m (enter_state now StatePending t)
        (put_task (enter_state now StatePending t) 0 (\<alpha> s))" for s2 m now
  proof (rule zrem_up [OF that(1)], goal_cases)
    case 1
    then show ?case using that(2) assms(3) by (simp add: zset_ok_def push_ref_def put_task_def)
  next
    case (2 n s3)
    then have "\<alpha> s3 = activate_view q m (enter_state now StatePending t) (\<alpha> s)"
      using t(2) that(2) by (simp add: activate_view_def sched_rem_def)
    moreover have "storable (enter_state now StatePending t)" using t(3) by (simp add: storable_def)
    ultimately show ?case using assms(5) [OF 2(1), of "enter_state now StatePending t" m] t(2) g
      by (simp add: wp_return)
  qed
  have push: "wp (r_xadd E (stream_of q (t_priority t)) (task_ref (enter_state now StatePending t)))
      (\<lambda>r. wp (case r of Inl e \<Rightarrow> ret (Some (Wrapf ''failed to add task to stream'' e))
        | Inr _ \<Rightarrow> do { _ \<leftarrow> r_zrem E scheduledSetKey i; ret None }) Q) s1"
    if "U s1" "\<alpha> s1 = put_task (enter_state now StatePending t) 0 (\<alpha> s)" for s1 now
  proof (rule xadd_up [OF that(1)], goal_cases)
    case 1
    then show ?case using that(2) group_is_stream [OF g] taskKey_not_stream [OF assms(2)]
      by (simp add: strm_ok_def put_task_def)
  next
    case (2 m s2)
    then show ?case using final [OF 2(1), of m now] that(2) by (simp add: wp_bind push_ref_def)
  qed
  have can: "CanTransitionTo (t_state t) StatePending" using t(4) by (auto simp: table)
  have pending: "\<not> (t_state t \<noteq> StateScheduled \<and> t_state t \<noteq> StateRetrying)" using t(4) by simp
  have st: "storable (enter_state now StatePending t)" for now using t(3) by (simp add: storable_def)
  show ?thesis unfolding activateTask_def wp_bind
  proof (rule GetTask_up [OF assms(1) t(1)], unfold sum.case if_not_P [OF pending] wp_bind,
      rule Transition_up [OF _ can], assumption, unfold prod.case option.case wp_bind,
      rule UpdateTask_up [OF _ st], assumption, unfold option.case wp_bind enter_state_simps, goal_cases)
    case (1 s1 now s2 s3)
    then show ?case by (intro push) (simp_all add: update_ttl_def)
  qed
qed

end

lemma activated_lock:
  assumes "\<And>k. k \<noteq> schedulerLockKey \<Longrightarrow> w k = v k"
  shows "activated q w i = activated q v i" "ready q w i = ready q v i"
proof -
  have eqs: "scheduled w = scheduled v" "task_at w j = task_at v j"
    "strm_at w (stream_of q p) = strm_at v (stream_of q p)" for j p
    using assms by (auto intro!: scheduled_cong task_at_cong simp: strm_at_def)
  show "activated q w i = activated q v i" "ready q w i = ready q v i"
    by (simp_all add: activated_def ready_def eqs next_refs_def)
qed

lemma zset_due_distinct: "distinct (map fst z) \<Longrightarrow> distinct (zset_due n z)"
  by (simp add: zset_due_def distinct_map_filter)

context redis_up
begin

lemma activate_due_up:
  assumes "U s" "queue_ok q" "zset_ok (\<alpha> s) scheduledSetKey"
    and zset: "distinct (map fst (zset_at (\<alpha> s) scheduledSetKey))"
    and all_ready: "\<forall>x \<in> scheduled (\<alpha> s). ready q (\<alpha> s) (fst x)"
    and clock: "\<And>s. U s \<Longrightarrow> wp (e_now E) (\<lambda>t _. T \<le> t) s"
  shows "wp (activate_due E q)
    (\<lambda>_ s'. U s' \<and> (\<forall>i \<in> due_ids (Unix T) (\<alpha> s). activated q (\<alpha> s') i)) s"
  unfolding activate_due_def wp_bind
proof (rule wp_mono [OF wp_conj [OF clock [OF assms(1)] now_up [OF assms(1)]]])
  show "\<And>a s'. U s' \<Longrightarrow> \<alpha> s' = \<alpha> s \<Longrightarrow> U s' \<and> \<alpha> s' = \<alpha> s" by simp
  fix now s1 assume s1: "T \<le> now \<and> U s1 \<and> \<alpha> s1 = \<alpha> s"
  then have U1: "U s1" and v1: "\<alpha> s1 = \<alpha> s" and now: "Unix T \<le> Unix now"
    by (auto intro: Unix_mono)
  have ok1: "zset_ok (\<alpha> s1) scheduledSetKey" using assms(3) v1 by simp
  show "wp (r_zrangebyscore E scheduledSetKey (Unix now)) (\<lambda>taskIDs. wp (case taskIDs of
        Inl _ \<Rightarrow> ret ()
      | Inr ids \<Rightarrow> if ids = [] then ret ()
          else for_each ids (\<lambda>taskID. do { _ \<leftarrow> activateTask E q taskID; ret () }))
      (\<lambda>_ s'. U s' \<and> (\<forall>i \<in> due_ids (Unix T) (\<alpha> s). activated q (\<alpha> s') i))) s1"
  proof (rule zrange_up [OF U1 ok1])
    fix ids s2 assume U2: "U s2" and s2: "\<alpha> s2 = \<alpha> s1"
      "ids = zset_due (Unix now) (zset_at (\<alpha> s1) scheduledSetKey)"
    have due: "due_ids (Unix T) (\<alpha> s) \<subseteq> List.set ids"
    proof
      fix i assume "i \<in> due_ids (Unix T) (\<alpha> s)"
      then obtain sc where "sc \<le> Unix T" "(i, sc) \<in> List.set (zset_at (\<alpha> s) scheduledSetKey)"
        by (auto simp: due_ids_def scheduled_def)
      then show "i \<in> List.set ids"
        using s2 v1 now by (auto simp: zset_due_set intro!: exI [of _ sc])
    qed
    have dist: "distinct ids" using s2 v1 zset zset_due_distinct by simp
    have ids_ready: "\<forall>i \<in> List.set ids. ready q (\<alpha> s2) i"
      using s2 v1 all_ready by (auto simp: zset_due_set scheduled_def)
    let ?Inv = "\<lambda>rest s'. U s' \<and> zset_ok (\<alpha> s') scheduledSetKey \<and> distinct rest \<and>
      List.set rest \<subseteq> List.set ids \<and> (\<forall>i \<in> List.set rest. ready q (\<alpha> s') i) \<and>
      (\<forall>i \<in> List.set ids - List.set rest. activated q (\<alpha> s') i)"
    have "?Inv ids s2" using U2 dist ids_ready s2 ok1 by simp
    moreover have "wp (do { _ \<leftarrow> activateTask E q i; ret () }) (\<lambda>_. ?Inv rest) s'"
      if inv: "?Inv (i # rest) s'" for i rest s'
      unfolding wp_bind
    proof (rule activateTask_up [OF _ assms(2)], goal_cases)
      case (4 t m s3)
      note keeps = activate_keeps [OF assms(2) 4(3,4,5)]
      have "zset_ok (\<alpha> s3) scheduledSetKey"
        using inv 4(6) by (simp add: zset_ok_def activate_view_def sched_rem_def put_task_def push_ref_def
            split: option.splits)
      moreover have "ready q (\<alpha> s3) x" if "x \<in> List.set rest" for x
      proof -
        have "x \<noteq> t_id t" "ready q (\<alpha> s') x" using that inv 4(2) by auto
        then show ?thesis using keeps(3) 4(6) by simp
      qed
      moreover have "activated q (\<alpha> s3) x" if "x \<in> List.set ids - List.set rest" for x
      proof (cases "x = i")
        case True
        then show ?thesis using keeps(1) 4(2,6) by simp
      next
        case False
        then have "activated q (\<alpha> s') x" using that inv by simp
        then show ?thesis using keeps(2) 4(6) by simp
      qed
      ultimately show ?case using 4(1) inv by (simp add: wp_return)
    qed (use inv in auto)
    ultimately show "wp (case Inr ids of Inl _ \<Rightarrow> ret ()
      | Inr ids \<Rightarrow> if ids = [] then ret ()
          else for_each ids (\<lambda>taskID. do { _ \<leftarrow> activateTask E q taskID; ret () }))
      (\<lambda>_ s'. U s' \<and> (\<forall>i \<in> due_ids (Unix T) (\<alpha> s). activated q (\<alpha> s') i)) s2"
      using due by (auto simp: wp_return intro!: wp_for_each [where Inv = ?Inv])
  qed
qed

lemma processDueTasks_up:
  assumes "U s" "queue_ok q" "zset_ok (\<alpha> s) scheduledSetKey" "\<alpha> s schedulerLockKey = None"
    and zset: "distinct (map fst (zset_at (\<alpha> s) scheduledSetKey))"
    and all_ready: "\<forall>x \<in> scheduled (\<alpha> s). ready q (\<alpha> s) (fst x)"
    and clock: "\<And>s. U s \<Longrightarrow> wp (e_now E) (\<lambda>t _. T \<le> t) s"
  shows "wp (processDueTasks E q)
    (\<lambda>_ s'. \<alpha> s' schedulerLockKey = None \<and> (\<forall>i \<in> due_ids (Unix T) (\<alpha> s). activated q (\<alpha> s') i)) s"
  unfolding processDueTasks_def wp_bind
proof (rule setnx_up [OF assms(1) TrueI], goal_cases)
  case (1 b s1)
  then have b: b and v1: "\<alpha> s1 = (\<alpha> s)(schedulerLockKey \<mapsto> RStr (GStr ''1'') schedulerLockTTL)"
    using assms(4) by (auto split: if_splits)
  have lock: "activated q (\<alpha> s1) i = activated q (\<alpha> s) i" "ready q (\<alpha> s1) i = ready q (\<alpha> s) i" for i
    using activated_lock [of "\<alpha> s1" "\<alpha> s"] v1 by simp_all
  have same: "scheduled (\<alpha> s1) = scheduled (\<alpha> s)" "due_ids n (\<alpha> s1) = due_ids n (\<alpha> s)" for n
    by (simp_all add: v1 due_ids_def)
  have "wp (activate_due E q) (\<lambda>_ s'. U s' \<and> (\<forall>i \<in> due_ids (Unix T) (\<alpha> s). activated q (\<alpha> s') i)) s1"
    using activate_due_up [OF 1(1) assms(2), of T] assms(3) zset all_ready clock
    by (simp add: same lock) (simp add: v1 zset_ok_def)
  then have "wp (do { _ \<leftarrow> activate_due E q; _ \<leftarrow> r_del E [schedulerLockKey]; ret () })
    (\<lambda>_ s'. \<alpha> s' schedulerLockKey = None \<and> (\<forall>i \<in> due_ids (Unix T) (\<alpha> s). activated q (\<alpha> s') i)) s1"
    unfolding wp_bind
  proof (rule wp_mono)
    fix a s2 assume s2: "U s2 \<and> (\<forall>i \<in> due_ids (Unix T) (\<alpha> s). activated q (\<alpha> s2) i)"
    show "wp (r_del E [schedulerLockKey]) (\<lambda>_. wp (ret ()) (\<lambda>_ s'. \<alpha> s' schedulerLockKey = None \<and>
        (\<forall>i \<in> due_ids (Unix T) (\<alpha> s). activated q (\<alpha> s') i))) s2"
    proof (rule del_up, goal_cases)
      case (3 n s3)
      then have "activated q (\<alpha> s3) i = activated q (\<alpha> s2) i" for i
        by (intro activated_lock) (simp add: del_keys_def)
      then show ?case using s2 3 by (simp add: wp_return del_keys_def)
    qed (use s2 in auto)
  qed
  then show ?case using b by simp
qed

end

section \<open>Properties\<close>

text \<open>A server in memory with two scheduled tasks, one due at second 1, one at second 5000.\<close>

definition scheduled_mem :: mem where
  "scheduled_mem = snd (run_state (do {
     _ \<leftarrow> ScheduleTask mem_env (sample_task ''a'' PriorityHigh StateScheduled) (1 * Second);
     ScheduleTask mem_env (sample_task ''b'' PriorityLow StateScheduled) (5000 * Second) }) sample_mem)"

text \<open>
  Scheduling stores the task and enters it into the scheduled set once, under its start time in
  whole seconds, a former entry of the same task being replaced; on an error nothing but the task's
  key and the set can have changed.
\<close>

theorem schedule_effect:
  assumes "redis E \<alpha>" "storable t" "run_state (ScheduleTask E t scheduledAt) s = (r, s')"
  shows "case r of
      None \<Rightarrow> task_at (\<alpha> s') (t_id t) = Some (stored t) \<and>
        scheduled (\<alpha> s') = insert (t_id t, scheduledAt div Second) {x \<in> scheduled (\<alpha> s). fst x \<noteq> t_id t}
    | Some e \<Rightarrow> \<forall>k. k \<noteq> taskKey (t_id t) \<longrightarrow> k \<noteq> scheduledSetKey \<longrightarrow> (\<alpha> s') k = (\<alpha> s) k"
  by (rule wp_runD [OF redis.ScheduleTaskFunc_wp [OF assms(1)]
        assms(3) [unfolded redis.ScheduleTask_eq [OF assms(1)]]])
    (use assms(2) in \<open>simp_all add: Unix_def same_but_def\<close>)

theorem schedule_effect_witness:
  "(''a'', 7) \<in> scheduled (mem_view (snd (run_state
     (ScheduleTask mem_env (sample_task ''a'' PriorityHigh StateScheduled) (7 * Second + 3)) sample_mem)))"
proof -
  let ?t = "sample_task ''a'' PriorityHigh StateScheduled"
  have "fst (run_state (ScheduleTask mem_env ?t (7 * Second + 3)) sample_mem) = None" by code_simp
  from schedule_effect [OF mem.redis_axioms sample_task_storable run_fstI [OF this]] show ?thesis
    by (simp add: sample_task_def)
qed

text \<open>
  While any scheduler instance holds the lock, a poll changes nothing on the server.
\<close>

theorem poll_respects_lock:
  assumes "redis E \<alpha>" "\<alpha> s schedulerLockKey \<noteq> None" "run_state (processDueTasks E q) s = ((), s')"
  shows "\<alpha> s' = \<alpha> s"
  by (rule wp_runD [OF redis.processDueTasks_locked_wp [OF assms(1,2)] assms(3)])

theorem poll_respects_lock_witness:
  "mem_view (snd (run_state (processDueTasks mem_env sample_queue)
     (snd (run_state (r_setnx mem_env schedulerLockKey (GStr ''1'') schedulerLockTTL) scheduled_mem)))) =
   mem_view (snd (run_state (r_setnx mem_env schedulerLockKey (GStr ''1'') schedulerLockTTL) scheduled_mem))"
proof (rule poll_respects_lock [OF mem.redis_axioms])
  show "mem_view (snd (run_state (r_setnx mem_env schedulerLockKey (GStr ''1'') schedulerLockTTL) scheduled_mem))
      schedulerLockKey \<noteq> None" by code_simp
qed (auto intro: run_fstI)



text \<open>
  C7: When the server is up and the lock is free, one poll starts every task that is due: each due
  task that was waiting in state scheduled or retrying is pending, its reference is in the stream
  of its priority, it has left the scheduled set, and the lock is free again.
\<close>

theorem poll_progress:
  assumes "redis_up E \<alpha> U" "U s" "queue_ok q" "zset_ok (\<alpha> s) scheduledSetKey" "\<alpha> s schedulerLockKey = None"
    and "distinct (map fst (zset_at (\<alpha> s) scheduledSetKey))"
    and "\<forall>(i, sc) \<in> scheduled (\<alpha> s). ready q (\<alpha> s) i"
    and "\<forall>u now u'. U u \<longrightarrow> run_state (e_now E) u = (now, u') \<longrightarrow> T \<le> now"
    and "run_state (processDueTasks E q) s = ((), s')"
  shows "(\<alpha> s') schedulerLockKey = None \<and> (\<forall>(i, sc) \<in> scheduled (\<alpha> s). sc \<le> T div Second \<longrightarrow>
    i \<notin> fst ` scheduled (\<alpha> s') \<and> (\<exists>t. task_at (\<alpha> s') i = Some t \<and> t_state t = StatePending \<and>
      (\<exists>m \<in> set (next_refs q (\<alpha> s') (t_priority t)). ref_id m = Some i)))"
proof -
  have "(\<alpha> s') schedulerLockKey = None \<and> (\<forall>i \<in> due_ids (Unix T) (\<alpha> s). activated q (\<alpha> s') i)"
    by (rule wp_runD [OF redis_up.processDueTasks_up [OF assms(1,2,3,4,5,6)] assms(9)])
      (use assms(7,8) in \<open>auto intro: wp_runI\<close>)
  then show ?thesis by (auto simp: due_ids_def Unix_def activated_def)
qed

theorem poll_progress_witness:
  "\<exists>t. task_at (mem_view (snd (run_state (processDueTasks mem_env sample_queue) scheduled_mem))) ''a'' = Some t \<and>
     t_state t = StatePending"
proof -
  have up: "mem_up (999 * Second) scheduled_mem" by code_simp
  have clock: "\<forall>u now u'. mem_up (999 * Second) u \<longrightarrow> run_state (e_now mem_env) u = (now, u') \<longrightarrow>
      999 * Second \<le> now" by (auto simp: mem_env_def mem_now_def mem_up_def)
  have view: "queue_ok sample_queue" "zset_ok (mem_view scheduled_mem) scheduledSetKey"
    "mem_view scheduled_mem schedulerLockKey = None"
    "distinct (map fst (zset_at (mem_view scheduled_mem) scheduledSetKey))" by code_simp+
  have set: "scheduled (mem_view scheduled_mem) = {(''a'', 1), (''b'', 5000)}" by code_simp
  have "task_at (mem_view scheduled_mem) ''a'' = Some (sample_task ''a'' PriorityHigh StateScheduled)"
    "task_at (mem_view scheduled_mem) ''b'' = Some (sample_task ''b'' PriorityLow StateScheduled)"
    "group_at (strm_at (mem_view scheduled_mem) (stream_of sample_queue PriorityHigh)) (consumerGroup sample_queue) \<noteq> None"
    "group_at (strm_at (mem_view scheduled_mem) (stream_of sample_queue PriorityLow)) (consumerGroup sample_queue) \<noteq> None"
    by code_simp+
  then have waiting: "\<forall>(i, sc) \<in> scheduled (mem_view scheduled_mem). ready sample_queue (mem_view scheduled_mem) i"
    using sample_task_storable by (simp add: set ready_def) (simp add: sample_task_def)
  have "run_state (processDueTasks mem_env sample_queue) scheduled_mem =
      ((), snd (run_state (processDueTasks mem_env sample_queue) scheduled_mem))" by (rule run_fstI) simp
  from poll_progress [OF memup.redis_up_axioms up view waiting clock this] show ?thesis
    by (auto simp: set)
qed

end
