(* ===== verification/DeadLetter.thy ===== *)
theory DeadLetter
  imports RedisQueue
begin

text \<open>
  \<^verbatim>\<open>internal/queue/dlq.go\<close>: the dead letter queue, a stream of entries that carry a copy of
  the task, with a set of the task IDs for quick lookups.
\<close>

definition dlqStreamName :: string where
  "dlqStreamName = ''tasks:dlq''"

definition dlqSetName :: string where
  "dlqSetName = ''tasks:dlq:set''"

section \<open>Entries\<close>

text \<open>The task is a pointer, nil when the document has none.\<close>

record dlq_entry =
  de_task :: "task option"
  de_reason :: string
  de_added_at :: int
  de_orig_error :: string
  de_message_id :: string

definition dlq_doc :: "task \<Rightarrow> string \<Rightarrow> int \<Rightarrow> string \<Rightarrow> gval" where
  "dlq_doc t reason addedAt origError = GObj
     [(''task'', task_doc t), (''reason'', GStr reason), (''added_at'', GTime addedAt),
      (''original_error'', GStr origError)]"

fun read_task_ptr :: "gval option \<Rightarrow> task option option" where
  "read_task_ptr None = Some None"
| "read_task_ptr (Some GNull) = Some None"
| "read_task_ptr (Some d) = (case FromJSON d of Inl _ \<Rightarrow> None | Inr t \<Rightarrow> Some (Some t))"

fun read_dlq_entry :: "gval \<Rightarrow> dlq_entry option" where
  "read_dlq_entry (GObj fs) = do {
     t \<leftarrow> read_task_ptr (field fs ''task'');
     r \<leftarrow> read_string (field fs ''reason'');
     a \<leftarrow> read_time (field fs ''added_at'');
     e \<leftarrow> read_string (field fs ''original_error'');
     m \<leftarrow> read_string (field fs ''message_id'');
     Some \<lparr>de_task = t, de_reason = r, de_added_at = a, de_orig_error = e, de_message_id = m\<rparr>
   }"
| "read_dlq_entry GNull = Some \<lparr>de_task = None, de_reason = '''', de_added_at = zero_time,
     de_orig_error = '''', de_message_id = ''''\<rparr>"
| "read_dlq_entry _ = None"

section \<open>Operations\<close>

text \<open>Writing the entry of a task that has its final state.\<close>

definition DLQ_store :: "'s env \<Rightarrow> task \<Rightarrow> string \<Rightarrow> ('s, error option) io" where
  "DLQ_store E t reason = do {
     addedAt \<leftarrow> e_now E;
     let data = dlq_doc t reason addedAt (t_error t);
     if \<not> marshalable data then ret (Some (Wrapf ''failed to marshal DLQ entry'' ErrJSON))
     else do {
       r \<leftarrow> r_xadd E dlqStreamName (task_ref t @ [(''data'', data)]);
       case r of
         Inl err \<Rightarrow> ret (Some (Wrapf ''failed to add to DLQ stream'' err))
       | Inr _ \<Rightarrow> do {
           _ \<leftarrow> r_sadd E dlqSetName (t_id t);
           ret None
         }
     }
   }"

text \<open>The task is changed through its pointer, so it is part of the result.\<close>

definition DLQ_Add :: "'s env \<Rightarrow> task \<Rightarrow> string \<Rightarrow> ('s, task \<times> error option) io" where
  "DLQ_Add E t reason = do {
     (t, err) \<leftarrow> MoveToDLQ E t;
     t \<leftarrow> (case err of
         None \<Rightarrow> ret t
       | Some _ \<Rightarrow> do {
           now \<leftarrow> e_now E;
           ret (t\<lparr>t_state := StateDeadLetter, t_updated_at := now\<rparr>)
         });
     err \<leftarrow> DLQ_store E t reason;
     ret (t, err)
   }"

text \<open>
  The loop over the messages: \<open>i\<close> counts messages, so the limit is one on messages read, not
  on entries returned.
\<close>

fun List_loop :: "int \<Rightarrow> int \<Rightarrow> message list \<Rightarrow> dlq_entry list" where
  "List_loop count i [] = []"
| "List_loop count i (msg # msgs) =
     (if i \<ge> count \<and> count > 0 then []
      else case field (m_values msg) ''data'' of
        None \<Rightarrow> List_loop count (i + 1) msgs
      | Some data \<Rightarrow> (case read_dlq_entry data of
            None \<Rightarrow> List_loop count (i + 1) msgs
          | Some entry \<Rightarrow> entry\<lparr>de_message_id := m_id msg\<rparr> # List_loop count (i + 1) msgs))"

definition DLQ_List :: "'s env \<Rightarrow> int \<Rightarrow> string \<Rightarrow> ('s, dlq_entry list res) io" where
  "DLQ_List E count offset = do {
     let offset = (if offset = '''' then ''-'' else offset);
     messages \<leftarrow> r_xrange E dlqStreamName offset ''+'';
     case messages of
       Inl err \<Rightarrow> ret (Inl (Wrapf ''failed to read DLQ'' err))
     | Inr msgs \<Rightarrow> ret (Inr (List_loop count 0 msgs))
   }"

definition DLQ_Remove :: "'s env \<Rightarrow> string \<Rightarrow> string \<Rightarrow> ('s, error option) io" where
  "DLQ_Remove E taskID messageID = do {
     err \<leftarrow> (if messageID \<noteq> '''' then do {
         r \<leftarrow> r_xdel E dlqStreamName messageID;
         ret (err_of r)
       } else ret None);
     case err of
       Some e \<Rightarrow> ret (Some (Wrapf ''failed to remove from DLQ stream'' e))
     | None \<Rightarrow> do {
         _ \<leftarrow> r_srem E dlqSetName taskID;
         ret None
       }
   }"

text \<open>The first entry of the task; reading the ID of an entry without a task panics.\<close>

fun find_entry :: "string \<Rightarrow> dlq_entry list \<Rightarrow> dlq_entry option res" where
  "find_entry taskID [] = Inr None"
| "find_entry taskID (entry # entries) = (case de_task entry of
     None \<Rightarrow> Inl NilDereference
   | Some t \<Rightarrow> if t_id t = taskID then Inr (Some entry) else find_entry taskID entries)"

definition DLQ_Retry :: "'s env \<Rightarrow> redis_queue \<Rightarrow> string \<Rightarrow> string \<Rightarrow> ('s, error option) io" where
  "DLQ_Retry E q taskID messageID = do {
     r \<leftarrow> DLQ_List E 0 '''';
     case r of
       Inl err \<Rightarrow> ret (Some err)
     | Inr entries \<Rightarrow> (case find_entry taskID entries of
           Inl err \<Rightarrow> ret (Some err)
         | Inr None \<Rightarrow> ret (Some ErrTaskNotFound)
         | Inr (Some entry) \<Rightarrow> (case de_task entry of
               None \<Rightarrow> ret (Some NilDereference)
             | Some t \<Rightarrow> do {
                 (t, err) \<leftarrow> Requeue E t;
                 case err of
                   Some e \<Rightarrow> ret (Some (Wrapf ''failed to requeue task'' e))
                 | None \<Rightarrow> do {
                     err \<leftarrow> Enqueue E q t;
                     case err of
                       Some e \<Rightarrow> ret (Some (Wrapf ''failed to enqueue task'' e))
                     | None \<Rightarrow> DLQ_Remove E taskID (de_message_id entry)
                   }
               }))
   }"

text \<open>A failed retry is skipped; a panic is not.\<close>

fun RetryAll_loop :: "'s env \<Rightarrow> redis_queue \<Rightarrow> dlq_entry list \<Rightarrow> int \<Rightarrow> ('s, int res) io" where
  "RetryAll_loop E q [] count = ret (Inr count)"
| "RetryAll_loop E q (entry # entries) count = (case de_task entry of
     None \<Rightarrow> ret (Inl NilDereference)
   | Some t \<Rightarrow> do {
       err \<leftarrow> DLQ_Retry E q (t_id t) (de_message_id entry);
       case err of
         None \<Rightarrow> RetryAll_loop E q entries (count + 1)
       | Some e \<Rightarrow> if e = NilDereference then ret (Inl e) else RetryAll_loop E q entries count
     })"

definition DLQ_RetryAll :: "'s env \<Rightarrow> redis_queue \<Rightarrow> ('s, int res) io" where
  "DLQ_RetryAll E q = do {
     r \<leftarrow> DLQ_List E 0 '''';
     case r of
       Inl err \<Rightarrow> ret (Inl err)
     | Inr entries \<Rightarrow> RetryAll_loop E q entries 0
   }"

definition DLQ_Size :: "'s env \<Rightarrow> ('s, int res) io" where
  "DLQ_Size E = r_scard E dlqSetName"

definition DLQ_Contains :: "'s env \<Rightarrow> string \<Rightarrow> ('s, bool res) io" where
  "DLQ_Contains E taskID = r_sismember E dlqSetName taskID"

definition DLQ_Clear :: "'s env \<Rightarrow> ('s, error option) io" where
  "DLQ_Clear E = do {
     r \<leftarrow> r_del E [dlqStreamName];
     case r of
       Inl err \<Rightarrow> ret (Some (Wrapf ''failed to delete DLQ stream'' err))
     | Inr _ \<Rightarrow> do {
         r \<leftarrow> r_del E [dlqSetName];
         ret (err_of r)
       }
   }"

section \<open>The queue as a list of entries\<close>

text \<open>What the stream stands for, and what one message of it does.\<close>

definition dlq_entries :: "view \<Rightarrow> dlq_entry list" where
  "dlq_entries v = List_loop 0 0 (s_entries (strm_at v dlqStreamName))"

definition dlq_put :: "string \<Rightarrow> task \<Rightarrow> string \<Rightarrow> int \<Rightarrow> view \<Rightarrow> view" where
  "dlq_put m t reason addedAt v =
     v(dlqStreamName \<mapsto> RStream (strm_add \<lparr>m_id = m,
         m_values = task_ref t @ [(''data'', dlq_doc t reason addedAt (t_error t))]\<rparr>
         (strm_at v dlqStreamName)),
       dlqSetName \<mapsto> RSet (List.insert (t_id t) (set_at v dlqSetName)))"

lemma dlq_keys [simp]:
  "dlqStreamName \<noteq> dlqSetName" "dlqSetName \<noteq> dlqStreamName"
  "taskKey i \<noteq> dlqStreamName" "dlqStreamName \<noteq> taskKey i" "taskKey i \<noteq> dlqSetName" "dlqSetName \<noteq> taskKey i"
  "stream_of q p \<noteq> dlqStreamName" "dlqStreamName \<noteq> stream_of q p"
  "stream_of q p \<noteq> dlqSetName" "dlqSetName \<noteq> stream_of q p"
  by (simp_all add: dlqStreamName_def dlqSetName_def)

lemma List_loop_all: "List_loop 0 i ms = List_loop 0 j ms"
  by (induction ms arbitrary: i j) (auto split: option.splits)

lemma List_loop_append: "List_loop 0 i (ms @ ns) = List_loop 0 i ms @ List_loop 0 0 ns"
proof (induction ms arbitrary: i)
  case Nil
  then show ?case by simp (rule List_loop_all)
qed (auto split: option.splits)

lemma List_loop_bound: "0 < c \<Longrightarrow> length (List_loop c i ms) \<le> nat (c - i)"
proof (induction ms arbitrary: i)
  case (Cons m ms)
  have "length (List_loop c (i + 1) ms) < nat (c - i)" if "i < c"
    using Cons.IH [of "i + 1"] Cons.prems that by linarith
  then show ?case using Cons.prems by (auto split: option.split simp: not_le less_imp_le)
qed simp

lemma read_dlq_doc:
  "storable t \<Longrightarrow> read_dlq_entry (dlq_doc t r a e) = Some \<lparr>de_task = Some (stored t), de_reason = r,
     de_added_at = a, de_orig_error = e, de_message_id = ''''\<rparr>"
  using FromJSON_ToJSON [of t]
  by (simp add: dlq_doc_def field_Cons task_doc_def)

lemma dlq_entries_put:
  "storable t \<Longrightarrow> dlq_entries (dlq_put m t r a v) = dlq_entries v @
     [\<lparr>de_task = Some (stored t), de_reason = r, de_added_at = a, de_orig_error = t_error t, de_message_id = m\<rparr>]"
  by (simp add: dlq_entries_def dlq_put_def List_loop_append field_append field_Cons task_ref_def read_dlq_doc)

lemma dlq_entries_cong: "w dlqStreamName = v dlqStreamName \<Longrightarrow> dlq_entries w = dlq_entries v"
  by (simp add: dlq_entries_def strm_at_def)

lemma marshalable_dlq_doc: "storable t \<Longrightarrow> marshalable (dlq_doc t r a e)"
  by (simp add: dlq_doc_def marshalable_task_doc storable_def)

text \<open>Removing a message removes its entry.\<close>

lemma List_loop_remove:
  "List_loop 0 0 (filter (\<lambda>m. m_id m \<noteq> i) ms) = filter (\<lambda>e. de_message_id e \<noteq> i) (List_loop 0 0 ms)"
  by (induction ms) (auto simp: List_loop_all [of 1 _ 0] split: option.splits)

text \<open>The task as it is when it enters the queue.\<close>

definition dead :: "int \<Rightarrow> task \<Rightarrow> task" where
  "dead now t = (if CanTransitionTo (t_state t) StateDeadLetter then enter_state now StateDeadLetter t
     else t\<lparr>t_state := StateDeadLetter, t_updated_at := now\<rparr>)"

lemma dead_simps [simp]:
  "t_state (dead now t) = StateDeadLetter" "t_id (dead now t) = t_id t" "t_type (dead now t) = t_type t"
  "t_payload (dead now t) = t_payload t" "t_priority (dead now t) = t_priority t"
  "t_attempts (dead now t) = t_attempts t" "t_error (dead now t) = t_error t"
  "t_max_retries (dead now t) = t_max_retries t" "t_result (dead now t) = t_result t"
  "t_timeout (dead now t) = t_timeout t"
  by (simp_all add: dead_def)

lemma storable_dead: "storable t \<Longrightarrow> storable (dead now t)"
  by (simp add: storable_def)

context redis
begin

lemma DLQ_List_wp:
  assumes "\<And>s'. \<alpha> s' = \<alpha> s \<Longrightarrow> Q (Inr (dlq_entries (\<alpha> s))) s'"
    and "\<And>e s'. \<alpha> s' = \<alpha> s \<Longrightarrow> Q (Inl (Wrapf ''failed to read DLQ'' e)) s'"
  shows "wp (DLQ_List E 0 '''') Q s"
  unfolding DLQ_List_def Let_def wp_bind
  by (simp, rule xrange_wp) (use assms in \<open>auto simp: wp_eqs dlq_entries_def\<close>)

lemma DLQ_Remove_wp:
  assumes "\<And>r s'. same_but {dlqStreamName, dlqSetName} (\<alpha> s) (\<alpha> s') \<Longrightarrow> Q r s'"
  shows "wp (DLQ_Remove E i m) Q s"
proof -
  have srem: "wp (r_srem E dlqSetName i) (\<lambda>_. Q None) s1"
    if "same_but {dlqStreamName, dlqSetName} (\<alpha> s) (\<alpha> s1)" for s1
    by (rule srem_wp) (use that in \<open>auto simp: wp_return intro!: assms split: if_splits\<close>)
  have xdel: "wp (r_xdel E dlqStreamName m) (\<lambda>r. wp (case err_of r of
      Some e \<Rightarrow> ret (Some (Wrapf ''failed to remove from DLQ stream'' e))
    | None \<Rightarrow> do { _ \<leftarrow> r_srem E dlqSetName i; ret None }) Q) s"
    by (rule xdel_wp) (auto simp: wp_return wp_bind intro!: srem assms split: if_splits)
  show ?thesis unfolding DLQ_Remove_def wp_bind using xdel srem by (simp add: wp_return wp_bind)
qed

end

context redis_up
begin

lemma DLQ_store_up:
  assumes "U s" "storable t" "strm_ok (\<alpha> s) dlqStreamName" "set_ok (\<alpha> s) dlqSetName"
    and "\<And>addedAt m s'. U s' \<Longrightarrow> \<alpha> s' = dlq_put m t reason addedAt (\<alpha> s) \<Longrightarrow> Q None s'"
  shows "wp (DLQ_store E t reason) Q s"
  unfolding DLQ_store_def Let_def wp_bind
proof (rule now_up [OF assms(1)], simp only: marshalable_dlq_doc [OF assms(2)] not_True_eq_False if_False wp_bind,
    rule xadd_up, assumption, goal_cases)
  case (2 addedAt s1 m s2)
  show ?case unfolding sum.case wp_bind
    by (rule sadd_up [OF 2(4)])
      (use 2 assms(4) in \<open>auto simp: wp_return set_ok_def dlq_put_def intro!: assms(5)\<close>)
qed (use assms in auto)

lemma DLQ_Add_up:
  assumes "U s" "storable t" "strm_ok (\<alpha> s) dlqStreamName" "set_ok (\<alpha> s) dlqSetName"
    and "\<And>now addedAt m s'. U s' \<Longrightarrow> \<alpha> s' = dlq_put m (dead now t) reason addedAt (\<alpha> s) \<Longrightarrow>
      Q (dead now t, None) s'"
  shows "wp (DLQ_Add E t reason) Q s"
proof -
  have store: "wp (DLQ_store E (dead now t) reason) (\<lambda>err. wp (ret (dead now t, err)) Q) s1"
    if "U s1" "\<alpha> s1 = \<alpha> s" for s1 now
    by (rule DLQ_store_up [OF that(1) storable_dead [OF assms(2)]])
      (use that assms in \<open>auto simp: wp_return\<close>)
  show ?thesis
  proof (cases "CanTransitionTo (t_state t) StateDeadLetter")
    case True
    show ?thesis unfolding DLQ_Add_def MoveToDLQ_def wp_bind
      by (rule Transition_up [OF assms(1) True])
        (use store True in \<open>simp add: wp_bind wp_return dead_def\<close>)
  next
    case False
    have "wp (e_now E) (\<lambda>now. wp (DLQ_store E (t\<lparr>t_state := StateDeadLetter, t_updated_at := now\<rparr>) reason)
        (\<lambda>err. wp (ret (t\<lparr>t_state := StateDeadLetter, t_updated_at := now\<rparr>, err)) Q)) s"
      by (rule now_up [OF assms(1)]) (use store False in \<open>simp add: dead_def\<close>)
    then show ?thesis using False
      by (simp add: DLQ_Add_def MoveToDLQ_def Transition_def wp_bind wp_return)
  qed
qed

end

section \<open>Properties\<close>

text \<open>The limit cuts the messages off before they are read.\<close>

lemma List_loop_take: "0 < c \<Longrightarrow> List_loop c i ms = List_loop 0 0 (take (nat (c - i)) ms)"
proof (induction ms arbitrary: i)
  case (Cons m ms)
  show ?case
  proof (cases "i < c")
    case True
    then have "nat (c - i) = Suc (nat (c - (i + 1)))" by simp
    then show ?thesis using Cons True by (simp add: List_loop_all [of 1 _ 0] split: option.split)
  qed (use Cons.prems in simp)
qed simp

lemma List_loop_prefix: "0 < c \<Longrightarrow> \<exists>rest. List_loop 0 0 ms = List_loop c 0 ms @ rest"
  using List_loop_append [of 0 "take (nat c) ms" "drop (nat c) ms"] by (simp add: List_loop_take)

text \<open>
  Listing with a positive limit returns at most that many entries, and they are the first ones
  of the queue; the server is left alone.
\<close>

theorem dlq_list_limit:
  assumes "redis E \<alpha>" "0 < count" "run_state (DLQ_List E count '''') s = (Inr es, s')"
  shows "length es \<le> nat count \<and> (\<exists>rest. dlq_entries (\<alpha> s) = es @ rest) \<and> \<alpha> s' = \<alpha> s"
proof -
  have "wp (DLQ_List E count '''') (\<lambda>r s'. \<alpha> s' = \<alpha> s \<and>
      (\<forall>es. r = Inr es \<longrightarrow> es = List_loop count 0 (s_entries (strm_at (\<alpha> s) dlqStreamName)))) s"
    unfolding DLQ_List_def Let_def wp_bind
    by (simp, rule redis.xrange_wp [OF assms(1)]) (simp_all add: wp_eqs)
  then have es: "es = List_loop count 0 (s_entries (strm_at (\<alpha> s) dlqStreamName))" "\<alpha> s' = \<alpha> s"
    using wp_runD [OF _ assms(3)] by blast+
  then show ?thesis using assms(2) List_loop_bound [of count 0] List_loop_prefix
    by (auto simp: dlq_entries_def)
qed

definition dead_mem :: mem where
  "dead_mem = snd (run_state (for_each [''a'', ''b''] (\<lambda>i. do {
     _ \<leftarrow> DLQ_Add mem_env (sample_task i PriorityLow StateFailed) ''reason''; ret () })) sample_mem)"

theorem dlq_list_limit_witness:
  "\<exists>e rest. dlq_entries (mem_view dead_mem) = e # rest \<and> map_option t_id (de_task e) = Some ''a''"
proof -
  obtain e where e: "fst (run_state (DLQ_List mem_env 1 '''') dead_mem) = Inr [e]"
    "map_option t_id (de_task e) = Some ''a''"
  proof -
    have "(case fst (run_state (DLQ_List mem_env 1 '''') dead_mem) of Inr [e] \<Rightarrow>
        map_option t_id (de_task e) = Some ''a'' | _ \<Rightarrow> False)" by code_simp
    then show ?thesis using that by (auto split: sum.splits list.splits)
  qed
  from dlq_list_limit [OF mem.redis_axioms _ run_fstI [OF e(1)]] show ?thesis using e(2) by auto
qed

text \<open>
  C32: When the server is up, adding a task to the dead letter queue and listing it gives the old
  entries followed by the new one: the task in state dead letter with its error, the reason, and a
  message ID; and the task's ID is in the lookup set.
\<close>

theorem dlq_add_list:
  assumes "redis_up E \<alpha> U" "U s" "storable t" "strm_ok (\<alpha> s) dlqStreamName" "set_ok (\<alpha> s) dlqSetName"
    and "run_state (do { r \<leftarrow> DLQ_Add E t reason; l \<leftarrow> DLQ_List E 0 ''''; ret (r, l) }) s = (((t', err), Inr es), s')"
  shows "err = None \<and> t_state t' = StateDeadLetter \<and> t_id t' = t_id t \<and>
    (\<exists>addedAt m. es = dlq_entries (\<alpha> s) @ [\<lparr>de_task = Some (stored t'), de_reason = reason,
       de_added_at = addedAt, de_orig_error = t_error t, de_message_id = m\<rparr>]) \<and>
    t_id t \<in> set (set_at (\<alpha> s') dlqSetName)"
proof -
  have r: "redis E \<alpha>" using assms(1) by (simp add: redis_up_def)
  let ?post = "\<lambda>((t', err), l) s'. l = Inr es \<longrightarrow> err = None \<and> t_state t' = StateDeadLetter \<and> t_id t' = t_id t \<and>
    (\<exists>addedAt m. es = dlq_entries (\<alpha> s) @ [\<lparr>de_task = Some (stored t'), de_reason = reason,
       de_added_at = addedAt, de_orig_error = t_error t, de_message_id = m\<rparr>]) \<and>
    t_id t \<in> set (set_at (\<alpha> s') dlqSetName)"
  have put: "t_id t \<in> set (set_at (dlq_put m (dead now t) reason a v) dlqSetName)" for m now a v
    by (simp add: dlq_put_def)
  have "wp (do { r \<leftarrow> DLQ_Add E t reason; l \<leftarrow> DLQ_List E 0 ''''; ret (r, l) }) ?post s"
    unfolding wp_bind
    by (rule redis_up.DLQ_Add_up [OF assms(1-5)], rule redis.DLQ_List_wp [OF r])
      (auto simp: wp_return dlq_entries_put [OF storable_dead [OF assms(3)]] put)
  from wp_runD [OF this assms(6)] show ?thesis by simp
qed

theorem dlq_add_list_witness:
  "''c'' \<in> set (set_at (mem_view (snd (run_state (do {
     r \<leftarrow> DLQ_Add mem_env (sample_task ''c'' PriorityLow StateFailed) ''why'';
     l \<leftarrow> DLQ_List mem_env 0 ''''; ret (r, l) }) dead_mem))) dlqSetName)"
proof -
  let ?t = "sample_task ''c'' PriorityLow StateFailed"
  let ?m = "do { r \<leftarrow> DLQ_Add mem_env ?t ''why''; l \<leftarrow> DLQ_List mem_env 0 ''''; ret (r, l) }"
  have "(case fst (run_state ?m dead_mem) of (_, Inr es) \<Rightarrow> length es = 3 | _ \<Rightarrow> False)" by code_simp
  then obtain t' err es where "fst (run_state ?m dead_mem) = ((t', err), Inr es)"
    by (auto split: prod.splits sum.splits)
  note run = run_fstI [OF this]
  have up: "mem_up 0 dead_mem" "strm_ok (mem_view dead_mem) dlqStreamName" "set_ok (mem_view dead_mem) dlqSetName"
    by code_simp+
  from dlq_add_list [OF memup.redis_up_axioms up(1) sample_task_storable up(2,3) run] show ?thesis
    by (simp add: sample_task_def)
qed


text \<open>
  A task is back in the queue: stored as pending, with a reference in the stream of its priority.
\<close>

definition requeued :: "redis_queue \<Rightarrow> view \<Rightarrow> string \<Rightarrow> bool" where
  "requeued q v i \<longleftrightarrow> (\<exists>t. task_at v i = Some t \<and> t_state t = StatePending \<and> t_attempts t = 0 \<and>
     (\<exists>m \<in> set (s_entries (strm_at v (stream_of q (t_priority t)))). ref_id m = Some i))"

lemma requeued_push:
  "queue_ok q \<Longrightarrow> storable t \<Longrightarrow> t_state t = StatePending \<Longrightarrow> t_attempts t = 0 \<Longrightarrow>
   requeued q (push_ref (stream_of q (t_priority t)) i t (put_task t ttl v)) (t_id t)"
  unfolding requeued_def
  by (rule exI [of _ "stored t"], simp add: task_at_push,
      rule bexI [of _ "\<lparr>m_id = i, m_values = task_ref t\<rparr>"])
    (simp_all only: ref_id_task_ref, simp add: push_ref_def)

lemma requeued_cong:
  "same_but {dlqStreamName, dlqSetName} v w \<Longrightarrow> requeued q v i \<Longrightarrow> requeued q w i"
proof -
  assume "same_but {dlqStreamName, dlqSetName} v w"
  then have "task_at w i = task_at v i" "strm_at w (stream_of q p) = strm_at v (stream_of q p)" for p
    by (auto simp: same_but_def strm_at_def intro!: task_at_cong)
  then show "requeued q v i \<Longrightarrow> requeued q w i" by (simp add: requeued_def)
qed

lemma find_entry_Some: "find_entry i es = Inr (Some e) \<Longrightarrow> e \<in> set es \<and> (\<exists>t. de_task e = Some t \<and> t_id t = i)"
  by (induction es) (auto split: option.splits if_splits)

context redis
begin

lemma DLQ_Retry_safe:
  assumes q: "queue_ok q" and es: "\<forall>e \<in> List.set (dlq_entries (\<alpha> s)). \<forall>t. de_task e = Some t \<longrightarrow> storable t"
  shows "wp (DLQ_Retry E q i m) (\<lambda>r s'. dlq_entries (\<alpha> s') = dlq_entries (\<alpha> s) \<or> requeued q (\<alpha> s') i) s"
proof -
  let ?Q = "\<lambda>r s'. dlq_entries (\<alpha> s') = dlq_entries (\<alpha> s) \<or> requeued q (\<alpha> s') i"
  let ?t = "\<lambda>now t. enter_state now StatePending (reset_task t)"
  have enqueue: "wp (Enqueue E q (?t now t)) (\<lambda>err. wp (case err of
        Some e \<Rightarrow> ret (Some (Wrapf ''failed to enqueue task'' e))
      | None \<Rightarrow> DLQ_Remove E i mid) ?Q) s1"
    if "\<alpha> s1 = \<alpha> s" "storable t" "t_id t = i" for now t mid s1
  proof (rule Enqueue_wp, goal_cases)
    case (1 j s2)
    have "storable (?t now t)" "t_state (?t now t) = StatePending" "t_attempts (?t now t) = 0" "t_id (?t now t) = i"
      using that by (auto simp: reset_task_def storable_def in_int64_def [of 0])
    then have "requeued q (\<alpha> s2) i" using requeued_push [OF q] 1(5) by metis
    then show ?case by (auto intro!: DLQ_Remove_wp simp: requeued_cong)
  next
    case (2 e s2)
    have "dlq_entries (\<alpha> s2) = dlq_entries (\<alpha> s)"
      using 2 that(1) by (intro dlq_entries_cong) (simp add: enq_frame_def same_but_def)
    then show ?case by (simp add: wp_return)
  qed
  show ?thesis unfolding DLQ_Retry_def wp_bind
  proof (rule DLQ_List_wp, goal_cases)
    case (1 s1)
    show ?case
    proof (cases "find_entry i (dlq_entries (\<alpha> s))")
      case (Inr r)
      show ?thesis
      proof (cases r)
        case (Some e)
        then obtain t where t: "de_task e = Some t" "t_id t = i" "storable t"
          using find_entry_Some [of i "dlq_entries (\<alpha> s)" e] Inr es by blast
        note s1 = 1
        show ?thesis unfolding Inr Some sum.case option.case t(1) Requeue_def wp_bind
          by (rule Transition_silent)
            (use enqueue t(2,3) s1 in \<open>auto simp: wp_return wp_bind wp_case_prod wp_case_option\<close>)
      qed (simp add: Inr 1 wp_return)
    qed (simp add: 1 wp_return)
  qed (simp add: wp_return)
qed

lemma RetryAll_loop_count:
  "wp (RetryAll_loop E q es n) (\<lambda>r s'. \<forall>k. r = Inr k \<longrightarrow> n \<le> k \<and> k \<le> n + int (length es)) s"
proof (induction es arbitrary: n s)
  case (Cons e es)
  have ih: "wp (RetryAll_loop E q es k) (\<lambda>r s'. \<forall>k. r = Inr k \<longrightarrow> n \<le> k \<and> k \<le> n + int (length (e # es))) u"
    if "n \<le> k" "k \<le> n + 1" for k u
    by (rule wp_mono [OF Cons.IH]) (use that in fastforce)
  show ?case
  proof (cases "de_task e")
    case (Some t)
    show ?thesis unfolding RetryAll_loop.simps Some option.case wp_bind
      by (rule wp_runI) (use ih in \<open>auto simp: wp_return split: option.split\<close>)
  qed (simp add: wp_return)
qed (simp add: wp_return)

end

text \<open>
  C14: Retrying a dead letter cannot lose it: after any run, with any errors, either the entries of
  the dead letter queue are unchanged or the task is stored as pending, its attempts reset, with a
  reference to it in its stream.
\<close>

theorem dlq_retry_keeps:
  assumes "redis E \<alpha>" "queue_ok q" "\<forall>e \<in> set (dlq_entries (\<alpha> s)). \<forall>t. de_task e = Some t \<longrightarrow> storable t"
    and "run_state (DLQ_Retry E q i m) s = (r, s')"
  shows "dlq_entries (\<alpha> s') = dlq_entries (\<alpha> s) \<or> requeued q (\<alpha> s') i"
  by (rule wp_runD [OF redis.DLQ_Retry_safe [OF assms(1-3)] assms(4)])

theorem dlq_retry_keeps_witness:
  "requeued sample_queue (mem_view (snd (run_state (DLQ_Retry mem_env sample_queue ''b'' ''11'') dead_mem))) ''b''"
proof -
  have "length (dlq_entries (mem_view (snd (run_state (DLQ_Retry mem_env sample_queue ''b'' ''11'') dead_mem)))) = 1"
    "length (dlq_entries (mem_view dead_mem)) = 2" by code_simp+
  then have "dlq_entries (mem_view (snd (run_state (DLQ_Retry mem_env sample_queue ''b'' ''11'') dead_mem))) \<noteq>
    dlq_entries (mem_view dead_mem)" by auto
  moreover have "list_all (\<lambda>e. case de_task e of None \<Rightarrow> True | Some t \<Rightarrow> storable t) (dlq_entries (mem_view dead_mem))"
    and q: "queue_ok sample_queue" by code_simp+
  then have "\<forall>e \<in> set (dlq_entries (mem_view dead_mem)). \<forall>t. de_task e = Some t \<longrightarrow> storable t"
    by (auto simp: list_all_iff)
  from dlq_retry_keeps [OF mem.redis_axioms q this run_fstI [OF refl]] calculation show ?thesis by blast
qed


text \<open>
  Retrying all dead letters reports a number between 0 and the number of entries.
\<close>

theorem retry_all_count:
  assumes "redis E \<alpha>" "run_state (DLQ_RetryAll E q) s = (Inr n, s')"
  shows "0 \<le> n \<and> n \<le> int (length (dlq_entries (\<alpha> s)))"
proof -
  have "wp (DLQ_RetryAll E q) (\<lambda>r s'. \<forall>k. r = Inr k \<longrightarrow> 0 \<le> k \<and> k \<le> 0 + int (length (dlq_entries (\<alpha> s)))) s"
    unfolding DLQ_RetryAll_def wp_bind
    by (rule redis.DLQ_List_wp [OF assms(1)])
      (auto simp: wp_return redis.RetryAll_loop_count [OF assms(1), of q _ 0, simplified])
  from wp_runD [OF this assms(2)] show ?thesis by simp
qed

theorem retry_all_count_witness:
  "fst (run_state (DLQ_RetryAll mem_env sample_queue) dead_mem) = Inr 2 \<and>
   2 \<le> int (length (dlq_entries (mem_view dead_mem)))"
proof -
  have "fst (run_state (DLQ_RetryAll mem_env sample_queue) dead_mem) = Inr 2" by code_simp
  with retry_all_count [OF mem.redis_axioms run_fstI [OF this]] show ?thesis by simp
qed

end
