(* ===== verification/Metrics.thy ===== *)
theory Metrics
  imports World
begin

text \<open>
  \<^verbatim>\<open>internal/metrics/metrics.go\<close>: the Prometheus collectors with their labels, and the
  recording functions the other components call. The registry itself is the Prometheus
  client, reached through the operations of \<open>env\<close>.
\<close>

section \<open>The declared collectors\<close>

datatype metric_kind = Counter | Gauge | Histogram

definition collectors :: "(string \<times> metric_kind \<times> string list) list" where
  "collectors = [
     (''taskqueue_tasks_submitted_total'', Counter, [''type'', ''priority'']),
     (''taskqueue_tasks_completed_total'', Counter, [''type'', ''status'']),
     (''taskqueue_task_duration_seconds'', Histogram, [''type'']),
     (''taskqueue_task_retries_total'', Counter, [''type'']),
     (''taskqueue_queue_depth'', Gauge, [''priority'']),
     (''taskqueue_queue_latency_seconds'', Histogram, [''priority'']),
     (''taskqueue_active_workers'', Gauge, []),
     (''taskqueue_worker_busy_seconds_total'', Counter, [''worker_id'']),
     (''taskqueue_worker_idle_seconds_total'', Counter, [''worker_id'']),
     (''taskqueue_dlq_size'', Gauge, []),
     (''taskqueue_dlq_added_total'', Counter, []),
     (''taskqueue_http_request_duration_seconds'', Histogram, [''method'', ''path'', ''status'']),
     (''taskqueue_http_requests_total'', Counter, [''method'', ''path'', ''status'']),
     (''taskqueue_redis_operation_duration_seconds'', Histogram, [''operation'']),
     (''taskqueue_redis_errors_total'', Counter, [''operation'']),
     (''taskqueue_tasks_retrying_total'', Counter, [''type'']),
     (''taskqueue_tasks_scheduled_total'', Counter, []),
     (''taskqueue_retry_delay_seconds'', Histogram, [''type'']),
     (''taskqueue_scheduled_tasks'', Gauge, []),
     (''taskqueue_orphan_claims_total'', Counter, []),
     (''taskqueue_queue_backlog'', Gauge, [''priority'']),
     (''taskqueue_queue_pending_unacked'', Gauge, [''priority'']),
     (''taskqueue_websocket_connections'', Gauge, []),
     (''taskqueue_websocket_messages_total'', Counter, [''type''])]"

section \<open>Recording\<close>

definition RecordTaskSubmission :: "'s env \<Rightarrow> string \<Rightarrow> string \<Rightarrow> ('s, unit) io" where
  "RecordTaskSubmission E taskType priority =
     m_inc E ''taskqueue_tasks_submitted_total'' [taskType, priority]"

definition RecordTaskCompletion :: "'s env \<Rightarrow> string \<Rightarrow> string \<Rightarrow> f64 \<Rightarrow> ('s, unit) io" where
  "RecordTaskCompletion E taskType status duration = do {
     _ \<leftarrow> m_inc E ''taskqueue_tasks_completed_total'' [taskType, status];
     m_observe E ''taskqueue_task_duration_seconds'' [taskType] duration
   }"

definition RecordTaskRetry :: "'s env \<Rightarrow> string \<Rightarrow> ('s, unit) io" where
  "RecordTaskRetry E taskType = m_inc E ''taskqueue_task_retries_total'' [taskType]"

definition RecordTaskRetrying :: "'s env \<Rightarrow> string \<Rightarrow> f64 \<Rightarrow> ('s, unit) io" where
  "RecordTaskRetrying E taskType delaySeconds = do {
     _ \<leftarrow> m_inc E ''taskqueue_tasks_retrying_total'' [taskType];
     m_observe E ''taskqueue_retry_delay_seconds'' [taskType] delaySeconds
   }"

definition RecordScheduledTask :: "'s env \<Rightarrow> ('s, unit) io" where
  "RecordScheduledTask E = m_inc E ''taskqueue_tasks_scheduled_total'' []"

definition SetScheduledTasksGauge :: "'s env \<Rightarrow> f64 \<Rightarrow> ('s, unit) io" where
  "SetScheduledTasksGauge E count = m_set E ''taskqueue_scheduled_tasks'' [] count"

definition RecordOrphanClaim :: "'s env \<Rightarrow> ('s, unit) io" where
  "RecordOrphanClaim E = m_inc E ''taskqueue_orphan_claims_total'' []"

definition UpdateQueueBacklog :: "'s env \<Rightarrow> string \<Rightarrow> f64 \<Rightarrow> ('s, unit) io" where
  "UpdateQueueBacklog E priority count = m_set E ''taskqueue_queue_backlog'' [priority] count"

definition UpdateQueuePendingUnacked :: "'s env \<Rightarrow> string \<Rightarrow> f64 \<Rightarrow> ('s, unit) io" where
  "UpdateQueuePendingUnacked E priority count =
     m_set E ''taskqueue_queue_pending_unacked'' [priority] count"

definition UpdateQueueDepth :: "'s env \<Rightarrow> string \<Rightarrow> f64 \<Rightarrow> ('s, unit) io" where
  "UpdateQueueDepth E priority depth = m_set E ''taskqueue_queue_depth'' [priority] depth"

definition RecordQueueLatency :: "'s env \<Rightarrow> string \<Rightarrow> f64 \<Rightarrow> ('s, unit) io" where
  "RecordQueueLatency E priority latency =
     m_observe E ''taskqueue_queue_latency_seconds'' [priority] latency"

definition SetActiveWorkers :: "'s env \<Rightarrow> f64 \<Rightarrow> ('s, unit) io" where
  "SetActiveWorkers E count = m_set E ''taskqueue_active_workers'' [] count"

definition RecordWorkerBusyTime :: "'s env \<Rightarrow> string \<Rightarrow> f64 \<Rightarrow> ('s, unit) io" where
  "RecordWorkerBusyTime E workerID duration =
     m_add E ''taskqueue_worker_busy_seconds_total'' [workerID] duration"

definition SetDLQSize :: "'s env \<Rightarrow> f64 \<Rightarrow> ('s, unit) io" where
  "SetDLQSize E n = m_set E ''taskqueue_dlq_size'' [] n"

definition IncrementDLQAdded :: "'s env \<Rightarrow> ('s, unit) io" where
  "IncrementDLQAdded E = m_inc E ''taskqueue_dlq_added_total'' []"

definition RecordHTTPRequest :: "'s env \<Rightarrow> string \<Rightarrow> string \<Rightarrow> string \<Rightarrow> f64 \<Rightarrow> ('s, unit) io" where
  "RecordHTTPRequest E meth path status duration = do {
     _ \<leftarrow> m_observe E ''taskqueue_http_request_duration_seconds'' [meth, path, status] duration;
     m_inc E ''taskqueue_http_requests_total'' [meth, path, status]
   }"

definition RecordRedisOperation :: "'s env \<Rightarrow> string \<Rightarrow> f64 \<Rightarrow> ('s, unit) io" where
  "RecordRedisOperation E operation duration =
     m_observe E ''taskqueue_redis_operation_duration_seconds'' [operation] duration"

definition RecordRedisError :: "'s env \<Rightarrow> string \<Rightarrow> ('s, unit) io" where
  "RecordRedisError E operation = m_inc E ''taskqueue_redis_errors_total'' [operation]"

definition SetWebSocketConnections :: "'s env \<Rightarrow> f64 \<Rightarrow> ('s, unit) io" where
  "SetWebSocketConnections E count = m_set E ''taskqueue_websocket_connections'' [] count"

definition RecordWebSocketMessage :: "'s env \<Rightarrow> string \<Rightarrow> ('s, unit) io" where
  "RecordWebSocketMessage E msgType = m_inc E ''taskqueue_websocket_messages_total'' [msgType]"

lemmas recorders = RecordTaskSubmission_def RecordTaskCompletion_def RecordTaskRetry_def
  RecordTaskRetrying_def RecordScheduledTask_def SetScheduledTasksGauge_def RecordOrphanClaim_def
  UpdateQueueBacklog_def UpdateQueuePendingUnacked_def UpdateQueueDepth_def RecordQueueLatency_def
  SetActiveWorkers_def RecordWorkerBusyTime_def SetDLQSize_def IncrementDLQAdded_def
  RecordHTTPRequest_def RecordRedisOperation_def RecordRedisError_def SetWebSocketConnections_def
  RecordWebSocketMessage_def

text \<open>Recording leaves the Redis server alone.\<close>

context redis
begin

lemmas record_wp = inc_wp add_wp set_gauge_wp observe_wp

end

section \<open>Label discipline\<close>

text \<open>
  \<^verbatim>\<open>WithLabelValues\<close> panics when the number of values is not the number of declared labels.
  To state that no recorder does this, the calls are logged: name, kind and number of values.
\<close>

type_synonym metric_log = "(string \<times> metric_kind \<times> nat) list"

definition log_call :: "metric_kind \<Rightarrow> string \<Rightarrow> string list \<Rightarrow> (metric_log, unit) io" where
  "log_call kind nm ls = State (\<lambda>l. ((), l @ [(nm, kind, length ls)]))"

text \<open>A call the registry accepts.\<close>

definition accepted :: "string \<times> metric_kind \<times> nat \<Rightarrow> bool" where
  "accepted c = (case c of (nm, kind, n) \<Rightarrow>
     (case map_of collectors nm of
        None \<Rightarrow> False
      | Some (k, labels) \<Rightarrow> k = kind \<and> length labels = n))"

text \<open>An environment whose metric operations log.\<close>

definition logging :: "metric_log env \<Rightarrow> metric_log env" where
  "logging E = E\<lparr>m_inc := log_call Counter, m_add := (\<lambda>nm ls x. log_call Counter nm ls),
     m_set := (\<lambda>nm ls x. log_call Gauge nm ls), m_observe := (\<lambda>nm ls x. log_call Histogram nm ls)\<rparr>"

datatype recording =
    TaskSubmission string string
  | TaskCompletion string string f64
  | TaskRetry string
  | TaskRetrying string f64
  | ScheduledTask
  | ScheduledGauge f64
  | OrphanClaim
  | QueueBacklog string f64
  | PendingUnacked string f64
  | QueueDepth string f64
  | QueueLatency string f64
  | ActiveWorkers f64
  | BusyTime string f64
  | DLQSize f64
  | DLQAdded
  | HTTPRequest string string string f64
  | RedisOperation string f64
  | RedisError string
  | Connections f64
  | WSMessage string

fun record_metric :: "'s env \<Rightarrow> recording \<Rightarrow> ('s, unit) io" where
  "record_metric E (TaskSubmission a b) = RecordTaskSubmission E a b"
| "record_metric E (TaskCompletion a b x) = RecordTaskCompletion E a b x"
| "record_metric E (TaskRetry a) = RecordTaskRetry E a"
| "record_metric E (TaskRetrying a x) = RecordTaskRetrying E a x"
| "record_metric E ScheduledTask = RecordScheduledTask E"
| "record_metric E (ScheduledGauge x) = SetScheduledTasksGauge E x"
| "record_metric E OrphanClaim = RecordOrphanClaim E"
| "record_metric E (QueueBacklog a x) = UpdateQueueBacklog E a x"
| "record_metric E (PendingUnacked a x) = UpdateQueuePendingUnacked E a x"
| "record_metric E (QueueDepth a x) = UpdateQueueDepth E a x"
| "record_metric E (QueueLatency a x) = RecordQueueLatency E a x"
| "record_metric E (ActiveWorkers x) = SetActiveWorkers E x"
| "record_metric E (BusyTime a x) = RecordWorkerBusyTime E a x"
| "record_metric E (DLQSize x) = SetDLQSize E x"
| "record_metric E DLQAdded = IncrementDLQAdded E"
| "record_metric E (HTTPRequest a b c x) = RecordHTTPRequest E a b c x"
| "record_metric E (RedisOperation a x) = RecordRedisOperation E a x"
| "record_metric E (RedisError a) = RecordRedisError E a"
| "record_metric E (Connections x) = SetWebSocketConnections E x"
| "record_metric E (WSMessage a) = RecordWebSocketMessage E a"

text \<open>
  No recording function can panic in the metrics library: every call it makes names a declared
  collector of the right kind and passes exactly as many label values as that collector declares.
\<close>

theorem record_metric_accepted:
  "\<exists>cs. run_state (record_metric (logging E) r) l = ((), l @ cs) \<and> cs \<noteq> [] \<and> list_all accepted cs"
  by (cases r) (simp_all add: logging_def recorders log_call_def accepted_def collectors_def)

context redis_up
begin

lemmas record_up = inc_up add_up set_gauge_up observe_up

end

end
