(* ===== verification/Events.thy ===== *)
theory Events
  imports TaskModel
begin

text \<open>
  \<^verbatim>\<open>internal/events\<close>: event types, event values with their JSON form, and publishing over
  Redis Pub/Sub and receiving them.
\<close>

section \<open>Events\<close>

datatype event_type =
    EventTaskSubmitted
  | EventTaskStarted
  | EventTaskCompleted
  | EventTaskFailed
  | EventTaskRetrying
  | EventWorkerJoined
  | EventWorkerLeft
  | EventWorkerPaused
  | EventWorkerResumed
  | EventQueueDepth
  | EventSystemMetrics

fun event_name :: "event_type \<Rightarrow> string" where
  "event_name EventTaskSubmitted = ''task.submitted''"
| "event_name EventTaskStarted = ''task.started''"
| "event_name EventTaskCompleted = ''task.completed''"
| "event_name EventTaskFailed = ''task.failed''"
| "event_name EventTaskRetrying = ''task.retrying''"
| "event_name EventWorkerJoined = ''worker.joined''"
| "event_name EventWorkerLeft = ''worker.left''"
| "event_name EventWorkerPaused = ''worker.paused''"
| "event_name EventWorkerResumed = ''worker.resumed''"
| "event_name EventQueueDepth = ''queue.depth''"
| "event_name EventSystemMetrics = ''system.metrics''"

text \<open>The type of a received event is any text.\<close>

record event =
  ev_type :: string
  ev_timestamp :: int
  ev_data :: gmap

definition NewEvent :: "'s env \<Rightarrow> string \<Rightarrow> gmap \<Rightarrow> ('s, event) io" where
  "NewEvent E eventType data = do {
     now \<leftarrow> e_now E;
     ret \<lparr>ev_type = eventType, ev_timestamp = now, ev_data = data\<rparr>
   }"

definition event_doc :: "event \<Rightarrow> gval" where
  "event_doc e = GObj [(''type'', GStr (ev_type e)), (''timestamp'', GTime (ev_timestamp e)),
     (''data'', gmap_doc (ev_data e))]"

definition Event_ToJSON :: "event \<Rightarrow> gval res" where
  "Event_ToJSON e = (if marshalable (event_doc e) then Inr (event_doc e) else Inl ErrJSON)"

definition read_event :: "(string \<times> gval) list \<Rightarrow> event option" where
  "read_event fs = do {
     ty \<leftarrow> read_string (field fs ''type'');
     ts \<leftarrow> read_time (field fs ''timestamp'');
     dt \<leftarrow> read_gmap (field fs ''data'');
     Some \<lparr>ev_type = ty, ev_timestamp = ts, ev_data = dt\<rparr>
   }"

fun Event_FromJSON :: "gval \<Rightarrow> event res" where
  "Event_FromJSON (GObj fs) = (case read_event fs of None \<Rightarrow> Inl ErrJSON | Some e \<Rightarrow> Inr e)"
| "Event_FromJSON GNull = (case read_event [] of None \<Rightarrow> Inl ErrJSON | Some e \<Rightarrow> Inr e)"
| "Event_FromJSON _ = Inl ErrJSON"

text \<open>
  An event whose data can be encoded comes back from its JSON form unchanged.
\<close>

theorem event_roundtrip:
  assumes "gmap_ok (ev_data e)"
  shows "\<exists>d. Event_ToJSON e = Inr d \<and> Event_FromJSON d = Inr e"
  using assms
  by (simp add: Event_ToJSON_def event_doc_def gmap_ok_def read_event_def field_Cons read_omitted)

theorem event_roundtrip_witness:
  "\<exists>d. Event_ToJSON \<lparr>ev_type = ''task.started'', ev_timestamp = 5, ev_data = Some [(''n'', GNum 1)]\<rparr> = Inr d \<and>
     Event_FromJSON d = Inr \<lparr>ev_type = ''task.started'', ev_timestamp = 5, ev_data = Some [(''n'', GNum 1)]\<rparr>"
  by (rule event_roundtrip) (simp add: gmap_ok_def gmap_doc_def)

section \<open>Event data\<close>

definition TaskEventData :: "string \<Rightarrow> string \<Rightarrow> string \<Rightarrow> (string \<times> gval) list \<Rightarrow> (string \<times> gval) list" where
  "TaskEventData taskID taskType priority extra = set_fields extra
     [(''task_id'', GStr taskID), (''type'', GStr taskType), (''priority'', GStr priority)]"

definition WorkerEventData :: "string \<Rightarrow> string \<Rightarrow> (string \<times> gval) list \<Rightarrow> (string \<times> gval) list" where
  "WorkerEventData workerID state extra = set_fields extra
     [(''worker_id'', GStr workerID), (''state'', GStr state)]"

definition QueueDepthData :: "(string \<times> int) list \<Rightarrow> (string \<times> gval) list" where
  "QueueDepthData depths = [(''depths'', GObj (map (\<lambda>(k, n). (k, GNum (of_int n))) depths))]"

section \<open>Publishing\<close>

definition channelPrefix :: string where
  "channelPrefix = ''taskqueue:events:''"

definition channelName :: "string \<Rightarrow> string" where
  "channelName eventType = channelPrefix @ eventType"

definition Publish :: "'s env \<Rightarrow> event \<Rightarrow> ('s, error option) io" where
  "Publish E e = (case Event_ToJSON e of
     Inl err \<Rightarrow> ret (Some (Wrapf ''failed to serialize event'' err))
   | Inr data \<Rightarrow> do {
       r \<leftarrow> r_publish E (channelName (ev_type e)) data;
       case r of
         Inl err \<Rightarrow> ret (Some (Wrapf ''failed to publish event'' err))
       | Inr _ \<Rightarrow> ret None
     })"

definition PublishTaskEvent :: "'s env \<Rightarrow> string \<Rightarrow> string \<Rightarrow> string \<Rightarrow> string \<Rightarrow> (string \<times> gval) list \<Rightarrow>
    ('s, error option) io" where
  "PublishTaskEvent E eventType taskID taskType priority extra = do {
     e \<leftarrow> NewEvent E eventType (Some (TaskEventData taskID taskType priority extra));
     Publish E e
   }"

definition PublishWorkerEvent :: "'s env \<Rightarrow> string \<Rightarrow> string \<Rightarrow> string \<Rightarrow> (string \<times> gval) list \<Rightarrow>
    ('s, error option) io" where
  "PublishWorkerEvent E eventType workerID state extra = do {
     e \<leftarrow> NewEvent E eventType (Some (WorkerEventData workerID state extra));
     Publish E e
   }"

section \<open>Subscribing\<close>

text \<open>The types a client subscribes to when it wants all, in the order of the source.\<close>

definition all_event_names :: "string list" where
  "all_event_names = map event_name [EventTaskSubmitted, EventTaskStarted, EventTaskCompleted, EventTaskFailed,
     EventTaskRetrying, EventWorkerJoined, EventWorkerLeft, EventWorkerPaused, EventWorkerResumed,
     EventQueueDepth, EventSystemMetrics]"

text \<open>
  The channel a subscription returns: its buffer and whether it is closed. The two Redis calls
  are a parameter: \<open>confirm\<close> subscribes and waits for the confirmation.
\<close>

record subscription =
  sb_buffer :: "event list"
  sb_closed :: bool

definition eventChCap :: nat where
  "eventChCap = 100"

definition Subscribe :: "(string list \<Rightarrow> ('s, unit res) io) \<Rightarrow> string list \<Rightarrow> ('s, subscription res) io" where
  "Subscribe confirm eventTypes = do {
     r \<leftarrow> confirm (map channelName eventTypes);
     case r of
       Inl err \<Rightarrow> ret (Inl (Wrapf ''failed to subscribe'' err))
     | Inr _ \<Rightarrow> ret (Inr \<lparr>sb_buffer = [], sb_closed = False\<rparr>)
   }"

definition SubscribeAll :: "(string \<Rightarrow> ('s, unit res) io) \<Rightarrow> ('s, subscription res) io" where
  "SubscribeAll confirm = do {
     r \<leftarrow> confirm (channelPrefix @ ''*'');
     case r of
       Inl err \<Rightarrow> ret (Inl (Wrapf ''failed to subscribe'' err))
     | Inr _ \<Rightarrow> ret (Inr \<lparr>sb_buffer = [], sb_closed = False\<rparr>)
   }"

text \<open>
  The goroutine behind it: a message is parsed and offered to the buffer, and dropped when it is no
  event or the buffer is full. The channel is closed at the end of the context or of the messages.
\<close>

definition offer :: "gval \<Rightarrow> subscription \<Rightarrow> subscription" where
  "offer payload sb = (case Event_FromJSON payload of
     Inl err \<Rightarrow> sb
   | Inr event \<Rightarrow> if length (sb_buffer sb) < eventChCap then sb\<lparr>sb_buffer := sb_buffer sb @ [event]\<rparr> else sb)"

definition end_subscription :: "subscription \<Rightarrow> subscription" where
  "end_subscription sb = sb\<lparr>sb_closed := True\<rparr>"

lemma offer_bound: "length (sb_buffer sb) \<le> eventChCap \<Longrightarrow> length (sb_buffer (offer p sb)) \<le> eventChCap"
  by (simp add: offer_def split: sum.split)

lemma offer_closed [simp]: "sb_closed (offer p sb) = sb_closed sb"
  by (simp add: offer_def split: sum.split)

text \<open>Publishing never changes what the server stores.\<close>

context redis
begin

lemma Publish_wp: "(\<And>r s'. \<alpha> s' = \<alpha> s \<Longrightarrow> Q r s') \<Longrightarrow> wp (Publish E e) Q s"
  by (auto simp: Publish_def wp_eqs split: sum.splits intro!: publish_wp)

lemma NewEvent_wp: "(\<And>e s'. \<alpha> s' = \<alpha> s \<Longrightarrow> Q e s') \<Longrightarrow> wp (NewEvent E ty data) Q s"
  by (auto simp: NewEvent_def wp_eqs intro!: now_wp)

end

context redis_up
begin

lemma Publish_up: "U s \<Longrightarrow> (\<And>r s'. U s' \<Longrightarrow> \<alpha> s' = \<alpha> s \<Longrightarrow> Q r s') \<Longrightarrow> wp (Publish E e) Q s"
  by (auto simp: Publish_def wp_eqs split: sum.splits intro!: publish_up)

lemma NewEvent_up: "U s \<Longrightarrow> (\<And>e s'. U s' \<Longrightarrow> \<alpha> s' = \<alpha> s \<Longrightarrow> Q e s') \<Longrightarrow> wp (NewEvent E ty data) Q s"
  by (auto simp: NewEvent_def wp_eqs intro!: now_up)

end

end
