(* ===== verification/Executor.thy ===== *)
theory Executor
  imports Config
begin

text \<open>
  \<^verbatim>\<open>internal/worker/executor.go\<close>: the table of task handlers, and running one with
  recovery from panics and the mapping of context errors.
\<close>

section \<open>Contexts\<close>

text \<open>
  What a handler can see of its \<^verbatim>\<open>context.Context\<close>: the time left to its deadline and to a
  cancelation of its parent, what \<^verbatim>\<open>select\<close> picks when a timer and the context are both
  ready, and at which poll of a busy loop the context is seen to be done.
\<close>

record ctx =
  cx_deadline :: "int option"
  cx_cancel :: "int option"
  cx_tie :: bool
  cx_seen :: "nat \<Rightarrow> bool"

text \<open>\<^verbatim>\<open>context.WithTimeout(ctx, d)\<close>: the earlier deadline counts.\<close>

definition WithTimeout :: "ctx \<Rightarrow> int \<Rightarrow> ctx" where
  "WithTimeout cx d = cx\<lparr>cx_deadline := (case cx_deadline cx of None \<Rightarrow> Some d | Some e \<Rightarrow> Some (min e d))\<rparr>"

text \<open>When the context ends, and the \<^verbatim>\<open>ctx.Err()\<close> it then has.\<close>

definition done_at :: "ctx \<Rightarrow> (int \<times> error) option" where
  "done_at cx = (case (cx_deadline cx, cx_cancel cx) of
     (None, None) \<Rightarrow> None
   | (Some d, None) \<Rightarrow> Some (d, CtxDeadline)
   | (None, Some c) \<Rightarrow> Some (c, CtxCanceled)
   | (Some d, Some c) \<Rightarrow> if d \<le> c then Some (d, CtxDeadline) else Some (c, CtxCanceled))"

text \<open>
  \<^verbatim>\<open>select\<close> between \<^verbatim>\<open>time.After(d)\<close> and \<^verbatim>\<open>ctx.Done()\<close>: \<open>None\<close> when the timer is
  picked.
\<close>

definition select_after :: "ctx \<Rightarrow> int \<Rightarrow> error option" where
  "select_after cx d = (case done_at cx of None \<Rightarrow> None
   | Some (t, e) \<Rightarrow> if max d 0 < max t 0 \<or> (max d 0 = max t 0 \<and> cx_tie cx) then None else Some e)"

section \<open>Handlers and the executor\<close>

text \<open>
  A handler returns a result map, returns an error, or panics with a value (its \<^verbatim>\<open>%v\<close>
  text). It gets a pointer to the task; none of the handlers of the repository writes through
  it, and the type says so.
\<close>

datatype outcome =
    Returned gmap
  | Failed error
  | Panicked string

type_synonym 's handler = "ctx \<Rightarrow> task \<Rightarrow> ('s, outcome) io"

record 's executor =
  ex_handlers :: "(string \<times> 's handler) list"
  ex_retryPolicy :: retry_policy

definition NewExecutor :: "(string \<times> 's handler) list option \<Rightarrow> retry_policy option \<Rightarrow> 's executor" where
  "NewExecutor handlers retryPolicy =
     \<lparr>ex_handlers = (case handlers of None \<Rightarrow> [] | Some hs \<Rightarrow> hs),
      ex_retryPolicy = (case retryPolicy of None \<Rightarrow> DefaultRetryPolicy | Some p \<Rightarrow> p)\<rparr>"

definition RegisterHandler :: "string \<Rightarrow> 's handler \<Rightarrow> 's executor \<Rightarrow> 's executor" where
  "RegisterHandler taskType handler ex =
     ex\<lparr>ex_handlers := (taskType, handler) # filter (\<lambda>(k, h). k \<noteq> taskType) (ex_handlers ex)\<rparr>"

text \<open>
  \<^verbatim>\<open>Execute\<close>: the deferred recovery turns a panic into an error. The clock readings around
  the call only feed the log.
\<close>

definition Execute :: "'s executor \<Rightarrow> ctx \<Rightarrow> task \<Rightarrow> ('s, gmap res) io" where
  "Execute ex cx t = (case map_of (ex_handlers ex) (t_type t) of
     None \<Rightarrow> ret (Inl ErrHandlerNotFound)
   | Some handler \<Rightarrow> do {
       out \<leftarrow> handler cx t;
       ret (case out of
           Panicked v \<Rightarrow> Inl (Errorf (''handler panicked: '' @ v))
         | Failed err \<Rightarrow>
             if errors_Is err CtxDeadline then Inl ErrTaskTimeout
             else if errors_Is err CtxCanceled then Inl ErrTaskCanceled
             else Inl err
         | Returned result \<Rightarrow> Inr result)
     })"

definition HasHandler :: "'s executor \<Rightarrow> string \<Rightarrow> bool" where
  "HasHandler ex taskType \<longleftrightarrow> map_of (ex_handlers ex) taskType \<noteq> None"

text \<open>The keys of the map; Go's order of them is unspecified.\<close>

definition HandlerTypes :: "'s executor \<Rightarrow> string list" where
  "HandlerTypes ex = map fst (ex_handlers ex)"

section \<open>Facts\<close>

text \<open>The handlers form a map: every type once.\<close>

definition executor_ok :: "'s executor \<Rightarrow> bool" where
  "executor_ok ex \<longleftrightarrow> distinct (HandlerTypes ex)"

lemma map_of_drop: "map_of (filter (\<lambda>(k, h). k \<noteq> ty) hs) k = (if k = ty then None else map_of hs k)"
  by (induction hs) auto

lemma RegisterHandler_lookup:
  "map_of (ex_handlers (RegisterHandler ty h ex)) k =
     (if k = ty then Some h else map_of (ex_handlers ex) k)"
  by (simp add: RegisterHandler_def map_of_drop)

lemma RegisterHandler_ok:
  assumes "executor_ok ex"
  shows "executor_ok (RegisterHandler ty h ex)"
proof -
  have "distinct (map fst (filter (\<lambda>(k, h). k \<noteq> ty) hs)) \<and> ty \<notin> set (map fst (filter (\<lambda>(k, h). k \<noteq> ty) hs))"
    if "distinct (map fst hs)" for hs :: "(string \<times> 'a handler) list"
    using that by (induction hs) auto
  then show ?thesis using assms by (simp add: executor_ok_def HandlerTypes_def RegisterHandler_def)
qed

lemma HasHandler_Register: "HasHandler (RegisterHandler ty h ex) k \<longleftrightarrow> k = ty \<or> HasHandler ex k"
  by (simp add: HasHandler_def RegisterHandler_lookup)

text \<open>An error of a context does not come out of the executor as such.\<close>

lemma Execute_no_ctx_error:
  "run_state (Execute ex cx t) s = (Inl e, s') \<Longrightarrow> \<not> errors_Is e CtxDeadline \<and> \<not> errors_Is e CtxCanceled"
  by (auto simp: Execute_def split: option.splits prod.splits outcome.splits if_splits)

lemma Execute_known:
  assumes "map_of (ex_handlers ex) (t_type t) = Some h" "run_state (h cx t) s = (out, s')"
  shows "run_state (Execute ex cx t) s = (case out of
       Panicked v \<Rightarrow> Inl (Errorf (''handler panicked: '' @ v))
     | Failed err \<Rightarrow> if errors_Is err CtxDeadline then Inl ErrTaskTimeout
         else if errors_Is err CtxCanceled then Inl ErrTaskCanceled else Inl err
     | Returned result \<Rightarrow> Inr result, s')"
  using assms by (simp add: Execute_def)

text \<open>Handlers that leave the queue's server alone, and in an up world leave it up.\<close>

definition quiet :: "('s \<Rightarrow> view) \<Rightarrow> 's executor \<Rightarrow> bool" where
  "quiet \<alpha> ex \<longleftrightarrow> (\<forall>(k, h) \<in> set (ex_handlers ex). \<forall>cx t. silent \<alpha> (h cx t) (\<lambda>_. True))"

definition calm :: "('s \<Rightarrow> bool) \<Rightarrow> 's executor \<Rightarrow> bool" where
  "calm U ex \<longleftrightarrow> (\<forall>(k, h) \<in> set (ex_handlers ex). \<forall>cx t. steady U (h cx t))"

lemma Execute_silent:
  assumes "quiet \<alpha> ex" "\<And>r s'. \<alpha> s' = \<alpha> s \<Longrightarrow> Q r s'"
  shows "wp (Execute ex cx t) Q s"
proof (cases "map_of (ex_handlers ex) (t_type t)")
  case (Some h)
  then have "silent \<alpha> (h cx t) (\<lambda>_. True)"
    using assms(1) map_of_SomeD by (fastforce simp: quiet_def)
  then show ?thesis unfolding Execute_def Some option.case wp_bind
    by (rule silent_wp) (simp add: wp_return assms(2))
qed (simp add: Execute_def wp_eqs assms(2))

lemma Execute_up:
  assumes "quiet \<alpha> ex" "calm U ex" "U s" "\<And>r s'. U s' \<Longrightarrow> \<alpha> s' = \<alpha> s \<Longrightarrow> Q r s'"
  shows "wp (Execute ex cx t) Q s"
proof (cases "map_of (ex_handlers ex) (t_type t)")
  case (Some h)
  then have h: "silent \<alpha> (h cx t) (\<lambda>_. True)" "steady U (h cx t)"
    using assms(1,2) map_of_SomeD by (fastforce simp: quiet_def calm_def)+
  show ?thesis unfolding Execute_def Some option.case wp_bind
    by (rule steady_silent_wp [OF h(2,1) assms(3)]) (simp add: wp_return assms(4))
qed (simp add: Execute_def wp_eqs assms(3,4))

section \<open>Properties\<close>

text \<open>
  Registering a handler makes it the one that runs for its type, whatever was registered
  before, changes nothing for any other type, and keeps one handler per type.
\<close>

theorem register_dispatch:
  "run_state (Execute (RegisterHandler ty h ex) cx t) s =
     (if t_type t = ty then run_state (Execute (NewExecutor (Some [(ty, h)]) None) cx t) s
      else run_state (Execute ex cx t) s) \<and>
   (HasHandler (RegisterHandler ty h ex) k \<longleftrightarrow> k = ty \<or> HasHandler ex k)"
  by (simp add: Execute_def RegisterHandler_lookup HasHandler_Register NewExecutor_def)

text \<open>
  C40: No context error, however deeply a handler wrapped it, comes out of the executor: a deadline
  is reported as a task timeout and a cancelation as a task cancelation; and a panicking handler
  yields an error, never a result.
\<close>

theorem execute_error_mapping:
  assumes "map_of (ex_handlers ex) (t_type t) = Some h" "run_state (h cx t) s = (out, s1)"
    and "run_state (Execute ex cx t) s = (r, s')"
  shows "s' = s1 \<and> (\<forall>e. r = Inl e \<longrightarrow> \<not> errors_Is e CtxDeadline \<and> \<not> errors_Is e CtxCanceled) \<and>
    (\<forall>err. out = Failed err \<longrightarrow> errors_Is err CtxDeadline \<longrightarrow> r = Inl ErrTaskTimeout) \<and>
    (\<forall>err. out = Failed err \<longrightarrow> errors_Is err CtxCanceled \<longrightarrow> \<not> errors_Is err CtxDeadline \<longrightarrow>
       r = Inl ErrTaskCanceled) \<and>
    (\<forall>v. out = Panicked v \<longrightarrow> (\<exists>e. r = Inl e)) \<and> (\<forall>m. out = Returned m \<longrightarrow> r = Inr m)"
proof -
  have r: "r = (case out of
       Panicked v \<Rightarrow> Inl (Errorf (''handler panicked: '' @ v))
     | Failed err \<Rightarrow> if errors_Is err CtxDeadline then Inl ErrTaskTimeout
         else if errors_Is err CtxCanceled then Inl ErrTaskCanceled else Inl err
     | Returned result \<Rightarrow> Inr result)" and s': "s' = s1"
    using Execute_known [OF assms(1,2)] assms(3) by simp_all
  have "\<not> errors_Is e CtxDeadline \<and> \<not> errors_Is e CtxCanceled" if "r = Inl e" for e
    by (rule Execute_no_ctx_error [of ex cx t s e s']) (use assms(3) that in simp)
  then have "\<forall>e. r = Inl e \<longrightarrow> \<not> errors_Is e CtxDeadline \<and> \<not> errors_Is e CtxCanceled" by blast
  moreover have "out = Failed err \<Longrightarrow> errors_Is err CtxDeadline \<Longrightarrow> r = Inl ErrTaskTimeout"
    "out = Failed err \<Longrightarrow> errors_Is err CtxCanceled \<Longrightarrow> \<not> errors_Is err CtxDeadline \<Longrightarrow> r = Inl ErrTaskCanceled"
    "out = Panicked v \<Longrightarrow> \<exists>e. r = Inl e" "out = Returned m \<Longrightarrow> r = Inr m" for err v m
    unfolding r by simp_all
  ultimately show ?thesis using s' by blast
qed

theorem execute_error_mapping_witness:
  "fst (run_state (Execute (NewExecutor (Some [(''echo'', \<lambda>cx t. ret (Failed (Wrapf ''late'' CtxDeadline)))]) None)
     \<lparr>cx_deadline = Some 5, cx_cancel = None, cx_tie = True, cx_seen = (\<lambda>_. True)\<rparr>
     (sample_task ''a'' PriorityLow StateRunning)) (empty_mem [])) = Inl ErrTaskTimeout"
proof -
  let ?h = "\<lambda>cx t. ret (Failed (Wrapf ''late'' CtxDeadline)) :: (mem, outcome) io"
  let ?ex = "NewExecutor (Some [(''echo'', ?h)]) None"
  let ?cx = "\<lparr>cx_deadline = Some 5, cx_cancel = None, cx_tie = True, cx_seen = (\<lambda>_. True)\<rparr>"
  let ?t = "sample_task ''a'' PriorityLow StateRunning"
  have "map_of (ex_handlers ?ex) (t_type ?t) = Some ?h" by (simp add: NewExecutor_def sample_task_def)
  from execute_error_mapping [OF this run_fstI [OF refl] run_fstI [OF refl], of ?cx "empty_mem []"]
  show ?thesis by simp
qed

end
