(* ===== verification/GoFmt.thy ===== *)
theory GoFmt
  imports Prelude
begin

text \<open>
  The texts the code builds from numbers: \<^verbatim>\<open>fmt.Sprintf("%d", n)\<close>, \<^verbatim>\<open>strconv.Itoa\<close>
  and \<^verbatim>\<open>time.Duration.String\<close>.
\<close>

definition digit :: "nat \<Rightarrow> char" where
  "digit n = char_of (48 + n mod 10)"

fun nat_text :: "nat \<Rightarrow> string" where
  "nat_text n = (if n < 10 then [digit n] else nat_text (n div 10) @ [digit n])"

declare nat_text.simps [simp del]

definition int_text :: "int \<Rightarrow> string" where
  "int_text n = (if n < 0 then ''-'' @ nat_text (nat (- n)) else nat_text (nat n))"

text \<open>Reading the digits back gives the number.\<close>

definition digit_value :: "char \<Rightarrow> nat" where
  "digit_value c = of_char c - 48"

definition text_nat :: "string \<Rightarrow> nat" where
  "text_nat s = foldl (\<lambda>n c. 10 * n + digit_value c) 0 s"

lemma digit_value_digit: "digit_value (digit n) = n mod 10"
proof -
  have "48 + n mod 10 < 256" using mod_less_divisor [of 10 n] by linarith
  then show ?thesis by (simp add: digit_value_def digit_def of_char_of)
qed

lemma text_nat_text: "text_nat (nat_text n) = n"
proof (induction n rule: nat_text.induct)
  case (1 n)
  then show ?case
    by (subst nat_text.simps) (auto simp: text_nat_def digit_value_digit)
qed

lemma nat_text_inj: "nat_text m = nat_text n \<Longrightarrow> m = n"
  by (metis text_nat_text)

subsection \<open>Durations\<close>

text \<open>The \<open>prec\<close> digits of a fraction, least significant first, without trailing zeros.\<close>

fun frac_digits :: "nat \<Rightarrow> nat \<Rightarrow> bool \<Rightarrow> string" where
  "frac_digits 0 v print = (if print then ''.'' else '''')"
| "frac_digits (Suc prec) v print =
     (let print' = print \<or> v mod 10 \<noteq> 0
      in frac_digits prec (v div 10) print' @ (if print' then [digit v] else ''''))"

text \<open>\<^verbatim>\<open>fmtFrac\<close>: the text of the fraction and the integer part.\<close>

definition fmtFrac :: "nat \<Rightarrow> nat \<Rightarrow> string \<times> nat" where
  "fmtFrac v prec = (frac_digits prec v False, v div 10 ^ prec)"

definition micro_sign :: string where
  "micro_sign = [CHR 0xC2, CHR 0xB5]"

definition duration_abs :: "nat \<Rightarrow> string" where
  "duration_abs u =
     (if u = 0 then ''0s''
      else if u < 1000000000 then
        (let (prec, unit) = (if u < 1000 then (0, ''ns'') else if u < 1000000 then (3, micro_sign @ ''s'')
               else (6, ''ms''));
             (frac, u) = fmtFrac u prec
         in nat_text u @ frac @ unit)
      else
        (let (frac, u) = fmtFrac u 9;
             secs = nat_text (u mod 60) @ frac @ ''s'';
             u = u div 60
         in if u = 0 then secs
            else (let mins = nat_text (u mod 60) @ ''m'' @ secs; u = u div 60
                  in if u = 0 then mins else nat_text u @ ''h'' @ mins)))"

definition Duration_String :: "int \<Rightarrow> string" where
  "Duration_String d = (if d < 0 then ''-'' @ duration_abs (nat (- d)) else duration_abs (nat d))"

lemma frac_digits_numeral [simp]:
  "frac_digits (numeral k) v print =
     (let print' = print \<or> v mod 10 \<noteq> 0
      in frac_digits (pred_numeral k) (v div 10) print' @ (if print' then [digit v] else ''''))"
  by (subst numeral_eq_Suc) (rule frac_digits.simps(2))

lemma duration_examples:
  "Duration_String (1 * Second) = ''1s''"
  "Duration_String (1500 * Millisecond) = ''1.5s''"
  "Duration_String (90 * Minute) = ''1h30m0s''"
  by (simp_all add: Duration_String_def duration_abs_def fmtFrac_def nat_text.simps digit_def Let_def
      char_of_def bit_Suc_0_iff)

end
