(* ===== verification/TaskHandlers.thy ===== *)
theory TaskHandlers
  imports Executor GoFmt
begin

text \<open>
  The task handlers of the repository: those of \<^verbatim>\<open>internal/worker/handlers/example.go\<close>, and
  the four \<^verbatim>\<open>cmd/worker/main.go\<close> registers.
\<close>

section \<open>Payload access\<close>

text \<open>The type assertions \<^verbatim>\<open>v.(float64)\<close> and \<^verbatim>\<open>v.(map[string]interface{})\<close>.\<close>

fun as_number :: "gval option \<Rightarrow> f64 option" where
  "as_number (Some (GNum r)) = Some (Fin r)"
| "as_number _ = None"

fun as_map :: "gval option \<Rightarrow> gmap option" where
  "as_map (Some (GObj fs)) = Some (Some fs)"
| "as_map _ = None"

text \<open>\<^verbatim>\<open>time.Duration(d) * unit\<close> for a \<^verbatim>\<open>float64\<close>.\<close>

definition duration_of :: "f64 \<Rightarrow> int \<Rightarrow> int" where
  "duration_of d unit = wrap64 (f_to_int64 d * unit)"

text \<open>
  The loop of the compute handlers: \<open>n\<close> iterations are left, the next is \<open>i\<close>. The sum is a
  64-bit integer.
\<close>

fun compute_loop :: "ctx \<Rightarrow> nat \<Rightarrow> nat \<Rightarrow> int \<Rightarrow> int option" where
  "compute_loop cx 0 i acc = Some acc"
| "compute_loop cx (Suc n) i acc =
     (if cx_seen cx i then None else compute_loop cx n (Suc i) (wrap64 (acc + int i)))"

text \<open>\<^verbatim>\<open>ctx.Err()\<close> of a context seen to be done.\<close>

definition ctx_Err :: "ctx \<Rightarrow> error" where
  "ctx_Err cx = (case done_at cx of None \<Rightarrow> CtxCanceled | Some (t, e) \<Rightarrow> e)"

section \<open>The handlers of the worker command\<close>

definition echoHandler :: "'s handler" where
  "echoHandler cx t = ret (Returned (Some [(''echoed'', gmap_doc (t_payload t))]))"

definition sleepHandler :: "'s handler" where
  "sleepHandler cx t =
     (let duration = 1 * Second;
          duration = (case as_number (gmap_get (t_payload t) ''duration'') of
             Some d \<Rightarrow> duration_of d Millisecond | None \<Rightarrow> duration)
      in case select_after cx duration of
           None \<Rightarrow> ret (Returned (Some [(''slept_for'', GStr (Duration_String duration))]))
         | Some err \<Rightarrow> ret (Failed err))"

definition computeHandler :: "'s handler" where
  "computeHandler cx t =
     (let iterations = (case as_number (gmap_get (t_payload t) ''iterations'') of
             Some i \<Rightarrow> f_to_int64 i | None \<Rightarrow> 1000000)
      in case compute_loop cx (nat iterations) 0 0 of
           None \<Rightarrow> ret (Failed (ctx_Err cx))
         | Some acc \<Rightarrow> ret (Returned (Some [(''result'', GNum (of_int acc))])))"

definition failHandler :: "'s handler" where
  "failHandler cx t = ret (Failed (Errorf ''intentional failure for testing''))"

text \<open>The table of \<^verbatim>\<open>main\<close>.\<close>

definition worker_handlers :: "(string \<times> 's handler) list" where
  "worker_handlers = [(''echo'', echoHandler), (''sleep'', sleepHandler),
     (''compute'', computeHandler), (''fail'', failHandler)]"

section \<open>The example handlers\<close>

definition EchoHandler :: "'s env \<Rightarrow> 's handler" where
  "EchoHandler E cx t = do {
     now \<leftarrow> e_now E;
     ret (Returned (Some [(''echoed'', gmap_doc (t_payload t)), (''processed_at'', GTime now)]))
   }"

definition SleepHandler :: "'s env \<Rightarrow> 's handler" where
  "SleepHandler E cx t =
     (let duration = 1 * Second;
          duration = (case as_number (gmap_get (t_payload t) ''duration'') of
             Some d \<Rightarrow> duration_of d Millisecond | None \<Rightarrow> duration);
          duration = (case as_number (gmap_get (t_payload t) ''duration_seconds'') of
             Some d \<Rightarrow> duration_of d Second | None \<Rightarrow> duration)
      in case select_after cx duration of
           None \<Rightarrow> do {
             now \<leftarrow> e_now E;
             ret (Returned (Some [(''slept_for'', GStr (Duration_String duration)),
               (''completed_at'', GTime now)]))
           }
         | Some err \<Rightarrow> ret (Failed err))"

text \<open>
  The HTTP client is the network: \<open>hc_new\<close> is the check \<^verbatim>\<open>http.NewRequestWithContext\<close>
  makes of method and URL, \<open>hc_do\<close> sends a request (method, URL, body, headers) with the
  client's timeout.
\<close>

record http_response =
  hr_StatusCode :: int
  hr_Status :: string
  hr_Header :: gval

record 's http_client =
  hc_new :: "string \<Rightarrow> string \<Rightarrow> error option"
  hc_do :: "int \<Rightarrow> string \<Rightarrow> string \<Rightarrow> gval option \<Rightarrow> (string \<times> string) list \<Rightarrow> ('s, http_response res) io"

definition HTTPHandler :: "'s http_client \<Rightarrow> 's handler" where
  "HTTPHandler C cx t = (case as_string (gmap_get (t_payload t) ''url'') of
     None \<Rightarrow> ret (Failed (Errorf ''url is required in payload''))
   | Some url \<Rightarrow>
       let meth = (case as_string (gmap_get (t_payload t) ''method'') of Some m \<Rightarrow> m | None \<Rightarrow> ''GET'')
       in case hc_new C meth url of
            Some err \<Rightarrow> ret (Failed (Wrapf ''failed to create request'' err))
          | None \<Rightarrow> do {
              r \<leftarrow> hc_do C (30 * Second) meth url None [];
              case r of
                Inl err \<Rightarrow> ret (Failed (Wrapf ''request failed'' err))
              | Inr resp \<Rightarrow> ret (Returned (Some [
                  (''status_code'', GNum (of_int (hr_StatusCode resp))),
                  (''status'', GStr (hr_Status resp)), (''headers'', hr_Header resp)]))
            })"

definition ComputeHandler :: "'s handler" where
  "ComputeHandler cx t =
     (let iterations = (case as_number (gmap_get (t_payload t) ''iterations'') of
             Some i \<Rightarrow> f_to_int64 i | None \<Rightarrow> 1000000)
      in case compute_loop cx (nat iterations) 0 0 of
           None \<Rightarrow> ret (Failed (ctx_Err cx))
         | Some acc \<Rightarrow> ret (Returned (Some [(''iterations'', GNum (of_int iterations)),
             (''result'', GNum (of_int acc))])))"

definition EmailHandler :: "'s env \<Rightarrow> 's handler" where
  "EmailHandler E cx t = (case as_string (gmap_get (t_payload t) ''to'') of
     None \<Rightarrow> ret (Failed (Errorf ''to is required in payload''))
   | Some to \<Rightarrow>
       let subject = (case as_string (gmap_get (t_payload t) ''subject'') of Some x \<Rightarrow> x | None \<Rightarrow> '''');
           body = (case as_string (gmap_get (t_payload t) ''body'') of Some x \<Rightarrow> x | None \<Rightarrow> '''')
       in case select_after cx (100 * Millisecond) of
            Some err \<Rightarrow> ret (Failed err)
          | None \<Rightarrow> do {
              now \<leftarrow> e_now E;
              ret (Returned (Some [(''sent_to'', GStr to), (''subject'', GStr subject),
                (''body'', GStr body), (''sent_at'', GTime now)]))
            })"

text \<open>
  The request of the webhook is made with a nil body: the document \<open>data\<close> is encoded, but
  only its size is used. \<open>doc_size\<close> is the number of bytes of an encoded document.
\<close>

definition WebhookHandler :: "'s env \<Rightarrow> 's http_client \<Rightarrow> (gval \<Rightarrow> int) \<Rightarrow> 's handler" where
  "WebhookHandler E C doc_size cx t = (case as_string (gmap_get (t_payload t) ''url'') of
     None \<Rightarrow> ret (Failed (Errorf ''url is required in payload''))
   | Some url \<Rightarrow>
       let data = (case as_map (gmap_get (t_payload t) ''data'') of Some d \<Rightarrow> d | None \<Rightarrow> t_payload t)
       in if \<not> gmap_ok data then ret (Failed (Wrapf ''failed to marshal data'' ErrJSON))
          else case hc_new C ''POST'' url of
            Some err \<Rightarrow> ret (Failed (Wrapf ''failed to create request'' err))
          | None \<Rightarrow> do {
              r \<leftarrow> hc_do C (30 * Second) ''POST'' url None [(''Content-Type'', ''application/json'')];
              case r of
                Inl err \<Rightarrow> ret (Failed (Wrapf ''webhook request failed'' err))
              | Inr resp \<Rightarrow>
                  if hr_StatusCode resp \<ge> 400
                  then ret (Failed (Errorf (''webhook returned error status: '' @ int_text (hr_StatusCode resp))))
                  else do {
                    now \<leftarrow> e_now E;
                    ret (Returned (Some [(''url'', GStr url),
                      (''status_code'', GNum (of_int (hr_StatusCode resp))),
                      (''body_size'', GNum (of_int (doc_size (gmap_doc data)))),
                      (''sent_at'', GTime now)]))
                  }
            })"

definition FailHandler :: "'s handler" where
  "FailHandler cx t =
     (let message = (case as_string (gmap_get (t_payload t) ''message'') of
            Some m \<Rightarrow> m | None \<Rightarrow> ''intentional failure for testing'')
      in ret (Failed (Errorf message)))"

section \<open>Facts\<close>

lemma wrap64_add: "wrap64 (wrap64 a + b) = wrap64 (a + b)"
  unfolding wrap64_def by (metis signed_take_bit_add signed_take_bit_signed_take_bit min.idem)

text \<open>The sum of a loop no poll interrupts, in 64 bits.\<close>

lemma compute_loop_sum:
  assumes "\<And>j. i \<le> j \<Longrightarrow> j < i + n \<Longrightarrow> \<not> cx_seen cx j"
  shows "compute_loop cx n i (wrap64 s) = Some (wrap64 (s + (\<Sum>j = i..<i + n. int j)))"
  using assms
proof (induction n arbitrary: i s)
  case (Suc n)
  have "(\<Sum>j = i..<i + Suc n. int j) = int i + (\<Sum>j = Suc i..<Suc i + n. int j)"
    by (subst sum.atLeast_Suc_lessThan) auto
  moreover have "compute_loop cx (Suc n) i (wrap64 s) = compute_loop cx n (Suc i) (wrap64 (s + int i))"
    using Suc.prems [of i] by (simp add: wrap64_add)
  moreover have "compute_loop cx n (Suc i) (wrap64 (s + int i)) =
      Some (wrap64 (s + int i + (\<Sum>j = Suc i..<Suc i + n. int j)))"
    using Suc.prems by (intro Suc.IH) simp
  ultimately show ?case by (simp only: add.assoc)
qed simp

lemma compute_loop_interrupted:
  "i \<le> j \<Longrightarrow> j < i + n \<Longrightarrow> cx_seen cx j \<Longrightarrow> compute_loop cx n i s = None"
proof (induction n arbitrary: i s)
  case (Suc n)
  then show ?case by (cases "i = j") auto
qed simp

section \<open>Properties\<close>

lemma sum_upto: "(\<Sum>j = 0..<n. int j) = int n * (int n - 1) div 2"
proof -
  have "2 * (\<Sum>j = 0..<n. int j) = int n * (int n - 1)"
    by (induction n) (auto simp: algebra_simps)
  then show ?thesis by simp
qed

text \<open>
  Asked for n iterations, n below 2 to the 32nd, and not interrupted, the compute handler returns the
  sum of the numbers below n, without overflow of its 64-bit sum; if the context is seen to be
  done before the end, it returns the context's error instead.
\<close>

theorem compute_result:
  assumes "gmap_get (t_payload t) ''iterations'' = Some (GNum (of_int n))" "0 \<le> n" "n < 2 ^ 32"
  shows "fst (run_state (ComputeHandler cx t) s) =
    (if \<exists>j < nat n. cx_seen cx j then Failed (ctx_Err cx)
     else Returned (Some [(''iterations'', GNum (of_int n)), (''result'', GNum (of_int (n * (n - 1) div 2)))]))"
proof -
  have n: "f_to_int64 (Fin (of_int n)) = n"
    by (rule f_to_int64_Fin_int, rule in_int64_nonneg) (use assms(2,3) in simp_all)
  have "n * (n - 1) \<le> (2 ^ 32 - 1) * 2 ^ 32"
    using assms(2,3) by (cases "n = 0", simp, intro mult_mono) simp_all
  moreover have "0 \<le> n * (n - 1)" using assms(2) by (cases "n = 0") simp_all
  ultimately have range: "in_int64 (n * (n - 1) div 2)" by (auto simp: in_int64_def)
  show ?thesis
  proof (cases "\<exists>j < nat n. cx_seen cx j")
    case True
    then have "compute_loop cx (nat n) 0 0 = None" using compute_loop_interrupted [of 0 _ "nat n" cx] by auto
    then show ?thesis using assms(1) True by (simp add: ComputeHandler_def n del: f_to_int64.simps)
  next
    case False
    then have "compute_loop cx (nat n) 0 (wrap64 0) = Some (wrap64 (0 + (\<Sum>j = 0..<0 + nat n. int j)))"
      by (intro compute_loop_sum) auto
    then have "compute_loop cx (nat n) 0 0 = Some (n * (n - 1) div 2)"
      using range assms(2) by (simp add: sum_upto in_int64_def [of 0])
    then show ?thesis using assms(1) False by (simp add: ComputeHandler_def n del: f_to_int64.simps)
  qed
qed

theorem compute_result_witness:
  "fst (run_state (ComputeHandler \<lparr>cx_deadline = None, cx_cancel = None, cx_tie = True, cx_seen = (\<lambda>_. False)\<rparr>
     ((sample_task ''a'' PriorityLow StateRunning)\<lparr>t_payload := Some [(''iterations'', GNum 1000)]\<rparr>)) (empty_mem [])) =
   Returned (Some [(''iterations'', GNum 1000), (''result'', GNum 499500)])"
  using compute_result [of "(sample_task ''a'' PriorityLow StateRunning)\<lparr>t_payload := Some [(''iterations'', GNum 1000)]\<rparr>"
      1000 "\<lparr>cx_deadline = None, cx_cancel = None, cx_tie = True, cx_seen = (\<lambda>_. False)\<rparr>" "empty_mem []"]
  by (simp add: gmap_get_def field_Cons)

end
