(* ===== verification/Heartbeat.thy ===== *)
theory Heartbeat
  imports Scheduler Events GoFmt
begin

text \<open>
  \<^verbatim>\<open>internal/worker/heartbeat.go\<close>: a worker's registration and heartbeat in Redis, and
  the queries of the admin API and the pool about workers.
\<close>

section \<open>Data and keys\<close>

definition workerKeyPrefix :: string where
  "workerKeyPrefix = ''worker:''"

definition workerSetKey :: string where
  "workerSetKey = ''workers:active''"

definition heartbeatKey_of :: "string \<Rightarrow> string" where
  "heartbeatKey_of workerID = workerKeyPrefix @ workerID @ '':heartbeat''"

definition infoKey_of :: "string \<Rightarrow> string" where
  "infoKey_of workerID = workerKeyPrefix @ workerID @ '':info''"

definition pauseKey_of :: "string \<Rightarrow> string" where
  "pauseKey_of workerID = workerKeyPrefix @ workerID @ '':paused''"

record worker_info =
  wi_id :: string
  wi_state :: string
  wi_started_at :: int
  wi_last_heartbeat :: int
  wi_active_tasks :: int
  wi_concurrency :: int
  wi_version :: string

text \<open>
  The manager: \<open>hb_publisher\<close> says whether there is one, \<open>hb_info\<close> is the record behind the
  mutex. The stop channel is an event of the loop.
\<close>

record heartbeat =
  hb_workerID :: string
  hb_interval :: int
  hb_timeout :: int
  hb_publisher :: bool
  hb_info :: worker_info

definition NewHeartbeat :: "'s env \<Rightarrow> string \<Rightarrow> int \<Rightarrow> int \<Rightarrow> bool \<Rightarrow> ('s, heartbeat) io" where
  "NewHeartbeat E workerID interval timeout publisher = do {
     now \<leftarrow> e_now E;
     ret \<lparr>hb_workerID = workerID, hb_interval = interval, hb_timeout = timeout,
          hb_publisher = publisher,
          hb_info = \<lparr>wi_id = workerID, wi_state = ''idle'', wi_started_at = now,
            wi_last_heartbeat = zero_time, wi_active_tasks = 0, wi_concurrency = 0, wi_version = ''''\<rparr>\<rparr>
   }"

definition UpdateState :: "string \<Rightarrow> heartbeat \<Rightarrow> heartbeat" where
  "UpdateState state h = h\<lparr>hb_info := (hb_info h)\<lparr>wi_state := state\<rparr>\<rparr>"

definition UpdateActiveTasks :: "int \<Rightarrow> heartbeat \<Rightarrow> heartbeat" where
  "UpdateActiveTasks count h = h\<lparr>hb_info := (hb_info h)\<lparr>wi_active_tasks := count\<rparr>\<rparr>"

definition UpdateConcurrency :: "int \<Rightarrow> heartbeat \<Rightarrow> heartbeat" where
  "UpdateConcurrency concurrency h = h\<lparr>hb_info := (hb_info h)\<lparr>wi_concurrency := concurrency\<rparr>\<rparr>"

definition info_doc :: "worker_info \<Rightarrow> gval" where
  "info_doc i = GObj (
     [(''id'', GStr (wi_id i)), (''state'', GStr (wi_state i)), (''started_at'', GTime (wi_started_at i)),
      (''last_heartbeat'', GTime (wi_last_heartbeat i)),
      (''active_tasks'', GNum (of_int (wi_active_tasks i))),
      (''concurrency'', GNum (of_int (wi_concurrency i)))] @
     omit_string ''version'' (wi_version i))"

definition read_info :: "(string \<times> gval) list \<Rightarrow> worker_info option" where
  "read_info fs = do {
     i \<leftarrow> read_string (field fs ''id'');
     st \<leftarrow> read_string (field fs ''state'');
     sa \<leftarrow> read_time (field fs ''started_at'');
     lh \<leftarrow> read_time (field fs ''last_heartbeat'');
     at' \<leftarrow> read_int (field fs ''active_tasks'');
     co \<leftarrow> read_int (field fs ''concurrency'');
     ve \<leftarrow> read_string (field fs ''version'');
     Some \<lparr>wi_id = i, wi_state = st, wi_started_at = sa, wi_last_heartbeat = lh,
       wi_active_tasks = at', wi_concurrency = co, wi_version = ve\<rparr>
   }"

fun info_FromJSON :: "gval \<Rightarrow> worker_info option" where
  "info_FromJSON (GObj fs) = read_info fs"
| "info_FromJSON GNull = read_info []"
| "info_FromJSON _ = None"

section \<open>Operations\<close>

definition Heartbeat_publishWorkerEvent :: "'s env \<Rightarrow> heartbeat \<Rightarrow> event_type \<Rightarrow> string \<Rightarrow> ('s, unit) io" where
  "Heartbeat_publishWorkerEvent E h eventType state =
     (if \<not> hb_publisher h then ret ()
      else do {
        let activeTasks = wi_active_tasks (hb_info h);
        let concurrency = wi_concurrency (hb_info h);
        let data = [(''worker_id'', GStr (hb_workerID h)), (''state'', GStr state),
          (''active_tasks'', GNum (of_int activeTasks)), (''concurrency'', GNum (of_int concurrency))];
        e \<leftarrow> NewEvent E (event_name eventType) (Some data);
        _ \<leftarrow> Publish E e;
        ret ()
      })"

definition sendHeartbeat :: "'s env \<Rightarrow> heartbeat \<Rightarrow> ('s, heartbeat) io" where
  "sendHeartbeat E h = do {
     now \<leftarrow> e_now E;
     r \<leftarrow> r_set E (heartbeatKey_of (hb_workerID h)) (GNum (of_int (Unix now))) (hb_timeout h);
     case r of
       Inl _ \<Rightarrow> ret h
     | Inr _ \<Rightarrow> do {
         let h = h\<lparr>hb_info := (hb_info h)\<lparr>wi_last_heartbeat := now\<rparr>\<rparr>;
         _ \<leftarrow> r_set E (infoKey_of (hb_workerID h)) (info_doc (hb_info h)) (wrap64 (hb_timeout h * 2));
         _ \<leftarrow> r_sadd E workerSetKey (hb_workerID h);
         ret h
       }
   }"

definition register :: "'s env \<Rightarrow> heartbeat \<Rightarrow> ('s, heartbeat) io" where
  "register E h = do {
     _ \<leftarrow> r_sadd E workerSetKey (hb_workerID h);
     now \<leftarrow> e_now E;
     let h = h\<lparr>hb_info := (hb_info h)\<lparr>wi_started_at := now\<rparr>\<rparr>;
     _ \<leftarrow> r_set E (infoKey_of (hb_workerID h)) (info_doc (hb_info h)) (wrap64 (hb_timeout h * 2));
     _ \<leftarrow> Heartbeat_publishWorkerEvent E h EventWorkerJoined ''busy'';
     ret h
   }"

definition deregister :: "'s env \<Rightarrow> heartbeat \<Rightarrow> ('s, unit) io" where
  "deregister E h = do {
     _ \<leftarrow> Heartbeat_publishWorkerEvent E h EventWorkerLeft ''stopped'';
     _ \<leftarrow> r_srem E workerSetKey (hb_workerID h);
     _ \<leftarrow> r_del E [heartbeatKey_of (hb_workerID h), infoKey_of (hb_workerID h)];
     ret ()
   }"

text \<open>
  The loop sends one heartbeat at once, then one per tick until the context ends or the stop
  channel is closed. \<open>Start\<close> runs it in a goroutine of its own beside \<open>register\<close>.
\<close>

fun heartbeat_ticks :: "'s env \<Rightarrow> heartbeat \<Rightarrow> loop_event list \<Rightarrow> ('s, heartbeat) io" where
  "heartbeat_ticks E h [] = ret h"
| "heartbeat_ticks E h (CtxDone # evs) = ret h"
| "heartbeat_ticks E h (StopClosed # evs) = ret h"
| "heartbeat_ticks E h (Tick # evs) = do { h \<leftarrow> sendHeartbeat E h; heartbeat_ticks E h evs }"

definition heartbeatLoop :: "'s env \<Rightarrow> heartbeat \<Rightarrow> loop_event list \<Rightarrow> ('s, heartbeat) io" where
  "heartbeatLoop E h evs = do { h \<leftarrow> sendHeartbeat E h; heartbeat_ticks E h evs }"

section \<open>Queries\<close>

fun active_workers_loop :: "'s env \<Rightarrow> string list \<Rightarrow> ('s, worker_info list) io" where
  "active_workers_loop E [] = ret []"
| "active_workers_loop E (i # is) = do {
     data \<leftarrow> r_get E (infoKey_of i);
     case data of
       Inl err \<Rightarrow> if err = RedisNil then do {
           _ \<leftarrow> r_srem E workerSetKey i;
           active_workers_loop E is
         } else active_workers_loop E is
     | Inr d \<Rightarrow> (case info_FromJSON d of
           None \<Rightarrow> active_workers_loop E is
         | Some info \<Rightarrow> do {
             rest \<leftarrow> active_workers_loop E is;
             ret (info # rest)
           })
   }"

definition GetActiveWorkers :: "'s env \<Rightarrow> ('s, worker_info list res) io" where
  "GetActiveWorkers E = do {
     workerIDs \<leftarrow> r_smembers E workerSetKey;
     case workerIDs of
       Inl err \<Rightarrow> ret (Inl (Wrapf ''failed to get active workers'' err))
     | Inr is \<Rightarrow> do { workers \<leftarrow> active_workers_loop E is; ret (Inr workers) }
   }"

definition IsWorkerAlive :: "'s env \<Rightarrow> string \<Rightarrow> ('s, bool res) io" where
  "IsWorkerAlive E workerID = do {
     r \<leftarrow> r_exists E (heartbeatKey_of workerID);
     case r of
       Inl err \<Rightarrow> ret (Inl (Wrapf ''failed to check worker heartbeat'' err))
     | Inr n \<Rightarrow> ret (Inr (n > 0))
   }"

definition IsWorkerPaused :: "'s env \<Rightarrow> string \<Rightarrow> ('s, bool res) io" where
  "IsWorkerPaused E workerID = do {
     r \<leftarrow> r_exists E (pauseKey_of workerID);
     case r of
       Inl err \<Rightarrow> ret (Inl (Wrapf ''failed to check worker pause status'' err))
     | Inr n \<Rightarrow> ret (Inr (n > 0))
   }"

end
