(* ===== verification/Worker.thy ===== *)
theory Worker
  imports Heartbeat DeadLetter TaskHandlers Metrics
begin

text \<open>
  \<^verbatim>\<open>internal/worker/pool.go\<close>, the part that handles tasks: taking the next task, running
  it, and committing its result, its retry or its move to the dead letter queue; and the
  recovery of tasks whose worker died. The goroutines around it are in the theory \<open>Pool\<close>.
\<close>

section \<open>The pool\<close>

datatype pool_state =
    StateIdle
  | StateBusy
  | StatePaused
  | StateShuttingDown

fun pool_state_String :: "pool_state \<Rightarrow> string" where
  "pool_state_String StateIdle = ''idle''"
| "pool_state_String StateBusy = ''busy''"
| "pool_state_String StatePaused = ''paused''"
| "pool_state_String StateShuttingDown = ''shutting_down''"

text \<open>The fields a worker goroutine reads; the channels are in \<open>Pool\<close>.\<close>

record 's pool =
  pl_id :: string
  pl_queue :: redis_queue
  pl_executor :: "'s executor"
  pl_heartbeat :: heartbeat
  pl_retryPolicy :: retry_policy
  pl_publisher :: bool
  pl_config :: worker_config

definition NewPool :: "'s env \<Rightarrow> worker_config \<Rightarrow> queue_config \<Rightarrow> redis_queue \<Rightarrow>
    (string \<times> 's handler) list option \<Rightarrow> bool \<Rightarrow> ('s, 's pool) io" where
  "NewPool E cfg queueCfg q handlers publisher = do {
     workerID \<leftarrow> (if wc_id cfg = '''' then do { u \<leftarrow> e_uuid E; ret (''worker-'' @ take 8 u) }
       else ret (wc_id cfg));
     let retryPolicy = queue_retry_policy queueCfg;
     hb \<leftarrow> NewHeartbeat E workerID (wc_heartbeat_interval cfg) (wc_heartbeat_timeout cfg) publisher;
     ret \<lparr>pl_id = workerID, pl_queue = q, pl_executor = NewExecutor handlers (Some retryPolicy),
          pl_heartbeat = hb, pl_retryPolicy = retryPolicy, pl_publisher = publisher, pl_config = cfg\<rparr>
   }"

definition publishTaskEvent :: "'s env \<Rightarrow> 's pool \<Rightarrow> event_type \<Rightarrow> task \<Rightarrow> (string \<times> gval) list \<Rightarrow>
    ('s, unit) io" where
  "publishTaskEvent E p eventType t extra =
     (if \<not> pl_publisher p then ret ()
      else do {
        let data = [(''task_id'', GStr (t_id t)), (''type'', GStr (t_type t)),
          (''priority'', GStr (Priority_String (t_priority t))),
          (''state'', GStr (State_String (t_state t))),
          (''attempts'', GNum (of_int (t_attempts t))), (''worker_id'', GStr (pl_id p))];
        let data = (case t_scheduled_at t of None \<Rightarrow> data
          | Some st \<Rightarrow> set_field ''scheduled_at'' (GTime st) data);
        e \<leftarrow> NewEvent E (event_name eventType) (Some (set_fields extra data));
        _ \<leftarrow> Publish E e;
        ret ()
      })"

text \<open>\<^verbatim>\<open>duration.Milliseconds()\<close>.\<close>

definition Milliseconds :: "int \<Rightarrow> gval" where
  "Milliseconds d = GNum (of_int (quot_int d Millisecond))"

section \<open>Committing an outcome\<close>

definition handleTaskSuccess :: "'s env \<Rightarrow> 's pool \<Rightarrow> task \<Rightarrow> string \<Rightarrow> gmap \<Rightarrow> int \<Rightarrow>
    ('s, error option) io" where
  "handleTaskSuccess E p t messageID result duration = do {
     (t, err) \<leftarrow> Complete E t result;
     case err of
       Some e \<Rightarrow> ret (Some (Wrapf ''failed to complete task'' e))
     | None \<Rightarrow> do {
         err \<leftarrow> UpdateTask E (pl_queue p) t;
         case err of
           Some e \<Rightarrow> ret (Some (Wrapf ''failed to update task'' e))
         | None \<Rightarrow> do {
             err \<leftarrow> Acknowledge E (pl_queue p) t messageID;
             case err of
               Some e \<Rightarrow> ret (Some (Wrapf ''failed to acknowledge'' e))
             | None \<Rightarrow> do {
                 let durationSec = Seconds duration;
                 _ \<leftarrow> RecordTaskCompletion E (t_type t) ''completed'' durationSec;
                 _ \<leftarrow> RecordWorkerBusyTime E (pl_id p) durationSec;
                 _ \<leftarrow> publishTaskEvent E p EventTaskCompleted t [(''duration_ms'', Milliseconds duration)];
                 ret None
               }
           }
       }
   }"

text \<open>
  The two ways a failure ends. A task with attempts left goes to the scheduled set and is
  acknowledged last; any error on the way that is not fatal is only logged.
\<close>

definition retry_later :: "'s env \<Rightarrow> 's pool \<Rightarrow> task \<Rightarrow> string \<Rightarrow> error \<Rightarrow> int \<Rightarrow> ('s, unit) io" where
  "retry_later E p t messageID execErr duration = do {
     (t, _) \<leftarrow> Fail E t (error_text execErr);
     let retryer = NewRetryer (Some (pl_retryPolicy p));
     (t, err) \<leftarrow> ScheduleRetry E retryer t;
     case err of
       Some e \<Rightarrow> do {
         _ \<leftarrow> UpdateTask E (pl_queue p) t;
         (t, _) \<leftarrow> DLQ_Add E t (''retry scheduling failed: '' @ error_text e);
         _ \<leftarrow> Acknowledge E (pl_queue p) t messageID;
         ret ()
       }
     | None \<Rightarrow> do {
         err \<leftarrow> UpdateTask E (pl_queue p) t;
         case err of
           Some _ \<Rightarrow> ret ()
         | None \<Rightarrow> (case t_scheduled_at t of
               None \<Rightarrow> do {
                 _ \<leftarrow> UpdateTask E (pl_queue p) t;
                 (t, _) \<leftarrow> DLQ_Add E t ''ScheduledAt missing after retry scheduling'';
                 _ \<leftarrow> Acknowledge E (pl_queue p) t messageID;
                 ret ()
               }
             | Some scheduledAt \<Rightarrow> do {
                 err \<leftarrow> ScheduleTaskFunc E t scheduledAt;
                 case err of
                   Some _ \<Rightarrow> ret ()
                 | None \<Rightarrow> do {
                     now \<leftarrow> e_now E;
                     let delaySec = Seconds (scheduledAt - now);
                     _ \<leftarrow> RecordTaskRetrying E (t_type t) delaySec;
                     _ \<leftarrow> publishTaskEvent E p EventTaskRetrying t
                       [(''error'', GStr (error_text execErr)), (''next_retry_at'', GTime scheduledAt),
                        (''duration_ms'', Milliseconds duration)];
                     _ \<leftarrow> Acknowledge E (pl_queue p) t messageID;
                     ret ()
                   }
               })
       }
   }"

definition give_up :: "'s env \<Rightarrow> 's pool \<Rightarrow> task \<Rightarrow> string \<Rightarrow> error \<Rightarrow> int \<Rightarrow> ('s, unit) io" where
  "give_up E p t messageID execErr duration = do {
     (t, _) \<leftarrow> Fail E t (error_text execErr);
     _ \<leftarrow> UpdateTask E (pl_queue p) t;
     (t, _) \<leftarrow> DLQ_Add E t ''max retries exceeded'';
     _ \<leftarrow> RecordTaskCompletion E (t_type t) ''failed'' (Seconds duration);
     _ \<leftarrow> IncrementDLQAdded E;
     _ \<leftarrow> publishTaskEvent E p EventTaskFailed t
       [(''error'', GStr (error_text execErr)), (''duration_ms'', Milliseconds duration)];
     _ \<leftarrow> Acknowledge E (pl_queue p) t messageID;
     ret ()
   }"

definition handleTaskFailure :: "'s env \<Rightarrow> 's pool \<Rightarrow> task \<Rightarrow> string \<Rightarrow> error \<Rightarrow> int \<Rightarrow> ('s, unit) io" where
  "handleTaskFailure E p t messageID execErr duration =
     (if CanRetry t then retry_later E p t messageID execErr duration
      else give_up E p t messageID execErr duration)"

section \<open>One task\<close>

text \<open>
  The body after the task is dequeued; a task that cannot be started keeps its message
  pending. \<open>currentTasks\<close>, which only counts, is part of \<open>Pool\<close>.
\<close>

definition run_started :: "'s env \<Rightarrow> 's pool \<Rightarrow> ctx \<Rightarrow> task \<Rightarrow> string \<Rightarrow> ('s, error option) io" where
  "run_started E p taskCtx t messageID = do {
     _ \<leftarrow> UpdateTask E (pl_queue p) t;
     _ \<leftarrow> publishTaskEvent E p EventTaskStarted t [];
     start \<leftarrow> e_now E;
     r \<leftarrow> Execute (pl_executor p) taskCtx t;
     stop \<leftarrow> e_now E;
     let duration = stop - start;
     case r of
       Inl execErr \<Rightarrow> do {
         _ \<leftarrow> handleTaskFailure E p t messageID execErr duration;
         ret None
       }
     | Inr result \<Rightarrow> handleTaskSuccess E p t messageID result duration
   }"

definition run_task :: "'s env \<Rightarrow> 's pool \<Rightarrow> ctx \<Rightarrow> task \<Rightarrow> string \<Rightarrow> ('s, error option) io" where
  "run_task E p cx t messageID = do {
     let taskCtx = WithTimeout cx (t_timeout t);
     (t, err) \<leftarrow> Start E t (pl_id p);
     case err of
       Some e \<Rightarrow> ret (Some e)
     | None \<Rightarrow> run_started E p taskCtx t messageID
   }"

definition processNextTask :: "'s env \<Rightarrow> 's pool \<Rightarrow> ctx \<Rightarrow> ('s, error option) io" where
  "processNextTask E p cx = do {
     r \<leftarrow> DequeueBlocking E (pl_queue p) (pl_id p);
     case r of
       Inl err \<Rightarrow> ret (Some (Wrapf ''failed to dequeue'' err))
     | Inr None \<Rightarrow> ret None
     | Inr (Some (t, messageID)) \<Rightarrow> run_task E p cx t messageID
   }"

section \<open>Recovery of orphaned tasks\<close>

definition recover_one :: "'s env \<Rightarrow> 's pool \<Rightarrow> task \<times> string \<Rightarrow> ('s, unit) io" where
  "recover_one E p = (\<lambda>(t, messageID). do {
     t \<leftarrow> PrepareForRequeue E t;
     _ \<leftarrow> RecordOrphanClaim E;
     err \<leftarrow> Enqueue E (pl_queue p) t;
     case err of
       Some _ \<Rightarrow> ret ()
     | None \<Rightarrow> do {
         _ \<leftarrow> Acknowledge E (pl_queue p) t messageID;
         ret ()
       }
   })"

definition recoverOrphanedTasks :: "'s env \<Rightarrow> 's pool \<Rightarrow> ('s, unit) io" where
  "recoverOrphanedTasks E p = do {
     tasks \<leftarrow> ClaimOrphanedTasks E (pl_queue p) (pl_id p);
     for_each tasks (recover_one E p)
   }"

fun recoveryLoop :: "'s env \<Rightarrow> 's pool \<Rightarrow> loop_event list \<Rightarrow> ('s, unit) io" where
  "recoveryLoop E p [] = ret ()"
| "recoveryLoop E p (CtxDone # evs) = ret ()"
| "recoveryLoop E p (StopClosed # evs) = ret ()"
| "recoveryLoop E p (Tick # evs) = do { _ \<leftarrow> recoverOrphanedTasks E p; recoveryLoop E p evs }"

section \<open>A message is acknowledged only after its outcome is stored\<close>

text \<open>The outcome of task \<open>i\<close> is committed: it is completed, or waits in the scheduled set.\<close>

definition committed :: "view \<Rightarrow> string \<Rightarrow> bool" where
  "committed v i \<longleftrightarrow> (\<exists>t. task_at v i = Some t \<and>
     (t_state t = StateCompleted \<or> t_state t = StateRetrying \<and> i \<in> fst ` scheduled v))"

definition same_pending :: "redis_queue \<Rightarrow> view \<Rightarrow> view \<Rightarrow> bool" where
  "same_pending q v w \<longleftrightarrow> (\<forall>p. pending_refs q w p = pending_refs q v p)"

definition safe :: "redis_queue \<Rightarrow> string \<Rightarrow> view \<Rightarrow> view \<Rightarrow> bool" where
  "safe q i v w \<longleftrightarrow> same_pending q v w \<or> committed w i"

lemma same_pending_refl [simp]: "same_pending q v v"
  by (simp add: same_pending_def)

lemma same_pending_trans: "same_pending q u v \<Longrightarrow> same_pending q v w \<Longrightarrow> same_pending q u w"
  by (simp add: same_pending_def)

lemma pending_put [simp]: "queue_ok q \<Longrightarrow> pending_refs q (put_task t ttl v) p = pending_refs q v p"
  using taskKey_not_stream by (simp add: pending_refs_def put_task_def)

lemma pending_same_but:
  "queue_ok q \<Longrightarrow> same_but {taskKey i, scheduledSetKey} v w \<Longrightarrow> pending_refs q w p = pending_refs q v p"
  using taskKey_not_stream by (intro pending_refs_cong) (auto simp: same_but_def)

lemma task_at_ack [simp]:
  "queue_ok q \<Longrightarrow> task_at (ack_msg (stream_of q p) g m v) i = task_at v i"
  using taskKey_not_stream by (intro task_at_cong) (simp add: ack_msg_def)

lemma committed_ack [simp]:
  "queue_ok q \<Longrightarrow> committed (ack_msg (stream_of q p) g m v) i = committed v i"
  by (simp add: committed_def)

context redis
begin

lemma publishTaskEvent_wp: "(\<And>s'. \<alpha> s' = \<alpha> s \<Longrightarrow> Q () s') \<Longrightarrow> wp (publishTaskEvent E p ev t extra) Q s"
  by (auto simp: publishTaskEvent_def wp_eqs Let_def split: option.splits intro!: NewEvent_wp Publish_wp)

lemma handleTaskSuccess_safe:
  assumes "queue_ok (pl_queue p)" "storable t" "same_pending (pl_queue p) v (\<alpha> s)"
  shows "wp (handleTaskSuccess E p t mid result d)
    (\<lambda>_ s'. safe (pl_queue p) (t_id t) v (\<alpha> s')) s"
proof -
  let ?q = "pl_queue p" and ?t = "\<lambda>now. (enter_state now StateCompleted t)\<lparr>t_result := result, t_error := ''''\<rparr>"
  have "storable (?t now)" if "ToJSON (?t now) = Inr d" for now d
    using assms(2) marshalable_task_docD [OF that] by (simp add: storable_def)
  then have stored: "committed (put_task (?t now) ttl w) (t_id t)" if "ToJSON (?t now) = Inr d" for now ttl w d
    using that by (simp add: committed_def)
  have kept: "same_pending ?q v (put_task (?t now) ttl (\<alpha> s))" for now ttl
    using assms(1,3) by (simp add: same_pending_def)
  show ?thesis
    unfolding handleTaskSuccess_def Complete_def wp_bind
    by (rule Transition_silent)
      (use assms(1,3) stored kept in \<open>auto simp: wp_eqs Let_def recorders safe_def
        split: option.split intro!: UpdateTask_wp Acknowledge_wp record_wp publishTaskEvent_wp\<close>)
qed

end

context redis
begin

lemma retry_later_safe:
  assumes "queue_ok (pl_queue p)" "storable t" "t_state t = StateRunning" "CanRetry t"
    and v: "same_pending (pl_queue p) v (\<alpha> s)"
  shows "wp (retry_later E p t mid err d) (\<lambda>_ s'. safe (pl_queue p) (t_id t) v (\<alpha> s')) s"
proof -
  let ?q = "pl_queue p"
  let ?t = "\<lambda>m now now' at'. (enter_state now' StateRetrying ((enter_state now StateFailed t)\<lparr>t_error := m\<rparr>))
    \<lparr>t_scheduled_at := Some at'\<rparr>"
  have st: "storable (?t m now now' at')" for m now now' at' using assms(2) by (simp add: storable_def)
  have can: "CanRetry ((enter_state now StateFailed t)\<lparr>t_error := m\<rparr>)" for m now
    using assms(4) by (simp add: CanRetry_def)
  have stored: "committed (sched_put (t_id t) at' (put_task (?t m now now' at') ttl w)) (t_id t)"
    for m now now' at' ttl w
    using st by (auto simp: committed_def)
  show ?thesis
    unfolding retry_later_def Fail_def NewRetryer_def Let_def wp_bind
    by (rule Transition_silent)
      (use assms(1,3) v in \<open>auto simp: wp_eqs recorders table safe_def stored same_pending_def
        intro!: ScheduleRetry_wp can UpdateTask_wp ScheduleTaskFunc_wp Acknowledge_wp record_wp now_wp
          publishTaskEvent_wp\<close>, metis assms(1) pending_same_but pending_put)
qed

lemma run_started_safe:
  assumes "queue_ok (pl_queue p)" "storable t" "quiet \<alpha> (pl_executor p)" "t_state t = StateRunning"
    and v: "same_pending (pl_queue p) v (\<alpha> s)"
  shows "wp (run_started E p cx t mid)
    (\<lambda>_ s'. safe (pl_queue p) (t_id t) v (\<alpha> s') \<or> \<not> CanRetry t) s"
proof -
  let ?Q = "\<lambda>_ s'. safe (pl_queue p) (t_id t) v (\<alpha> s') \<or> \<not> CanRetry t"
  have kept: "same_pending (pl_queue p) v (put_task t ttl (\<alpha> s))" for ttl
    using assms(1) v by (simp add: same_pending_def)
  have failure: "wp (handleTaskFailure E p t mid e d) (\<lambda>_. ?Q None) s1"
    if "same_pending (pl_queue p) v (\<alpha> s1)" for e d s1
  proof (cases "CanRetry t")
    case True
    then show ?thesis unfolding handleTaskFailure_def if_P [OF True]
      by (intro wp_mono [OF retry_later_safe [OF assms(1,2,4) True that]]) simp
  qed (auto intro: wp_runI)
  have success: "wp (handleTaskSuccess E p t mid r d) ?Q s1"
    if "same_pending (pl_queue p) v (\<alpha> s1)" for r d s1
    by (rule wp_mono [OF handleTaskSuccess_safe [OF assms(1,2) that]]) simp
  have execute: "wp (e_now E) (\<lambda>start. wp (Execute (pl_executor p) cx t) (\<lambda>r. wp (e_now E) (\<lambda>stop. wp (case r of
        Inl execErr \<Rightarrow> do { _ \<leftarrow> handleTaskFailure E p t mid execErr (stop - start); ret None }
      | Inr result \<Rightarrow> handleTaskSuccess E p t mid result (stop - start)) ?Q))) s1"
    if "same_pending (pl_queue p) v (\<alpha> s1)" for s1
    by (intro now_wp Execute_silent [OF assms(3)])
      (use that failure success in \<open>auto simp: wp_bind wp_return split: sum.split\<close>)
  have publish: "wp (publishTaskEvent E p EventTaskStarted t []) (\<lambda>_. wp (e_now E) (\<lambda>start.
      wp (Execute (pl_executor p) cx t) (\<lambda>r. wp (e_now E) (\<lambda>stop. wp (case r of
        Inl execErr \<Rightarrow> do { _ \<leftarrow> handleTaskFailure E p t mid execErr (stop - start); ret None }
      | Inr result \<Rightarrow> handleTaskSuccess E p t mid result (stop - start)) ?Q)))) s1"
    if "same_pending (pl_queue p) v (\<alpha> s1)" for s1
    by (rule publishTaskEvent_wp) (simp add: execute that)
  show ?thesis unfolding run_started_def Let_def wp_bind
    by (rule UpdateTask_wp) (use kept v in \<open>auto intro!: publish [unfolded wp_bind]\<close>)
qed

text \<open>
  The whole run of a task. Only a task without attempts left can lose its message without an
  outcome in \<open>committed\<close>: it goes to the dead letter queue, whatever its errors.
\<close>

lemma run_task_safe:
  assumes "queue_ok (pl_queue p)" "storable t" "quiet \<alpha> (pl_executor p)"
  shows "wp (run_task E p cx t mid) (\<lambda>_ s'. safe (pl_queue p) (t_id t) (\<alpha> s) (\<alpha> s') \<or>
    \<not> CanRetry (t\<lparr>t_attempts := wrap64 (t_attempts t + 1)\<rparr>)) s"
proof -
  let ?t = "\<lambda>now now'. (enter_state now StateRunning t)\<lparr>t_worker_id := pl_id p,
    t_attempts := wrap64 (t_attempts t + 1), t_updated_at := now'\<rparr>"
  have "wp (run_started E p (WithTimeout cx (t_timeout t)) (?t now now') mid)
      (\<lambda>_ s'. safe (pl_queue p) (t_id t) (\<alpha> s) (\<alpha> s') \<or>
         \<not> CanRetry (t\<lparr>t_attempts := wrap64 (t_attempts t + 1)\<rparr>)) s1"
    if "\<alpha> s1 = \<alpha> s" for s1 now now'
    by (rule wp_mono [OF run_started_safe [OF assms(1) _ assms(3), of "?t now now'" "\<alpha> s"]])
      (use assms(2) that in \<open>auto simp: storable_def CanRetry_def\<close>)
  then show ?thesis unfolding run_task_def Start_def Let_def wp_bind
    by (intro Transition_silent) (auto simp: wp_eqs IncrementAttempts_def safe_def intro!: now_wp)
qed

end

section \<open>When the server is up, every run settles\<close>

text \<open>The keys a run uses hold the kinds of values the program puts there.\<close>

definition keys_ok :: "redis_queue \<Rightarrow> view \<Rightarrow> bool" where
  "keys_ok q v \<longleftrightarrow> (\<forall>p. strm_ok v (stream_of q p)) \<and> strm_ok v dlqStreamName \<and>
     set_ok v dlqSetName \<and> zset_ok v scheduledSetKey"

text \<open>
  The run of the started task \<open>t\<close> is over: its message is no longer pending, and the task is
  completed, or waits for its next attempt, or is failed with an entry among the dead letters.
\<close>

definition settled :: "redis_queue \<Rightarrow> task \<Rightarrow> string \<Rightarrow> bool \<Rightarrow> view \<Rightarrow> bool" where
  "settled q t mid success v \<longleftrightarrow>
     (\<forall>e \<in> set (pending_refs q v (t_priority t)). p_id e \<noteq> mid) \<and>
     (\<exists>t'. task_at v (t_id t) = Some t' \<and> t_attempts t' = t_attempts t \<and>
        (if success then t_state t' = StateCompleted
         else if CanRetry t then t_state t' = StateRetrying \<and> t_id t \<in> fst ` scheduled v
         else t_state t' = StateFailed \<and> t_id t \<in> set (set_at v dlqSetName) \<and>
           (\<exists>e \<in> set (dlq_entries v). \<exists>d. de_task e = Some d \<and> t_id d = t_id t \<and>
              t_state d = StateDeadLetter)))"

lemma kinds_put [simp]:
  "queue_ok q \<Longrightarrow> strm_ok (put_task t ttl v) (stream_of q p) = strm_ok v (stream_of q p)"
  "strm_ok (put_task t ttl v) dlqStreamName = strm_ok v dlqStreamName"
  "set_ok (put_task t ttl v) dlqSetName = set_ok v dlqSetName"
  "zset_ok (put_task t ttl v) scheduledSetKey = zset_ok v scheduledSetKey"
  using taskKey_not_stream by (simp_all add: put_task_def strm_ok_def set_ok_def zset_ok_def)

lemma kinds_sched [simp]:
  "strm_ok (sched_put i n v) (stream_of q p) = strm_ok v (stream_of q p)"
  by (simp add: sched_put_def strm_ok_def)

lemma kinds_dlq [simp]:
  "strm_ok (dlq_put m t r a v) (stream_of q p) = strm_ok v (stream_of q p)"
  by (simp add: dlq_put_def strm_ok_def)

lemma keys_okD:
  "keys_ok q v \<Longrightarrow> strm_ok v (stream_of q p)" "keys_ok q v \<Longrightarrow> strm_ok v dlqStreamName"
  "keys_ok q v \<Longrightarrow> set_ok v dlqSetName" "keys_ok q v \<Longrightarrow> zset_ok v scheduledSetKey"
  by (simp_all add: keys_ok_def)

lemma pending_ack:
  "\<forall>e \<in> set (pending_refs q (ack_msg (stream_of q p) (consumerGroup q) mid v) p). p_id e \<noteq> mid"
proof (cases "v (stream_of q p)")
  case None
  then show ?thesis
    by (simp add: pending_refs_def ack_msg_def strm_at_def empty_strm_def strm_pel_def group_at_def)
qed (simp add: pending_refs_def ack_msg_def)

lemma ack_frame:
  "k \<noteq> stream_of q p \<Longrightarrow> ack_msg (stream_of q p) g mid v k = v k"
  by (simp add: ack_msg_def)

lemma dlq_ack [simp]:
  "dlq_entries (ack_msg (stream_of q p) g mid v) = dlq_entries v"
  "set_at (ack_msg (stream_of q p) g mid v) dlqSetName = set_at v dlqSetName"
  by (auto intro!: dlq_entries_cong simp: ack_frame set_at_def)

lemma task_at_dlq_put [simp]: "task_at (dlq_put m t r a v) i = task_at v i"
  by (rule task_at_cong) (simp add: dlq_put_def)

lemma settled_ack:
  assumes "queue_ok q" "task_at v (t_id t) = Some t'" "t_attempts t' = t_attempts t"
    and "if success then t_state t' = StateCompleted
         else if CanRetry t then t_state t' = StateRetrying \<and> t_id t \<in> fst ` scheduled v
         else t_state t' = StateFailed \<and> t_id t \<in> set (set_at v dlqSetName) \<and>
           (\<exists>e \<in> set (dlq_entries v). \<exists>d. de_task e = Some d \<and> t_id d = t_id t \<and>
              t_state d = StateDeadLetter)"
  shows "settled q t mid success (ack_msg (stream_of q (t_priority t)) (consumerGroup q) mid v)"
  unfolding settled_def using assms pending_ack by (auto simp: task_at_ack)

context redis_up
begin

lemma publishTaskEvent_up:
  "U s \<Longrightarrow> (\<And>s'. U s' \<Longrightarrow> \<alpha> s' = \<alpha> s \<Longrightarrow> Q () s') \<Longrightarrow> wp (publishTaskEvent E p ev t extra) Q s"
  by (auto simp: publishTaskEvent_def wp_eqs Let_def split: option.splits intro!: NewEvent_up Publish_up)

lemma ScheduleTaskFunc_up:
  assumes "U s" "storable t" "zset_ok (\<alpha> s) scheduledSetKey"
    and "\<And>s'. U s' \<Longrightarrow> \<alpha> s' = sched_put (t_id t) scheduledAt (put_task t 0 (\<alpha> s)) \<Longrightarrow> Q None s'"
  shows "wp (ScheduleTaskFunc E t scheduledAt) Q s"
  unfolding ScheduleTaskFunc_def FromJSON_ToJSON(1) [OF assms(2)] sum.case wp_bind
proof (rule set_up [OF assms(1) TrueI], unfold sum.case wp_bind, rule zadd_up, assumption, goal_cases)
  case (1 a s1)
  then show ?case using assms(3) by (simp add: zset_ok_def)
next
  case (2 a s1 n s2)
  then show ?case by (auto simp: wp_return sched_put_def put_task_def intro!: assms(4))
qed

lemma handleTaskSuccess_up:
  assumes "U s" "queue_ok (pl_queue p)" "keys_ok (pl_queue p) (\<alpha> s)" "storable t" "gmap_ok result"
    "t_state t = StateRunning"
  shows "wp (handleTaskSuccess E p t mid result d)
    (\<lambda>r s'. r = None \<and> U s' \<and> settled (pl_queue p) t mid True (\<alpha> s')) s"
proof -
  let ?q = "pl_queue p" and ?t = "\<lambda>now. (enter_state now StateCompleted t)\<lparr>t_result := result, t_error := ''''\<rparr>"
  have st: "storable (?t now)" for now using assms(4,5) by (simp add: storable_def)
  have settle: "settled ?q t mid True
      (ack_msg (stream_of ?q (t_priority t)) (consumerGroup ?q) mid (put_task (?t now) ttl (\<alpha> s)))" for now ttl
    using st by (intro settled_ack [OF assms(2), where t' = "stored (?t now)"]) simp_all
  show ?thesis
    unfolding handleTaskSuccess_def Complete_def wp_bind
    by (rule Transition_up [OF assms(1)])
      (use assms settle st in \<open>auto simp: wp_eqs Let_def recorders table keys_okD
        intro!: UpdateTask_up Acknowledge_up record_up publishTaskEvent_up\<close>)
qed

lemma retry_later_up:
  assumes "U s" "queue_ok (pl_queue p)" "keys_ok (pl_queue p) (\<alpha> s)" "storable t"
    "t_state t = StateRunning" "CanRetry t"
  shows "wp (retry_later E p t mid err d) (\<lambda>_ s'. U s' \<and> settled (pl_queue p) t mid False (\<alpha> s')) s"
proof -
  let ?q = "pl_queue p"
  let ?t = "\<lambda>m now now' at'. (enter_state now' StateRetrying ((enter_state now StateFailed t)\<lparr>t_error := m\<rparr>))
    \<lparr>t_scheduled_at := Some at'\<rparr>"
  have st: "storable (?t m now now' at')" for m now now' at' using assms(4) by (simp add: storable_def)
  have can: "CanRetry ((enter_state now StateFailed t)\<lparr>t_error := m\<rparr>)" for m now
    using assms(6) by (simp add: CanRetry_def)
  have settle: "settled ?q t mid False (ack_msg (stream_of ?q (t_priority t)) (consumerGroup ?q) mid
      (sched_put (t_id t) at' (put_task (?t m now now' at') ttl w)))" for m now now' at' ttl w
    using st assms(6) by (intro settled_ack [OF assms(2), where t' = "stored (?t m now now' at')"]) simp_all
  show ?thesis
    unfolding retry_later_def Fail_def NewRetryer_def Let_def wp_bind
    by (rule Transition_up [OF assms(1)])
      (use assms(2,3,5) settle st in \<open>auto simp: wp_eqs recorders table keys_okD
        intro!: ScheduleRetry_up can UpdateTask_up ScheduleTaskFunc_up Acknowledge_up record_up now_up
          publishTaskEvent_up\<close>)
qed

lemma give_up_up:
  assumes "U s" "queue_ok (pl_queue p)" "keys_ok (pl_queue p) (\<alpha> s)" "storable t"
    "t_state t = StateRunning" "\<not> CanRetry t"
  shows "wp (give_up E p t mid err d) (\<lambda>_ s'. U s' \<and> settled (pl_queue p) t mid False (\<alpha> s')) s"
proof -
  let ?q = "pl_queue p" and ?t = "\<lambda>now. (enter_state now StateFailed t)\<lparr>t_error := error_text err\<rparr>"
  have st: "storable (?t now)" for now using assms(4) by (simp add: storable_def)
  have settle: "settled ?q t mid False (ack_msg (stream_of ?q (t_priority t)) (consumerGroup ?q) mid
      (dlq_put m (dead now' (?t now)) r a (put_task (?t now) ttl (\<alpha> s))))" for m now now' r a ttl
  proof (rule settled_ack [OF assms(2), where t' = "stored (?t now)"])
    have "set_at (dlq_put m (dead now' (?t now)) r a w) dlqSetName =
        List.insert (t_id t) (set_at w dlqSetName)" for w
      by (simp add: dlq_put_def set_at_def)
    then show "if False then t_state (stored (?t now)) = StateCompleted
        else if CanRetry t then t_state (stored (?t now)) = StateRetrying \<and>
          t_id t \<in> fst ` scheduled (dlq_put m (dead now' (?t now)) r a (put_task (?t now) ttl (\<alpha> s)))
        else t_state (stored (?t now)) = StateFailed \<and>
        t_id t \<in> List.set (set_at (dlq_put m (dead now' (?t now)) r a (put_task (?t now) ttl (\<alpha> s))) dlqSetName) \<and>
        (\<exists>e \<in> List.set (dlq_entries (dlq_put m (dead now' (?t now)) r a (put_task (?t now) ttl (\<alpha> s)))).
           \<exists>d. de_task e = Some d \<and> t_id d = t_id t \<and> t_state d = StateDeadLetter)"
      using assms(6) by (simp add: dlq_entries_put [OF storable_dead [OF st]])
  qed (use st in simp_all)
  show ?thesis
    unfolding give_up_def Fail_def Let_def wp_bind
    by (rule Transition_up [OF assms(1)])
      (use assms(2,3,5) settle st in \<open>auto simp: wp_eqs recorders table keys_okD
        intro!: UpdateTask_up DLQ_Add_up Acknowledge_up record_up publishTaskEvent_up\<close>)
qed

end

section \<open>A whole run when the server is up\<close>

text \<open>Handlers whose results can be encoded when the payload can.\<close>

definition encodable :: "'s executor \<Rightarrow> bool" where
  "encodable ex \<longleftrightarrow> (\<forall>(k, h) \<in> set (ex_handlers ex). \<forall>cx t s m s'.
     gmap_ok (t_payload t) \<longrightarrow> run_state (h cx t) s = (Returned m, s') \<longrightarrow> gmap_ok m)"

lemma Execute_encodable:
  assumes "encodable ex" "gmap_ok (t_payload t)"
  shows "wp (Execute ex cx t) (\<lambda>r s'. \<forall>m. r = Inr m \<longrightarrow> gmap_ok m) s"
proof (cases "map_of (ex_handlers ex) (t_type t)")
  case (Some h)
  then have "(t_type t, h) \<in> set (ex_handlers ex)" by (rule map_of_SomeD)
  then have "gmap_ok (t_payload t) \<Longrightarrow> run_state (h cx t) s = (Returned m, s') \<Longrightarrow> gmap_ok m" for s m s'
    using assms(1) by (fastforce simp: encodable_def)
  then show ?thesis using assms(2)
    by (cases "run_state (h cx t) s") (auto simp: Execute_def Some wp_def split: outcome.splits)
qed (simp add: Execute_def wp_eqs)

lemma keys_ok_put: "queue_ok q \<Longrightarrow> keys_ok q v \<Longrightarrow> keys_ok q (put_task t ttl v)"
  by (simp add: keys_ok_def)

lemma settled_cong:
  "t_id t = t_id u \<Longrightarrow> t_priority t = t_priority u \<Longrightarrow> t_attempts t = t_attempts u \<Longrightarrow>
   t_max_retries t = t_max_retries u \<Longrightarrow> settled q t mid b v = settled q u mid b v"
  by (simp add: settled_def CanRetry_def)

context redis_up
begin

lemma run_started_up:
  assumes "U s" and q: "queue_ok (pl_queue p)" "keys_ok (pl_queue p) (\<alpha> s)" and t: "storable t" "t_state t = StateRunning"
    and ex: "quiet \<alpha> (pl_executor p)" "calm U (pl_executor p)" "encodable (pl_executor p)"
  shows "wp (run_started E p cx t mid)
    (\<lambda>r s'. r = None \<and> U s' \<and> (\<exists>b. settled (pl_queue p) t mid b (\<alpha> s'))) s"
proof -
  let ?Q = "\<lambda>r s'. r = None \<and> U s' \<and> (\<exists>b. settled (pl_queue p) t mid b (\<alpha> s'))"
  have failure: "wp (handleTaskFailure E p t mid e d) (\<lambda>_. wp (ret None) ?Q) s1"
    if "U s1" "keys_ok (pl_queue p) (\<alpha> s1)" for e d s1
    unfolding handleTaskFailure_def wp_if
    by (auto simp: wp_return that intro!: wp_mono [OF retry_later_up] wp_mono [OF give_up_up] q t)
  have outcome: "wp (e_now E) (\<lambda>stop. wp (case r of
        Inl execErr \<Rightarrow> do { _ \<leftarrow> handleTaskFailure E p t mid execErr (stop - start); ret None }
      | Inr result \<Rightarrow> handleTaskSuccess E p t mid result (stop - start)) ?Q) s1"
    if "U s1" "keys_ok (pl_queue p) (\<alpha> s1)" "\<forall>m. r = Inr m \<longrightarrow> gmap_ok m" for r start s1
  proof (rule now_up [OF that(1)])
    fix stop s2 assume "U s2" "\<alpha> s2 = \<alpha> s1"
    then have s2: "U s2" "keys_ok (pl_queue p) (\<alpha> s2)" using that by simp_all
    show "wp (case r of Inl execErr \<Rightarrow> do { _ \<leftarrow> handleTaskFailure E p t mid execErr (stop - start); ret None }
      | Inr result \<Rightarrow> handleTaskSuccess E p t mid result (stop - start)) ?Q s2"
    proof (cases r)
      case (Inr m)
      then show ?thesis using that(3)
        by (auto intro: wp_mono [OF handleTaskSuccess_up [OF s2(1) q(1) s2(2) t(1) _ t(2)]])
    qed (simp add: wp_bind failure [OF s2])
  qed
  have execute: "wp (Execute (pl_executor p) cx t) (\<lambda>r. wp (e_now E) (\<lambda>stop. wp (case r of
        Inl execErr \<Rightarrow> do { _ \<leftarrow> handleTaskFailure E p t mid execErr (stop - start); ret None }
      | Inr result \<Rightarrow> handleTaskSuccess E p t mid result (stop - start)) ?Q)) s1"
    if "U s1" "keys_ok (pl_queue p) (\<alpha> s1)" for start s1
  proof (rule wp_mono [OF wp_conj [OF Execute_encodable [OF ex(3)]]])
    show "gmap_ok (t_payload t)" using t(1) by (simp add: storable_def)
  next
    show "wp (Execute (pl_executor p) cx t) (\<lambda>r s2. U s2 \<and> \<alpha> s2 = \<alpha> s1) s1"
      by (rule Execute_up [OF ex(1,2) that(1)]) simp
  qed (use that outcome in auto)
  have start: "wp (publishTaskEvent E p EventTaskStarted t []) (\<lambda>_. wp (e_now E) (\<lambda>start.
      wp (Execute (pl_executor p) cx t) (\<lambda>r. wp (e_now E) (\<lambda>stop. wp (case r of
        Inl execErr \<Rightarrow> do { _ \<leftarrow> handleTaskFailure E p t mid execErr (stop - start); ret None }
      | Inr result \<Rightarrow> handleTaskSuccess E p t mid result (stop - start)) ?Q)))) s1"
    if "U s1" "keys_ok (pl_queue p) (\<alpha> s1)" for s1
    by (rule publishTaskEvent_up [OF that(1)], rule now_up, assumption, rule execute) (use that in simp_all)
  show ?thesis unfolding run_started_def Let_def wp_bind
    by (rule UpdateTask_up [OF assms(1) t(1)])
      (use start [unfolded wp_bind] keys_ok_put [OF q] in simp)
qed

lemma run_task_up:
  assumes "U s" and q: "queue_ok (pl_queue p)" "keys_ok (pl_queue p) (\<alpha> s)" and t: "storable t"
    and can: "CanTransitionTo (t_state t) StateRunning"
    and ex: "quiet \<alpha> (pl_executor p)" "calm U (pl_executor p)" "encodable (pl_executor p)"
  shows "wp (run_task E p cx t mid) (\<lambda>r s'. r = None \<and>
    (\<exists>b. settled (pl_queue p) (t\<lparr>t_attempts := wrap64 (t_attempts t + 1)\<rparr>) mid b (\<alpha> s'))) s"
proof -
  let ?t = "\<lambda>now now'. (enter_state now StateRunning t)\<lparr>t_worker_id := pl_id p,
    t_attempts := wrap64 (t_attempts t + 1), t_updated_at := now'\<rparr>"
  have cong: "settled (pl_queue p) (?t now now') mid b v =
      settled (pl_queue p) (t\<lparr>t_attempts := wrap64 (t_attempts t + 1)\<rparr>) mid b v" for now now' b v
    by (rule settled_cong) simp_all
  have run: "wp (run_started E p (WithTimeout cx (t_timeout t)) (?t now now') mid) (\<lambda>r s'. r = None \<and>
      (\<exists>b. settled (pl_queue p) (t\<lparr>t_attempts := wrap64 (t_attempts t + 1)\<rparr>) mid b (\<alpha> s'))) s1"
    if "U s1" "\<alpha> s1 = \<alpha> s" for s1 now now'
    by (rule wp_mono [OF run_started_up [OF that(1) q(1) _ _ _ ex]])
      (use t that q(2) cong in \<open>auto simp: storable_def\<close>)
  show ?thesis unfolding run_task_def Start_def Let_def wp_bind
    by (rule Transition_up [OF assms(1) can])
      (auto simp: wp_eqs IncrementAttempts_def intro!: now_up run)
qed

end

section \<open>Recovery hands a task back before its message goes\<close>

text \<open>
  The task is pending again, with its attempts, and a reference to it is in the stream of its
  priority.
\<close>

definition handed_back :: "redis_queue \<Rightarrow> view \<Rightarrow> task \<Rightarrow> bool" where
  "handed_back q v t \<longleftrightarrow> (\<exists>t'. task_at v (t_id t) = Some t' \<and> t_state t' = StatePending \<and>
     t_attempts t' = t_attempts t \<and>
     (\<exists>m \<in> set (s_entries (strm_at v (stream_of q (t_priority t')))). ref_id m = Some (t_id t)))"

lemma handed_back_push:
  assumes "queue_ok q" "storable t" "t_state t = StatePending" "t_id t = t_id u" "t_attempts t = t_attempts u"
  shows "handed_back q (push_ref (stream_of q (t_priority t)) i t (put_task t ttl v)) u"
  unfolding handed_back_def
proof (intro exI conjI bexI)
  show "task_at (push_ref (stream_of q (t_priority t)) i t (put_task t ttl v)) (t_id u) = Some (stored t)"
    using assms by (simp add: task_at_push)
  show "\<lparr>m_id = i, m_values = task_ref t\<rparr> \<in> set (s_entries (strm_at
      (push_ref (stream_of q (t_priority t)) i t (put_task t ttl v)) (stream_of q (t_priority (stored t)))))"
    by (simp add: push_ref_def)
qed (use assms in simp_all)

lemma handed_back_ack:
  "queue_ok q \<Longrightarrow> handed_back q v u \<Longrightarrow> handed_back q (ack_msg (stream_of q p) g m v) u"
proof -
  have "s_entries (strm_at (ack_msg (stream_of q p) g m v) k) = s_entries (strm_at v k)" for k
    by (simp add: ack_msg_def)
  then show "queue_ok q \<Longrightarrow> handed_back q v u \<Longrightarrow> ?thesis" by (simp add: handed_back_def)
qed

lemma pending_enq_frame:
  assumes "queue_ok q" "enq_frame (taskKey i) (stream_of q p) v w"
  shows "same_pending q v w"
proof -
  have "strm_pel (strm_at w (stream_of q r)) g = strm_pel (strm_at v (stream_of q r)) g" for r g
    using assms taskKey_not_stream [OF assms(1)]
    by (cases "stream_of q r = stream_of q p") (auto simp: enq_frame_def same_but_def strm_at_def)
  then show ?thesis by (simp add: same_pending_def pending_refs_def)
qed

context redis
begin

lemma recover_one_safe:
  assumes q: "queue_ok (pl_queue p)" and t: "storable t"
  shows "wp (recover_one E p (t, mid))
    (\<lambda>_ s'. same_pending (pl_queue p) (\<alpha> s) (\<alpha> s') \<or> handed_back (pl_queue p) (\<alpha> s') t) s"
proof -
  let ?q = "pl_queue p"
  let ?Q = "\<lambda>_ s'. same_pending ?q (\<alpha> s) (\<alpha> s') \<or> handed_back ?q (\<alpha> s') t"
  have enqueue: "wp (Enqueue E ?q t') (\<lambda>err. wp (case err of Some _ \<Rightarrow> ret ()
      | None \<Rightarrow> do { _ \<leftarrow> Acknowledge E ?q t' mid; ret () }) ?Q) s1"
    if "\<alpha> s1 = \<alpha> s" "t_state t' = StatePending" "t_id t' = t_id t" "t_attempts t' = t_attempts t" "storable t'"
    for t' s1
  proof (rule Enqueue_wp, goal_cases)
    case (1 i s2)
    have "handed_back ?q (\<alpha> s2) t" unfolding 1(5) by (rule handed_back_push [OF q that(5,2,3,4)])
    then show ?case using handed_back_ack [OF q]
      by (auto simp: wp_return wp_bind intro!: Acknowledge_wp)
  next
    case (2 e s2)
    then show ?case using that(1) pending_enq_frame [OF q] by (simp add: wp_return)
  qed
  show ?thesis unfolding recover_one_def prod.case wp_bind
    by (rule PrepareForRequeue_wp, simp add: recorders wp_bind, rule record_wp, rule enqueue [unfolded wp_bind])
      (use t in \<open>auto simp: storable_def\<close>)
qed

end

section \<open>Properties\<close>

text \<open>A pool with the handlers of the worker command, and a queue from which a task was taken.\<close>

definition sample_pool :: "mem pool" where
  "sample_pool = \<lparr>pl_id = ''w'', pl_queue = sample_queue,
     pl_executor = NewExecutor (Some [(''echo'', echoHandler), (''fail'', failHandler)]) None,
     pl_heartbeat = fst (run_state (NewHeartbeat mem_env ''w'' Second Second False) (empty_mem [])),
     pl_retryPolicy = DefaultRetryPolicy\<lparr>JitterFactor := Fin 0\<rparr>, pl_publisher = True,
     pl_config = cf_worker default_config\<rparr>"

definition sample_ctx :: ctx where
  "sample_ctx = \<lparr>cx_deadline = None, cx_cancel = None, cx_tie = True, cx_seen = (\<lambda>_. False)\<rparr>"

definition taken_mem :: "task \<Rightarrow> mem" where
  "taken_mem t = snd (run_state (DequeueBlocking mem_env sample_queue ''w'') (enqueue_all [t] sample_mem))"

lemma sample_pool_handlers:
  "quiet mem_view (pl_executor sample_pool)" "calm (mem_up T) (pl_executor sample_pool)"
  "encodable (pl_executor sample_pool)"
  by (auto simp: sample_pool_def NewExecutor_def quiet_def calm_def encodable_def echoHandler_def
      failHandler_def silent_def steady_def wp_return gmap_ok_def gmap_doc_def Let_def)

text \<open>
  C1: A message is acknowledged only after its outcome is stored: when a task with attempts left
  is run, then after any combination of errors either no pending list has changed, or the task is
  stored as completed, or it is stored as retrying and waits in the scheduled set.
\<close>

theorem ack_after_commit:
  assumes "redis E \<alpha>" "queue_ok (pl_queue p)" "storable t" "quiet \<alpha> (pl_executor p)"
    and "t_attempts t + 1 < t_max_retries t"
    and "run_state (run_task E p cx t mid) s = (r, s')"
  shows "(\<forall>pr. pending_refs (pl_queue p) (\<alpha> s') pr = pending_refs (pl_queue p) (\<alpha> s) pr) \<or>
    (\<exists>t'. task_at (\<alpha> s') (t_id t) = Some t' \<and> (t_state t' = StateCompleted \<or>
       t_state t' = StateRetrying \<and> t_id t \<in> fst ` scheduled (\<alpha> s')))"
proof -
  have "in_int64 (t_attempts t + 1)" using assms(3,5) by (auto simp: storable_def in_int64_def)
  then have "CanRetry (t\<lparr>t_attempts := wrap64 (t_attempts t + 1)\<rparr>)" using assms(5) by (simp add: CanRetry_def)
  then show ?thesis using wp_runD [OF redis.run_task_safe [OF assms(1-4)] assms(6)]
    by (auto simp: safe_def same_pending_def committed_def)
qed

theorem ack_after_commit_witness:
  "(\<forall>pr. pending_refs sample_queue (mem_view (snd (run_state (run_task mem_env sample_pool sample_ctx
       (sample_task ''a'' PriorityHigh StatePending) ''1'')
       (taken_mem (sample_task ''a'' PriorityHigh StatePending))))) pr =
     pending_refs sample_queue (mem_view (taken_mem (sample_task ''a'' PriorityHigh StatePending))) pr) \<or>
   (\<exists>t'. task_at (mem_view (snd (run_state (run_task mem_env sample_pool sample_ctx
       (sample_task ''a'' PriorityHigh StatePending) ''1'')
       (taken_mem (sample_task ''a'' PriorityHigh StatePending))))) ''a'' = Some t' \<and>
     (t_state t' = StateCompleted \<or> t_state t' = StateRetrying))"
proof -
  let ?t = "sample_task ''a'' PriorityHigh StatePending"
  have ok: "queue_ok (pl_queue sample_pool)" "storable ?t" "t_attempts ?t + 1 < t_max_retries ?t"
    by (simp_all add: sample_pool_def sample_queue_def queue_ok_def sample_task_storable)
      (simp add: sample_task_def)
  have "pl_queue sample_pool = sample_queue" "t_id ?t = ''a''" by (simp_all add: sample_pool_def sample_task_def)
  with ack_after_commit [OF mem.redis_axioms ok(1,2) sample_pool_handlers(1) ok(3) run_fstI [OF refl],
      of sample_ctx "''1''" "taken_mem ?t"] show ?thesis by auto
qed

text \<open>
  C2: When the server is up, running a startable task settles it: no error is reported, its
  message is no longer pending, its attempt is counted, and it is completed, or retrying and in the
  scheduled set when attempts are left, or failed with an entry among the dead letters when not.
\<close>

theorem run_settles:
  assumes "redis_up E \<alpha> U" "U s" "queue_ok (pl_queue p)" "keys_ok (pl_queue p) (\<alpha> s)" "storable t"
    and "t_state t \<in> {StatePending, StateScheduled, StateRetrying}" "t_attempts t < 2 ^ 62"
    and "quiet \<alpha> (pl_executor p)" "calm U (pl_executor p)" "encodable (pl_executor p)"
    and "run_state (run_task E p cx t mid) s = (r, s')"
  shows "r = None \<and> (\<forall>e \<in> set (pending_refs (pl_queue p) (\<alpha> s') (t_priority t)). p_id e \<noteq> mid) \<and>
    (\<exists>t'. task_at (\<alpha> s') (t_id t) = Some t' \<and> t_attempts t' = t_attempts t + 1 \<and>
       (t_state t' = StateCompleted \<or>
        t_attempts t + 1 < t_max_retries t \<and> t_state t' = StateRetrying \<and> t_id t \<in> fst ` scheduled (\<alpha> s') \<or>
        t_max_retries t \<le> t_attempts t + 1 \<and> t_state t' = StateFailed \<and> t_id t \<in> set (set_at (\<alpha> s') dlqSetName) \<and>
          (\<exists>e \<in> set (dlq_entries (\<alpha> s')). \<exists>d. de_task e = Some d \<and> t_id d = t_id t \<and> t_state d = StateDeadLetter)))"
proof -
  have can: "CanTransitionTo (t_state t) StateRunning" using assms(6) by (auto simp: table)
  have "in_int64 (t_attempts t + 1)" using assms(5,7) by (auto simp: storable_def in_int64_def)
  then have "wrap64 (t_attempts t + 1) = t_attempts t + 1" by simp
  then show ?thesis
    using wp_runD [OF redis_up.run_task_up [OF assms(1-5) can assms(8-10)] assms(11)]
    by (auto simp: settled_def CanRetry_def split: if_splits)
qed

theorem run_settles_witness:
  "\<exists>t'. task_at (mem_view (snd (run_state (run_task mem_env sample_pool sample_ctx
       (sample_task ''a'' PriorityHigh StatePending) ''1'')
       (taken_mem (sample_task ''a'' PriorityHigh StatePending))))) ''a'' = Some t' \<and> t_attempts t' = 1"
proof -
  let ?t = "sample_task ''a'' PriorityHigh StatePending" and ?s = "taken_mem (sample_task ''a'' PriorityHigh StatePending)"
  have q: "pl_queue sample_pool = sample_queue" by (simp add: sample_pool_def)
  have up: "mem_up 0 ?s" by code_simp
  have known: "\<forall>p \<in> set priorities. strm_ok (mem_view ?s) (stream_of sample_queue p)"
    "mem_view ?s ''tasks:unknown'' = None" by code_simp+
  have "strm_ok (mem_view ?s) (stream_of sample_queue p)" for p
    using known by (cases p) (simp_all add: priorities_def,
      simp add: stream_of_def StreamName_def sample_queue_def strm_ok_def)
  moreover have "strm_ok (mem_view ?s) dlqStreamName" "set_ok (mem_view ?s) dlqSetName"
    "zset_ok (mem_view ?s) scheduledSetKey" by code_simp+
  ultimately have keys: "keys_ok sample_queue (mem_view ?s)" by (simp add: keys_ok_def)
  have t: "t_state ?t \<in> {StatePending, StateScheduled, StateRetrying}" "t_attempts ?t < 2 ^ 62" "t_id ?t = ''a''"
    "t_attempts ?t = 0"
    by (simp_all add: sample_task_def)
  have ok: "queue_ok (pl_queue sample_pool)" "storable ?t" "keys_ok (pl_queue sample_pool) (mem_view ?s)"
    using keys by (simp_all add: q sample_queue_def queue_ok_def sample_task_storable)
  from run_settles [OF memup.redis_up_axioms up ok(1,3,2) t(1,2) sample_pool_handlers run_fstI [OF refl],
      of sample_ctx "''1''"] show ?thesis by (auto simp: t)
qed

text \<open>
  A task that may not start, a canceled or completed one included, is refused without any
  effect; its message stays pending, so that recovery will claim it later.
\<close>

theorem start_refused:
  assumes "\<not> CanTransitionTo (t_state t) StateRunning"
  shows "run_state (run_task E p cx t mid) s = (Some ErrInvalidTransition, s)"
  using assms by (simp add: run_task_def Start_def Transition_def)

theorem start_refused_witness:
  "run_state (run_task mem_env sample_pool sample_ctx (sample_task ''a'' PriorityHigh StateCanceled) ''1'') sample_mem =
     (Some ErrInvalidTransition, sample_mem)"
  by (rule start_refused) (simp add: sample_task_def table)

text \<open>
  C19: Recovering an orphan never loses it: with any errors, either no pending list has changed, or
  the task, whatever its state was, is stored as pending with its attempts and a reference to it is
  in the stream of its priority.
\<close>

theorem recovery_hands_back:
  assumes "redis E \<alpha>" "queue_ok (pl_queue p)" "storable t"
    and "run_state (recover_one E p (t, mid)) s = ((), s')"
  shows "(\<forall>pr. pending_refs (pl_queue p) (\<alpha> s') pr = pending_refs (pl_queue p) (\<alpha> s) pr) \<or>
    (\<exists>t'. task_at (\<alpha> s') (t_id t) = Some t' \<and> t_state t' = StatePending \<and> t_attempts t' = t_attempts t \<and>
       (\<exists>m \<in> set (s_entries (strm_at (\<alpha> s') (stream_of (pl_queue p) (t_priority t')))). ref_id m = Some (t_id t)))"
  using wp_runD [OF redis.recover_one_safe [OF assms(1-3)] assms(4)]
  by (simp add: same_pending_def handed_back_def)

theorem recovery_hands_back_witness:
  "\<exists>t'. task_at (mem_view (snd (run_state (recover_one mem_env sample_pool
       (sample_task ''a'' PriorityHigh StateCanceled, ''1''))
       (taken_mem (sample_task ''a'' PriorityHigh StateCanceled))))) ''a'' = Some t' \<and> t_state t' = StatePending"
proof -
  let ?t = "sample_task ''a'' PriorityHigh StateCanceled"
  let ?s = "taken_mem ?t"
  let ?s' = "snd (run_state (recover_one mem_env sample_pool (?t, ''1'')) ?s)"
  have "length (pending_refs sample_queue (mem_view ?s') PriorityHigh) = 0"
    by (simp add: recover_one_def sample_pool_def) code_simp
  moreover have "length (pending_refs sample_queue (mem_view ?s) PriorityHigh) = 1" by code_simp
  ultimately have changed: "pending_refs sample_queue (mem_view ?s') PriorityHigh \<noteq>
      pending_refs sample_queue (mem_view ?s) PriorityHigh" by (simp, metis length_0_conv zero_neq_one)
  have q: "pl_queue sample_pool = sample_queue" "t_id ?t = ''a''" by (simp_all add: sample_pool_def sample_task_def)
  have ok: "queue_ok (pl_queue sample_pool)" "storable ?t"
    by (simp_all add: q sample_queue_def queue_ok_def sample_task_storable)
  have run: "run_state (recover_one mem_env sample_pool (?t, ''1'')) ?s = ((), ?s')" by (rule run_fstI) simp
  from recovery_hands_back [OF mem.redis_axioms ok run] changed show ?thesis by (auto simp: q)
qed

end
