(* ===== verification/Http.thy ===== *)
theory Http
  imports TaskModel
begin

text \<open>
  What the HTTP handlers share: replies with a status and a JSON body, error replies, and
  the documents of requests and responses.
\<close>

text \<open>
  A reply has no body when its document cannot be encoded (the status is already written
  then). \<open>Panic\<close> is a handler that panics; the recovery of the router answers for it.
\<close>

datatype reply =
    Reply int "gval option"
  | Panic

definition StatusText :: "int \<Rightarrow> string" where
  "StatusText c = (if c = 200 then ''OK'' else if c = 201 then ''Created''
     else if c = 400 then ''Bad Request'' else if c = 401 then ''Unauthorized''
     else if c = 404 then ''Not Found'' else if c = 409 then ''Conflict''
     else if c = 429 then ''Too Many Requests'' else if c = 500 then ''Internal Server Error''
     else if c = 503 then ''Service Unavailable'' else '''')"

definition respondJSON :: "int \<Rightarrow> gval \<Rightarrow> reply" where
  "respondJSON status data = Reply status (if marshalable data then Some data else None)"

definition respondError :: "int \<Rightarrow> string \<Rightarrow> reply" where
  "respondError status message = respondJSON status
     (GObj [(''error'', GStr (StatusText status)), (''message'', GStr message)])"

fun reply_status :: "reply \<Rightarrow> int" where
  "reply_status (Reply c _) = c"
| "reply_status Panic = 500"

lemma reply_status_respond [simp]:
  "reply_status (respondJSON c d) = c" "reply_status (respondError c m) = c"
  by (simp_all add: respondJSON_def respondError_def)

text \<open>The document of a task response, in the order of its fields.\<close>

definition response_doc :: "task_response \<Rightarrow> gval" where
  "response_doc r = GObj (
     [(''id'', GStr (rs_id r)), (''type'', GStr (rs_type r)), (''payload'', gmap_doc (rs_payload r)),
      (''priority'', GStr (rs_priority r)), (''state'', GStr (rs_state r)),
      (''attempts'', GNum (of_int (rs_attempts r))),
      (''max_retries'', GNum (of_int (rs_max_retries r)))] @
     omit_string ''error'' (rs_error r) @
     omit_gmap ''result'' (rs_result r) @
     omit_string ''worker_id'' (rs_worker_id r) @
     [(''created_at'', GTime (rs_created_at r)), (''updated_at'', GTime (rs_updated_at r))] @
     omit_time ''started_at'' (rs_started_at r) @
     omit_time ''completed_at'' (rs_completed_at r) @
     omit_time ''scheduled_at'' (rs_scheduled_at r) @
     omit_time ''next_retry_at'' (rs_next_retry_at r) @
     omit_smap ''metadata'' (rs_metadata r))"

text \<open>Decoding a create request: \<open>None\<close> for a body that is no JSON or has a wrong type.\<close>

definition read_create_request :: "(string \<times> gval) list \<Rightarrow> create_request option" where
  "read_create_request fs = do {
     ty \<leftarrow> read_string (field fs ''type'');
     pl \<leftarrow> read_gmap (field fs ''payload'');
     pr \<leftarrow> read_int (field fs ''priority'');
     mx \<leftarrow> read_int (field fs ''max_retries'');
     tm \<leftarrow> read_int (field fs ''timeout'');
     sc \<leftarrow> read_time_ptr (field fs ''scheduled_at'');
     md \<leftarrow> read_smap (field fs ''metadata'');
     Some \<lparr>rq_type = ty, rq_payload = pl, rq_priority = pr, rq_max_retries = mx, rq_timeout = tm,
       rq_scheduled_at = sc, rq_metadata = md\<rparr>
   }"

fun decode_create_request :: "gval option \<Rightarrow> create_request option" where
  "decode_create_request (Some (GObj fs)) = read_create_request fs"
| "decode_create_request (Some GNull) = read_create_request []"
| "decode_create_request _ = None"

end
