(* ===== verification/TaskApi.thy ===== *)
theory TaskApi
  imports Http Scheduler DeadLetter Metrics Events
begin

text \<open>
  \<^verbatim>\<open>internal/api/handlers/task.go\<close>: creating, reading, canceling and listing tasks over
  HTTP. A handler's arguments are the decoded body or the URL parameter of its request.
\<close>

record 's task_handler =
  th_queue :: redis_queue
  th_dlq :: bool
  th_scheduleTask :: "task \<Rightarrow> int \<Rightarrow> ('s, error option) io"
  th_maxQueueSize :: int
  th_defaultMaxRetries :: int
  th_publisher :: bool

definition NewTaskHandler :: "redis_queue \<Rightarrow> bool \<Rightarrow> (task \<Rightarrow> int \<Rightarrow> ('s, error option) io) \<Rightarrow> int \<Rightarrow> int \<Rightarrow>
    bool \<Rightarrow> 's task_handler" where
  "NewTaskHandler q dlq scheduleTask maxQueueSize defaultMaxRetries publisher =
     \<lparr>th_queue = q, th_dlq = dlq, th_scheduleTask = scheduleTask, th_maxQueueSize = maxQueueSize,
      th_defaultMaxRetries = defaultMaxRetries, th_publisher = publisher\<rparr>"

definition api_publishTaskEvent :: "'s env \<Rightarrow> 's task_handler \<Rightarrow> event_type \<Rightarrow> task \<Rightarrow>
    (string \<times> gval) list \<Rightarrow> ('s, unit) io" where
  "api_publishTaskEvent E h eventType t extra =
     (if \<not> th_publisher h then ret ()
      else do {
        let data = [(''task_id'', GStr (t_id t)), (''type'', GStr (t_type t)),
          (''priority'', GStr (Priority_String (t_priority t))),
          (''state'', GStr (State_String (t_state t))),
          (''attempts'', GNum (of_int (t_attempts t)))];
        let data = (case t_scheduled_at t of None \<Rightarrow> data
          | Some st \<Rightarrow> set_field ''scheduled_at'' (GTime st) data);
        e \<leftarrow> NewEvent E (event_name eventType) (Some (set_fields extra data));
        _ \<leftarrow> Publish E e;
        ret ()
      })"

section \<open>Create\<close>

text \<open>The backpressure check: the sum of the depths against the limit.\<close>

definition at_capacity :: "'s env \<Rightarrow> 's task_handler \<Rightarrow> ('s, bool) io" where
  "at_capacity E h =
     (if th_maxQueueSize h > 0 then do {
        depths \<leftarrow> GetQueueDepth E (th_queue h);
        ret (sum_list (map snd depths) \<ge> th_maxQueueSize h)
      } else ret False)"

text \<open>The two ways a new task goes: into the scheduled set, or into its stream.\<close>

definition create_scheduled :: "'s env \<Rightarrow> 's task_handler \<Rightarrow> task \<Rightarrow> int \<Rightarrow> ('s, reply) io" where
  "create_scheduled E h t scheduledAt = do {
     let t = t\<lparr>t_state := StateScheduled\<rparr>;
     err \<leftarrow> th_scheduleTask h t scheduledAt;
     case err of
       Some _ \<Rightarrow> ret (respondError 500 ''failed to schedule task'')
     | None \<Rightarrow> do {
         _ \<leftarrow> RecordTaskSubmission E (t_type t) (Priority_String (t_priority t));
         _ \<leftarrow> RecordScheduledTask E;
         _ \<leftarrow> api_publishTaskEvent E h EventTaskSubmitted t [];
         ret (respondJSON 201 (response_doc (ToResponse t)))
       }
   }"

definition create_now :: "'s env \<Rightarrow> 's task_handler \<Rightarrow> task \<Rightarrow> ('s, reply) io" where
  "create_now E h t = do {
     err \<leftarrow> Enqueue E (th_queue h) t;
     case err of
       Some _ \<Rightarrow> ret (respondError 500 ''failed to enqueue task'')
     | None \<Rightarrow> do {
         _ \<leftarrow> RecordTaskSubmission E (t_type t) (Priority_String (t_priority t));
         _ \<leftarrow> api_publishTaskEvent E h EventTaskSubmitted t [];
         ret (respondJSON 201 (response_doc (ToResponse t)))
       }
   }"

definition Create :: "'s env \<Rightarrow> 's task_handler \<Rightarrow> gval option \<Rightarrow> ('s, reply) io" where
  "Create E h body = (case decode_create_request body of
     None \<Rightarrow> ret (respondError 400 ''invalid request body'')
   | Some req \<Rightarrow>
       if rq_type req = '''' then ret (respondError 400 ''task type is required'')
       else do {
         full \<leftarrow> at_capacity E h;
         if full then ret (respondError 503 ''queue at capacity'')
         else do {
           t \<leftarrow> FromRequest E req;
           let t = (if rq_max_retries req \<le> 0 \<and> th_defaultMaxRetries h > 0
             then t\<lparr>t_max_retries := th_defaultMaxRetries h\<rparr> else t);
           case rq_scheduled_at req of
             None \<Rightarrow> create_now E h t
           | Some scheduledAt \<Rightarrow> do {
               now \<leftarrow> e_now E;
               if scheduledAt > now then create_scheduled E h t scheduledAt
               else create_now E h t
             }
         }
       })"

section \<open>Get and cancel\<close>

definition Get :: "'s env \<Rightarrow> string \<Rightarrow> ('s, reply) io" where
  "Get E taskID =
     (if taskID = '''' then ret (respondError 400 ''task ID is required'')
      else do {
        r \<leftarrow> GetTask E taskID;
        case r of
          Inl err \<Rightarrow> if err = ErrTaskNotFound then ret (respondError 404 ''task not found'')
            else ret (respondError 500 ''failed to get task'')
        | Inr t \<Rightarrow> ret (respondJSON 200 (response_doc (ToResponse t)))
      })"

definition cancellable :: "tstate \<Rightarrow> bool" where
  "cancellable s \<longleftrightarrow> s = StatePending \<or> s = StateScheduled \<or> s = StateRetrying"

text \<open>
  The removal from the scheduled set asks for the state after the cancelation, as the code
  does.
\<close>

definition api_Cancel :: "'s env \<Rightarrow> 's task_handler \<Rightarrow> string \<Rightarrow> ('s, reply) io" where
  "api_Cancel E h taskID =
     (if taskID = '''' then ret (respondError 400 ''task ID is required'')
      else do {
        r \<leftarrow> GetTask E taskID;
        case r of
          Inl err \<Rightarrow> if err = ErrTaskNotFound then ret (respondError 404 ''task not found'')
            else ret (respondError 500 ''failed to get task'')
        | Inr t \<Rightarrow>
            if \<not> cancellable (t_state t)
            then ret (respondError 409 ''task cannot be canceled in current state'')
            else do {
              (t, err) \<leftarrow> Cancel E t;
              case err of
                Some _ \<Rightarrow> ret (respondError 409 ''failed to cancel task'')
              | None \<Rightarrow> do {
                  _ \<leftarrow> (if t_state t = StateScheduled \<or> t_state t = StateRetrying
                     then Queue_RemoveScheduledTask E taskID else ret None);
                  err \<leftarrow> UpdateTask E (th_queue h) t;
                  case err of
                    Some _ \<Rightarrow> ret (respondError 500 ''failed to cancel task'')
                  | None \<Rightarrow> ret (respondJSON 200 (response_doc (ToResponse t)))
                }
            }
      })"

section \<open>List\<close>

definition stats_doc :: "queue_stats \<Rightarrow> gval" where
  "stats_doc st = GObj
     [(''queues'', GObj (map (\<lambda>(k, ps). (k, GObj [(''queued'', GNum (of_int (ps_queued ps))),
         (''pending_unacked'', GNum (of_int (ps_pending_unacked ps)))])) (qs_queues st))),
      (''scheduled_count'', GNum (of_int (qs_scheduled_count st))),
      (''dlq_size'', GNum (of_int (qs_dlq_size st))),
      (''totals'', GObj [(''queued'', GNum (of_int (qs_total_queued st))),
         (''pending_unacked'', GNum (of_int (qs_total_pending_unacked st))),
         (''deferred'', GNum (of_int (qs_total_deferred st)))])]"

text \<open>The error of \<^verbatim>\<open>GetQueueStats\<close> is always nil.\<close>

definition api_List :: "'s env \<Rightarrow> 's task_handler \<Rightarrow> ('s, reply) io" where
  "api_List E h = do {
     stats \<leftarrow> GetQueueStats E (th_queue h);
     stats \<leftarrow> (if th_dlq h then do {
         r \<leftarrow> DLQ_Size E;
         ret (case r of Inl _ \<Rightarrow> stats | Inr n \<Rightarrow> stats\<lparr>qs_dlq_size := n\<rparr>)
       } else ret stats);
     _ \<leftarrow> for_each (qs_queues stats) (\<lambda>(priority, ps). do {
       _ \<leftarrow> UpdateQueueBacklog E priority (f_of_int (ps_queued ps));
       UpdateQueuePendingUnacked E priority (f_of_int (ps_pending_unacked ps))
     });
     _ \<leftarrow> SetScheduledTasksGauge E (f_of_int (qs_scheduled_count stats));
     _ \<leftarrow> SetDLQSize E (f_of_int (qs_dlq_size stats));
     ret (respondJSON 200 (stats_doc stats))
   }"

section \<open>What the handlers do to the queue\<close>

lemma read_create_request_range:
  "decode_create_request body = Some req \<Longrightarrow> in_int64 (rq_max_retries req)"
  by (cases body rule: decode_create_request.cases)
    (auto simp: read_create_request_def bind_eq_Some_conv in_int64_def [of 0] dest: read_int_range)

text \<open>The task is stored and waits in its stream, or in the scheduled set.\<close>

definition accepted_task :: "redis_queue \<Rightarrow> view \<Rightarrow> task \<Rightarrow> bool" where
  "accepted_task q v t \<longleftrightarrow> task_at v (t_id t) = Some (stored t) \<and>
     (t_state t = StatePending \<and>
        (\<exists>m \<in> set (s_entries (strm_at v (stream_of q (t_priority t)))). ref_id m = Some (t_id t)) \<or>
      t_state t = StateScheduled \<and> t_id t \<in> fst ` scheduled v)"

lemma accepted_push:
  assumes "queue_ok q" "storable t" "t_state t = StatePending"
  shows "accepted_task q (push_ref (stream_of q (t_priority t)) i t (put_task t ttl v)) t"
proof -
  have "\<lparr>m_id = i, m_values = task_ref t\<rparr> \<in> set (s_entries (strm_at
      (push_ref (stream_of q (t_priority t)) i t (put_task t ttl v)) (stream_of q (t_priority t))))"
    by (simp add: push_ref_def)
  then show ?thesis using assms ref_id_task_ref [of i t]
    unfolding accepted_task_def by (auto simp: task_at_push simp del: ref_id_task_ref intro: bexI)
qed

lemma accepted_sched:
  "storable t \<Longrightarrow> t_state t = StateScheduled \<Longrightarrow>
   accepted_task q (sched_put (t_id t) at' (put_task t ttl v)) t"
  by (auto simp: accepted_task_def)

text \<open>What a task keeps of the request it was made from.\<close>

definition made_from :: "create_request \<Rightarrow> task \<Rightarrow> bool" where
  "made_from req t \<longleftrightarrow> t_type t = rq_type req \<and> t_payload t = rq_payload req \<and>
     t_priority t = PriorityFromInt (rq_priority req) \<and> t_scheduled_at t = rq_scheduled_at req"

context redis
begin

lemma api_publishTaskEvent_wp:
  "(\<And>s'. \<alpha> s' = \<alpha> s \<Longrightarrow> Q () s') \<Longrightarrow> wp (api_publishTaskEvent E h ev t extra) Q s"
  by (auto simp: api_publishTaskEvent_def wp_eqs Let_def split: option.splits intro!: NewEvent_wp Publish_wp)

lemma at_capacity_wp:
  assumes "\<And>s'. \<alpha> s' = \<alpha> s \<Longrightarrow> Q False s'"
    and "\<And>s'. \<alpha> s' = \<alpha> s \<Longrightarrow> 0 < th_maxQueueSize h \<Longrightarrow>
      th_maxQueueSize h \<le> (\<Sum>p\<leftarrow>priorities. int (length (pending_refs (th_queue h) (\<alpha> s) p))) \<Longrightarrow> Q True s'"
  shows "wp (at_capacity E h) Q s"
proof (cases "th_maxQueueSize h > 0")
  case True
  have "wp (GetQueueDepth E (th_queue h)) (\<lambda>depths. Q (sum_list (map snd depths) \<ge> th_maxQueueSize h)) s"
  proof (rule wp_mono [OF GetQueueDepth_wp])
    fix r s' assume r: "\<alpha> s' = \<alpha> s \<and> sum_list (map snd r) \<le>
      (\<Sum>p\<leftarrow>priorities. int (length (pending_refs (th_queue h) (\<alpha> s) p)))"
    show "Q (th_maxQueueSize h \<le> sum_list (map snd r)) s'"
    proof (cases "th_maxQueueSize h \<le> sum_list (map snd r)")
      case over: True
      then have "th_maxQueueSize h \<le> (\<Sum>p\<leftarrow>priorities. int (length (pending_refs (th_queue h) (\<alpha> s) p)))"
        using r by linarith
      then show ?thesis using assms(2) r True over by simp
    qed (use assms(1) r in simp)
  qed
  then show ?thesis by (simp add: at_capacity_def True wp_bind wp_return)
qed (simp add: at_capacity_def wp_return assms(1))

text \<open>A task made from a request is storable once it could be encoded.\<close>

lemma FromRequest_wp:
  assumes "in_int64 (rq_max_retries req)"
    and "\<And>t s'. \<alpha> s' = \<alpha> s \<Longrightarrow> t_state t = StatePending \<Longrightarrow> known_priority (t_priority t) \<Longrightarrow>
      t_result t = None \<Longrightarrow> t_attempts t = 0 \<Longrightarrow> in_int64 (t_max_retries t) \<Longrightarrow> in_int64 (t_timeout t) \<Longrightarrow>
      made_from req t \<Longrightarrow> Q t s'"
  shows "wp (FromRequest E req) Q s"
  unfolding FromRequest_def New_def wp_bind
  by (rule now_wp, rule uuid_wp)
    (use assms in \<open>auto simp: wp_return apply_request_def Let_def made_from_def in_int64_def [of 3]
      in_int64_def [of 300000000000]\<close>)

lemma create_now_wp:
  assumes q: "queue_ok (th_queue h)"
    and t: "t_state t = StatePending" "known_priority (t_priority t)" "t_result t = None" "t_attempts t = 0"
      "in_int64 (t_max_retries t)" "in_int64 (t_timeout t)"
    and ok: "\<And>s'. accepted_task (th_queue h) (\<alpha> s') t \<Longrightarrow> storable t \<Longrightarrow> Q (respondJSON 201 (response_doc (ToResponse t))) s'"
    and err: "\<And>s'. Q (respondError 500 ''failed to enqueue task'') s'"
  shows "wp (create_now E h t) Q s"
proof -
  have st: "storable t" if "ToJSON t = Inr (task_doc t)"
    using t marshalable_task_docD [OF that]
    by (auto simp: storable_def in_int64_def [of 0])
  show ?thesis unfolding create_now_def wp_bind
  proof (rule Enqueue_wp, goal_cases)
    case (1 i s')
    then have "accepted_task (th_queue h) (\<alpha> s') t" "storable t" using accepted_push [OF q st t(1)] st by simp_all
    then show ?case
      by (auto simp: wp_eqs RecordTaskSubmission_def intro!: record_wp api_publishTaskEvent_wp ok)
  qed (simp add: wp_return err)
qed

lemma create_scheduled_wp:
  assumes h: "th_scheduleTask h = ScheduleTaskFunc E"
    and t: "known_priority (t_priority t)" "t_result t = None" "t_attempts t = 0"
      "in_int64 (t_max_retries t)" "in_int64 (t_timeout t)"
    and ok: "\<And>s'. accepted_task q (\<alpha> s') (t\<lparr>t_state := StateScheduled\<rparr>) \<Longrightarrow> storable (t\<lparr>t_state := StateScheduled\<rparr>) \<Longrightarrow>
      Q (respondJSON 201 (response_doc (ToResponse (t\<lparr>t_state := StateScheduled\<rparr>)))) s'"
    and err: "\<And>s'. Q (respondError 500 ''failed to schedule task'') s'"
  shows "wp (create_scheduled E h t at') Q s"
proof -
  let ?t = "t\<lparr>t_state := StateScheduled\<rparr>"
  have st: "storable ?t" if "ToJSON ?t = Inr (task_doc ?t)"
    using t marshalable_task_docD [OF that]
    by (auto simp: storable_def in_int64_def [of 0])
  show ?thesis unfolding create_scheduled_def h Let_def wp_bind
  proof (rule ScheduleTaskFunc_wp, goal_cases)
    case (1 s')
    then have "accepted_task q (\<alpha> s') ?t" "storable ?t" using accepted_sched [OF st, of q at' 0] st by simp_all
    then show ?case
      by (auto simp: wp_eqs RecordTaskSubmission_def RecordScheduledTask_def
          intro!: record_wp api_publishTaskEvent_wp ok)
  qed (simp add: wp_return err)
qed

text \<open>
  The outcome of a creation: the task of the request is accepted, or the answer is 400 or 503 and
  nothing has changed, or it is 500.
\<close>

definition create_post :: "redis_queue \<Rightarrow> gval option \<Rightarrow> view \<Rightarrow> reply \<Rightarrow> 's \<Rightarrow> bool" where
  "create_post q body v r s' \<longleftrightarrow>
     (\<exists>t req. r = respondJSON 201 (response_doc (ToResponse t)) \<and> accepted_task q (\<alpha> s') t \<and> storable t \<and>
        decode_create_request body = Some req \<and> made_from req t) \<or>
     (reply_status r = 400 \<or> reply_status r = 503) \<and> \<alpha> s' = v \<or> reply_status r = 500"

lemma Create_wp:
  assumes h: "queue_ok (th_queue h)" "th_scheduleTask h = ScheduleTaskFunc E" "in_int64 (th_defaultMaxRetries h)"
  shows "wp (Create E h body) (create_post (th_queue h) body (\<alpha> s)) s"
proof (cases "decode_create_request body")
  case (Some req)
  let ?Q = "create_post (th_queue h) body (\<alpha> s)"
  have task: "wp (case rq_scheduled_at req of
        None \<Rightarrow> create_now E h t
      | Some scheduledAt \<Rightarrow> do {
          now \<leftarrow> e_now E;
          if scheduledAt > now then create_scheduled E h t scheduledAt else create_now E h t
        }) ?Q s1"
    if t: "t_state t = StatePending" "known_priority (t_priority t)" "t_result t = None" "t_attempts t = 0"
      "in_int64 (t_max_retries t)" "in_int64 (t_timeout t)" and made: "made_from req t" for t s1
  proof -
    have n: "wp (create_now E h t) ?Q u" for u
      by (rule create_now_wp [OF h(1) t]) (use Some made in \<open>auto simp: create_post_def\<close>)
    have made': "made_from req (t\<lparr>t_state := StateScheduled\<rparr>)" using made by (simp add: made_from_def)
    have c: "wp (create_scheduled E h t at') ?Q u" for at' u
      by (rule create_scheduled_wp [OF h(2) t(2-6)]) (use Some made' in \<open>auto simp: create_post_def\<close>)
    show ?thesis
      by (cases "rq_scheduled_at req") (auto simp: n c wp_bind intro!: now_wp)
  qed
  have "in_int64 (rq_max_retries req)" using Some by (rule read_create_request_range)
  then have make: "wp (do {
        t \<leftarrow> FromRequest E req;
        let t = (if rq_max_retries req \<le> 0 \<and> th_defaultMaxRetries h > 0
          then t\<lparr>t_max_retries := th_defaultMaxRetries h\<rparr> else t);
        case rq_scheduled_at req of
          None \<Rightarrow> create_now E h t
        | Some scheduledAt \<Rightarrow> do {
            now \<leftarrow> e_now E;
            if scheduledAt > now then create_scheduled E h t scheduledAt else create_now E h t
          } }) ?Q s1" for s1
    unfolding wp_bind Let_def
    by (rule FromRequest_wp, intro task) (use h(3) in \<open>auto simp: made_from_def\<close>)
  show ?thesis
    by (auto simp: Create_def Some wp_return create_post_def wp_bind [of "at_capacity E h"]
        intro!: at_capacity_wp make)
qed (simp add: Create_def wp_return create_post_def)

end

section \<open>Properties\<close>

text \<open>A handler over the sample queue, and the body of a request.\<close>

definition sample_handler :: "mem task_handler" where
  "sample_handler = NewTaskHandler sample_queue True (ScheduleTaskFunc mem_env) 2 5 True"

definition sample_body :: "gval option" where
  "sample_body = Some (GObj [(''type'', GStr ''echo''), (''payload'', GObj []), (''priority'', GNum 3)])"

text \<open>
  C15: Creation is all or nothing: a request answered with 201 has its task stored and either
  pending with a reference in the stream of its priority, or scheduled and in the scheduled set,
  and the body of the answer is that task; any other answer is 400, 503 or 500, and for 400 and 503
  the server is unchanged.
\<close>

theorem create_outcome:
  assumes "redis E \<alpha>" "queue_ok (th_queue h)" "th_scheduleTask h = ScheduleTaskFunc E"
    and "in_int64 (th_defaultMaxRetries h)" "run_state (Create E h body) s = (r, s')"
  shows "(\<exists>t. r = respondJSON 201 (response_doc (ToResponse t)) \<and> task_at (\<alpha> s') (t_id t) = Some (stored t) \<and>
      (t_state t = StatePending \<and>
         (\<exists>m \<in> set (s_entries (strm_at (\<alpha> s') (stream_of (th_queue h) (t_priority t)))). ref_id m = Some (t_id t)) \<or>
       t_state t = StateScheduled \<and> t_id t \<in> fst ` scheduled (\<alpha> s'))) \<or>
    reply_status r \<in> {400, 503} \<and> \<alpha> s' = \<alpha> s \<or> reply_status r = 500"
  using wp_runD [OF redis.Create_wp [OF assms(1-4)] assms(5)]
  by (auto simp: redis.create_post_def [OF assms(1)] accepted_task_def)

theorem create_outcome_witness:
  "reply_status (fst (run_state (Create mem_env sample_handler sample_body) sample_mem)) = 201 \<and>
   (\<exists>t. task_at (mem_view (snd (run_state (Create mem_env sample_handler sample_body) sample_mem))) (t_id t) =
      Some (stored t))"
proof -
  have ok: "queue_ok (th_queue sample_handler)" "th_scheduleTask sample_handler = ScheduleTaskFunc mem_env"
    "in_int64 (th_defaultMaxRetries sample_handler)"
    by (simp_all add: sample_handler_def NewTaskHandler_def queue_ok_def sample_queue_def in_int64_def)
  have "reply_status (fst (run_state (Create mem_env sample_handler sample_body) sample_mem)) = 201"
    by code_simp
  with create_outcome [OF mem.redis_axioms ok run_fstI [OF refl], of sample_body sample_mem] show ?thesis
    by auto
qed

text \<open>
  C39: The answer 503 for a full queue is given only when a positive limit is configured and the
  references handed out and not acknowledged, over all priorities, reach it; tasks that wait
  undelivered in the streams do not count.
\<close>

theorem create_backpressure:
  assumes "redis E \<alpha>" "run_state (at_capacity E h) s = (True, s')"
  shows "0 < th_maxQueueSize h \<and>
    th_maxQueueSize h \<le> (\<Sum>p\<leftarrow>priorities. int (length (pending_refs (th_queue h) (\<alpha> s) p))) \<and> \<alpha> s' = \<alpha> s"
proof -
  have "wp (at_capacity E h) (\<lambda>b s'. b \<longrightarrow> 0 < th_maxQueueSize h \<and>
    th_maxQueueSize h \<le> (\<Sum>p\<leftarrow>priorities. int (length (pending_refs (th_queue h) (\<alpha> s) p))) \<and> \<alpha> s' = \<alpha> s) s"
    by (rule redis.at_capacity_wp [OF assms(1)]) auto
  from wp_runD [OF this assms(2)] show ?thesis by simp
qed

text \<open>Two tasks handed out: the limit of 2 is reached. With none handed out it is not.\<close>

definition busy_mem :: mem where
  "busy_mem = snd (run_state (DequeueBlocking mem_env sample_queue ''w'') (enqueue_all
     [sample_task ''a'' PriorityHigh StatePending, sample_task ''b'' PriorityLow StatePending] sample_mem))"

theorem create_backpressure_witness:
  "2 \<le> (\<Sum>p\<leftarrow>priorities. int (length (pending_refs sample_queue (mem_view busy_mem) p)))"
proof -
  have "fst (run_state (at_capacity mem_env sample_handler) busy_mem) = True" by code_simp
  from create_backpressure [OF mem.redis_axioms run_fstI [OF this]] show ?thesis
    by (simp add: sample_handler_def NewTaskHandler_def)
qed

text \<open>
  C37: Canceling answers 200 only for a task that was pending, scheduled or retrying, which is then
  stored as canceled; for 400, 404 and 409 the server is unchanged. In no case does it take
  anything off the scheduled set: the entry of a scheduled or retrying task stays there.
\<close>

theorem cancel_effect:
  assumes "redis E \<alpha>" "\<forall>t. task_at (\<alpha> s) i = Some t \<longrightarrow> storable t \<and> t_id t = i"
    and "run_state (api_Cancel E h i) s = (r, s')"
  shows "scheduled (\<alpha> s') = scheduled (\<alpha> s) \<and>
    (reply_status r = 200 \<longrightarrow> (\<exists>t t'. task_at (\<alpha> s) i = Some t \<and>
       t_state t \<in> {StatePending, StateScheduled, StateRetrying} \<and>
       task_at (\<alpha> s') i = Some t' \<and> t_state t' = StateCanceled)) \<and>
    (reply_status r \<in> {400, 404, 409} \<longrightarrow> \<alpha> s' = \<alpha> s)"
proof -
  let ?Q = "\<lambda>r s'. scheduled (\<alpha> s') = scheduled (\<alpha> s) \<and>
    (reply_status r = 200 \<longrightarrow> (\<exists>t t'. task_at (\<alpha> s) i = Some t \<and>
       t_state t \<in> {StatePending, StateScheduled, StateRetrying} \<and>
       task_at (\<alpha> s') i = Some t' \<and> t_state t' = StateCanceled)) \<and>
    (reply_status r \<in> {400, 404, 409} \<longrightarrow> \<alpha> s' = \<alpha> s)"
  have cancel: "wp (Cancel E t) (\<lambda>r. wp (case r of (t, err) \<Rightarrow> (case err of
        Some _ \<Rightarrow> ret (respondError 409 ''failed to cancel task'')
      | None \<Rightarrow> do {
          _ \<leftarrow> (if t_state t = StateScheduled \<or> t_state t = StateRetrying
             then Queue_RemoveScheduledTask E i else ret None);
          err \<leftarrow> UpdateTask E (th_queue h) t;
          case err of
            Some _ \<Rightarrow> ret (respondError 500 ''failed to cancel task'')
          | None \<Rightarrow> ret (respondJSON 200 (response_doc (ToResponse t)))
        })) ?Q) s1"
    if s1: "\<alpha> s1 = \<alpha> s" and t: "task_at (\<alpha> s) i = Some t" "cancellable (t_state t)" for t s1
  proof -
    have st: "storable (enter_state now StateCanceled t)" "t_id t = i" for now
      using t(1) assms(2) by (auto simp: storable_def)
    have update: "wp (UpdateTask E (th_queue h) (enter_state now StateCanceled t)) (\<lambda>err. wp (case err of
        Some _ \<Rightarrow> ret (respondError 500 ''failed to cancel task'')
      | None \<Rightarrow> ret (respondJSON 200 (response_doc (ToResponse (enter_state now StateCanceled t))))) ?Q) s2"
      if "\<alpha> s2 = \<alpha> s" for s2 now
      by (rule redis.UpdateTask_wp [OF assms(1)])
        (use that st t in \<open>auto simp: wp_return cancellable_def\<close>)
    show ?thesis unfolding Cancel_def
      by (rule redis.Transition_silent [OF assms(1)])
        (use s1 update in \<open>auto simp: wp_return wp_bind\<close>)
  qed
  have "wp (api_Cancel E h i) ?Q s"
  proof (cases "i = ''''")
    case False
    show ?thesis unfolding api_Cancel_def if_not_P [OF False] wp_bind
    proof (rule redis.GetTask_wp [OF assms(1)], goal_cases)
      case (1 t s1)
      then show ?case using cancel [of s1 t] by (simp add: wp_return wp_bind)
    qed (simp add: wp_return)
  qed (simp add: api_Cancel_def wp_return)
  from wp_runD [OF this assms(3)] show ?thesis .
qed

theorem cancel_effect_witness:
  "(''b'', 5000) \<in> scheduled (mem_view (snd (run_state (api_Cancel mem_env sample_handler ''b'') scheduled_mem))) \<and>
   (\<exists>t. task_at (mem_view (snd (run_state (api_Cancel mem_env sample_handler ''b'') scheduled_mem))) ''b'' = Some t \<and>
      t_state t = StateCanceled)"
proof -
  have "reply_status (fst (run_state (api_Cancel mem_env sample_handler ''b'') scheduled_mem)) = 200" by code_simp
  moreover have b: "task_at (mem_view scheduled_mem) ''b'' = Some (sample_task ''b'' PriorityLow StateScheduled)"
    and sc: "(''b'', 5000) \<in> scheduled (mem_view scheduled_mem)" by code_simp+
  then have ok: "\<forall>t. task_at (mem_view scheduled_mem) ''b'' = Some t \<longrightarrow> storable t \<and> t_id t = ''b''"
    by (simp add: sample_task_storable) (simp add: sample_task_def)
  ultimately show ?thesis using sc cancel_effect [OF mem.redis_axioms ok run_fstI [OF refl], of sample_handler]
    by auto
qed

end
