(* ===== verification/AdminApi.thy ===== *)
theory AdminApi
  imports TaskApi Heartbeat
begin

text \<open>
  \<^verbatim>\<open>internal/api/handlers/admin.go\<close>: the administration endpoints for workers, queues, the
  dead letter queue and manual retries.
\<close>

record admin_handler =
  ah_queue :: redis_queue
  ah_publisher :: bool

definition NewAdminHandler :: "redis_queue \<Rightarrow> bool \<Rightarrow> admin_handler" where
  "NewAdminHandler q publisher = \<lparr>ah_queue = q, ah_publisher = publisher\<rparr>"

definition admin_publishWorkerEvent :: "'s env \<Rightarrow> admin_handler \<Rightarrow> event_type \<Rightarrow> string \<Rightarrow> string \<Rightarrow>
    ('s, unit) io" where
  "admin_publishWorkerEvent E h eventType workerID state =
     (if \<not> ah_publisher h then ret ()
      else do {
        e \<leftarrow> NewEvent E (event_name eventType)
          (Some [(''worker_id'', GStr workerID), (''state'', GStr state)]);
        _ \<leftarrow> Publish E e;
        ret ()
      })"

section \<open>Workers\<close>

definition ListWorkers :: "'s env \<Rightarrow> ('s, reply) io" where
  "ListWorkers E = do {
     r \<leftarrow> GetActiveWorkers E;
     case r of
       Inl _ \<Rightarrow> ret (respondError 500 ''failed to get workers'')
     | Inr workers \<Rightarrow> ret (respondJSON 200 (GObj [(''workers'', GArr (map info_doc workers)),
         (''count'', GNum (of_int (int (length workers))))]))
   }"

definition GetWorker :: "'s env \<Rightarrow> string \<Rightarrow> ('s, reply) io" where
  "GetWorker E workerID =
     (if workerID = '''' then ret (respondError 400 ''worker ID is required'')
      else do {
        alive \<leftarrow> IsWorkerAlive E workerID;
        case alive of
          Inl _ \<Rightarrow> ret (respondError 500 ''failed to get worker'')
        | Inr b \<Rightarrow> if \<not> b then ret (respondError 404 ''worker not found or not active'')
            else do {
              r \<leftarrow> GetActiveWorkers E;
              case r of
                Inl _ \<Rightarrow> ret (respondError 500 ''failed to get worker details'')
              | Inr workers \<Rightarrow> (case find (\<lambda>wk. wi_id wk = workerID) workers of
                    Some wk \<Rightarrow> ret (respondJSON 200 (info_doc wk))
                  | None \<Rightarrow> ret (respondError 404 ''worker not found''))
            }
      })"

definition PauseWorker :: "'s env \<Rightarrow> admin_handler \<Rightarrow> string \<Rightarrow> ('s, reply) io" where
  "PauseWorker E h workerID =
     (if workerID = '''' then ret (respondError 400 ''worker ID is required'')
      else do {
        alive \<leftarrow> IsWorkerAlive E workerID;
        case alive of
          Inl _ \<Rightarrow> ret (respondError 500 ''failed to check worker status'')
        | Inr b \<Rightarrow> if \<not> b then ret (respondError 404 ''worker not found or not active'')
            else do {
              r \<leftarrow> r_set E (pauseKey_of workerID) (GStr ''1'') 0;
              case r of
                Inl _ \<Rightarrow> ret (respondError 500 ''failed to pause worker'')
              | Inr _ \<Rightarrow> do {
                  _ \<leftarrow> admin_publishWorkerEvent E h EventWorkerPaused workerID ''paused'';
                  ret (respondJSON 200 (GObj [(''message'', GStr ''worker paused''),
                    (''worker_id'', GStr workerID)]))
                }
            }
      })"

definition ResumeWorker :: "'s env \<Rightarrow> admin_handler \<Rightarrow> string \<Rightarrow> ('s, reply) io" where
  "ResumeWorker E h workerID =
     (if workerID = '''' then ret (respondError 400 ''worker ID is required'')
      else do {
        alive \<leftarrow> IsWorkerAlive E workerID;
        case alive of
          Inl _ \<Rightarrow> ret (respondError 500 ''failed to check worker status'')
        | Inr b \<Rightarrow> if \<not> b then ret (respondError 404 ''worker not found or not active'')
            else do {
              r \<leftarrow> r_del E [pauseKey_of workerID];
              case r of
                Inl _ \<Rightarrow> ret (respondError 500 ''failed to resume worker'')
              | Inr _ \<Rightarrow> do {
                  _ \<leftarrow> admin_publishWorkerEvent E h EventWorkerResumed workerID ''busy'';
                  ret (respondJSON 200 (GObj [(''message'', GStr ''worker resumed''),
                    (''worker_id'', GStr workerID)]))
                }
            }
      })"

section \<open>Queues and tasks\<close>

definition GetQueues :: "'s env \<Rightarrow> admin_handler \<Rightarrow> ('s, reply) io" where
  "GetQueues E h = do {
     stats \<leftarrow> GetQueueStats E (ah_queue h);
     r \<leftarrow> DLQ_Size E;
     let stats = (case r of Inl _ \<Rightarrow> stats | Inr n \<Rightarrow> stats\<lparr>qs_dlq_size := n\<rparr>);
     ret (respondJSON 200 (stats_doc stats))
   }"

text \<open>The stream and the group are spelled out in the code, whatever the configuration.\<close>

definition PurgeQueue :: "'s env \<Rightarrow> string \<Rightarrow> ('s, reply) io" where
  "PurgeQueue E pname =
     (if pname = '''' then ret (respondError 400 ''priority is required'')
      else if pname \<noteq> Priority_String (ParsePriority pname)
      then ret (respondError 400 ''invalid priority: must be critical, high, normal, or low'')
      else do {
        let streamName = ''tasks:'' @ pname;
        r \<leftarrow> r_del E [streamName];
        case r of
          Inl _ \<Rightarrow> ret (respondError 500 ''failed to purge queue'')
        | Inr _ \<Rightarrow> do {
            _ \<leftarrow> r_xgroup_create_mkstream E streamName ''workers'' ''0'';
            ret (respondJSON 200 (GObj [(''message'', GStr ''queue purged''), (''priority'', GStr pname)]))
          }
      })"

definition RetryTask :: "'s env \<Rightarrow> admin_handler \<Rightarrow> string \<Rightarrow> ('s, reply) io" where
  "RetryTask E h taskID =
     (if taskID = '''' then ret (respondError 400 ''task ID is required'')
      else do {
        r \<leftarrow> GetTask E taskID;
        case r of
          Inl err \<Rightarrow> if err = ErrTaskNotFound then ret (respondError 404 ''task not found'')
            else ret (respondError 500 ''failed to get task'')
        | Inr t \<Rightarrow>
            if t_state t \<noteq> StateFailed \<and> t_state t \<noteq> StateDeadLetter
            then ret (respondError 409 ''only failed or dead_letter tasks can be retried'')
            else do {
              (t, err) \<leftarrow> Requeue E t;
              case err of
                Some _ \<Rightarrow> ret (respondError 409 ''failed to requeue task'')
              | None \<Rightarrow> do {
                  err \<leftarrow> UpdateTask E (ah_queue h) t;
                  case err of
                    Some _ \<Rightarrow> ret (respondError 500 ''failed to retry task'')
                  | None \<Rightarrow> do {
                      err \<leftarrow> Enqueue E (ah_queue h) t;
                      case err of
                        Some _ \<Rightarrow> ret (respondError 500 ''failed to retry task'')
                      | None \<Rightarrow> ret (respondJSON 200 (GObj [(''message'', GStr ''task re-queued''),
                          (''task_id'', GStr taskID)]))
                    }
                }
            }
      })"

section \<open>Dead letters\<close>

definition dlq_entry_doc :: "dlq_entry \<Rightarrow> gval" where
  "dlq_entry_doc e = GObj
     [(''task'', case de_task e of None \<Rightarrow> GNull | Some t \<Rightarrow> task_doc t),
      (''reason'', GStr (de_reason e)), (''added_at'', GTime (de_added_at e)),
      (''original_error'', GStr (de_orig_error e)), (''message_id'', GStr (de_message_id e))]"

definition ListDLQ :: "'s env \<Rightarrow> ('s, reply) io" where
  "ListDLQ E = do {
     r \<leftarrow> DLQ_List E 100 '''';
     case r of
       Inl _ \<Rightarrow> ret (respondError 500 ''failed to list DLQ'')
     | Inr entries \<Rightarrow> do {
         r \<leftarrow> DLQ_Size E;
         let n = (case r of Inl _ \<Rightarrow> 0 | Inr n \<Rightarrow> n);
         ret (respondJSON 200 (GObj [(''entries'', GArr (map dlq_entry_doc entries)),
           (''size'', GNum (of_int n))]))
       }
   }"

record retry_dlq_request =
  rd_task_id :: string
  rd_retry_all :: bool
  rd_message_id :: string

definition read_retry_dlq :: "(string \<times> gval) list \<Rightarrow> retry_dlq_request option" where
  "read_retry_dlq fs = do {
     t \<leftarrow> read_string (field fs ''task_id'');
     a \<leftarrow> read_bool (field fs ''retry_all'');
     m \<leftarrow> read_string (field fs ''message_id'');
     Some \<lparr>rd_task_id = t, rd_retry_all = a, rd_message_id = m\<rparr>
   }"

fun decode_retry_dlq :: "gval option \<Rightarrow> retry_dlq_request option" where
  "decode_retry_dlq (Some (GObj fs)) = read_retry_dlq fs"
| "decode_retry_dlq (Some GNull) = read_retry_dlq []"
| "decode_retry_dlq _ = None"

definition RetryDLQ :: "'s env \<Rightarrow> admin_handler \<Rightarrow> gval option \<Rightarrow> ('s, reply) io" where
  "RetryDLQ E h body = (case decode_retry_dlq body of
     None \<Rightarrow> ret (respondError 400 ''invalid request body'')
   | Some req \<Rightarrow>
       if rd_retry_all req then do {
         r \<leftarrow> DLQ_RetryAll E (ah_queue h);
         case r of
           Inl err \<Rightarrow> if err = NilDereference then ret Panic
             else ret (respondError 500 ''failed to retry DLQ tasks'')
         | Inr count \<Rightarrow> ret (respondJSON 200 (GObj [(''message'', GStr ''tasks re-queued''),
             (''retried_count'', GNum (of_int count))]))
       }
       else if rd_task_id req = '''' then ret (respondError 400 ''task_id or retry_all is required'')
       else do {
         err \<leftarrow> DLQ_Retry E (ah_queue h) (rd_task_id req) (rd_message_id req);
         case err of
           Some e \<Rightarrow> if e = NilDereference then ret Panic
             else if e = ErrTaskNotFound then ret (respondError 404 ''task not found in DLQ'')
             else ret (respondError 500 ''failed to retry task'')
         | None \<Rightarrow> ret (respondJSON 200 (GObj [(''message'', GStr ''task re-queued''),
             (''task_id'', GStr (rd_task_id req))]))
       })"

definition ClearDLQ :: "'s env \<Rightarrow> ('s, reply) io" where
  "ClearDLQ E = do {
     err \<leftarrow> DLQ_Clear E;
     case err of
       Some _ \<Rightarrow> ret (respondError 500 ''failed to clear DLQ'')
     | None \<Rightarrow> ret (respondJSON 200 (GObj [(''message'', GStr ''DLQ cleared'')]))
   }"

definition HealthCheck :: "'s env \<Rightarrow> ('s, reply) io" where
  "HealthCheck E = do {
     r \<leftarrow> r_ping E;
     case r of
       Inl err \<Rightarrow> ret (respondJSON 503 (GObj [(''status'', GStr ''unhealthy''),
         (''redis'', GStr ''disconnected''), (''error'', GStr (error_text err))]))
     | Inr _ \<Rightarrow> ret (respondJSON 200 (GObj [(''status'', GStr ''healthy''), (''redis'', GStr ''connected'')]))
   }"

section \<open>Properties\<close>

context redis
begin

lemma admin_publishWorkerEvent_wp:
  "(\<And>s'. \<alpha> s' = \<alpha> s \<Longrightarrow> Q () s') \<Longrightarrow> wp (admin_publishWorkerEvent E h ev i st) Q s"
  by (auto simp: admin_publishWorkerEvent_def wp_eqs intro!: NewEvent_wp Publish_wp)

lemma IsWorkerPaused_wp:
  assumes "\<And>s'. \<alpha> s' = \<alpha> s \<Longrightarrow> Q (Inr ((\<alpha> s) (pauseKey_of i) \<noteq> None)) s'"
    and "\<And>e s'. \<alpha> s' = \<alpha> s \<Longrightarrow> Q (Inl e) s'"
  shows "wp (IsWorkerPaused E i) Q s"
  unfolding IsWorkerPaused_def wp_bind
  by (rule exists_wp) (use assms in \<open>auto simp: wp_return\<close>)

lemma IsWorkerAlive_wp:
  assumes "\<And>b s'. \<alpha> s' = \<alpha> s \<Longrightarrow> Q (Inr b) s'" "\<And>e s'. \<alpha> s' = \<alpha> s \<Longrightarrow> Q (Inl e) s'"
  shows "wp (IsWorkerAlive E i) Q s"
  unfolding IsWorkerAlive_def wp_bind
  by (rule exists_wp) (use assms in \<open>auto simp: wp_return\<close>)

lemma PauseWorker_wp:
  assumes "\<And>r s'. (reply_status r = 200 \<Longrightarrow> (\<alpha> s') (pauseKey_of i) \<noteq> None) \<Longrightarrow>
    same_but {pauseKey_of i} (\<alpha> s) (\<alpha> s') \<Longrightarrow> Q r s'"
  shows "wp (PauseWorker E h i) Q s"
  by (auto simp: PauseWorker_def wp_eqs
      intro!: IsWorkerAlive_wp set_wp admin_publishWorkerEvent_wp assms)

lemma ResumeWorker_wp:
  assumes "\<And>r s'. (reply_status r = 200 \<Longrightarrow> (\<alpha> s') (pauseKey_of i) = None) \<Longrightarrow>
    same_but {pauseKey_of i} (\<alpha> s) (\<alpha> s') \<Longrightarrow> Q r s'"
  shows "wp (ResumeWorker E h i) Q s"
  by (auto simp: ResumeWorker_def wp_eqs del_keys_def
      intro!: IsWorkerAlive_wp del_wp admin_publishWorkerEvent_wp assms) (auto simp: same_but_def)

end

text \<open>
  Pausing and resuming a worker over the API is what the worker itself sees: after a pause
  answered with 200 its pause query says yes, after a resume answered with 200 it says no, and
  neither touches any other key.
\<close>

theorem pause_visible:
  assumes "redis E \<alpha>"
    and "run_state (do { r \<leftarrow> PauseWorker E h i; b \<leftarrow> IsWorkerPaused E i; ret (r, b) }) s = ((r, Inr b), s')"
    and "run_state (do { r \<leftarrow> ResumeWorker E h i; b \<leftarrow> IsWorkerPaused E i; ret (r, b) }) u = ((r', Inr b'), u')"
  shows "(reply_status r = 200 \<longrightarrow> b) \<and> (reply_status r' = 200 \<longrightarrow> \<not> b') \<and>
    (\<forall>k. k \<noteq> pauseKey_of i \<longrightarrow> (\<alpha> s') k = (\<alpha> s) k \<and> (\<alpha> u') k = (\<alpha> u) k)"
proof -
  have "wp (do { r \<leftarrow> PauseWorker E h i; b \<leftarrow> IsWorkerPaused E i; ret (r, b) })
    (\<lambda>(r, x) s'. \<forall>b. x = Inr b \<longrightarrow> (reply_status r = 200 \<longrightarrow> b) \<and> same_but {pauseKey_of i} (\<alpha> s) (\<alpha> s')) s"
    unfolding wp_bind
    by (rule redis.PauseWorker_wp [OF assms(1)], rule redis.IsWorkerPaused_wp [OF assms(1)])
      (auto simp: wp_return)
  moreover have "wp (do { r \<leftarrow> ResumeWorker E h i; b \<leftarrow> IsWorkerPaused E i; ret (r, b) })
    (\<lambda>(r, x) s'. \<forall>b. x = Inr b \<longrightarrow> (reply_status r = 200 \<longrightarrow> \<not> b) \<and> same_but {pauseKey_of i} (\<alpha> u) (\<alpha> s')) u"
    unfolding wp_bind
    by (rule redis.ResumeWorker_wp [OF assms(1)], rule redis.IsWorkerPaused_wp [OF assms(1)])
      (auto simp: wp_return)
  ultimately show ?thesis
    using wp_runD [OF _ assms(2)] wp_runD [OF _ assms(3)] by (fastforce simp: same_but_def)
qed

text \<open>A worker that is alive.\<close>

definition worker_mem :: mem where
  "worker_mem = snd (run_state (r_set mem_env (heartbeatKey_of ''w'') (GNum 1) 0) sample_mem)"

theorem pause_visible_witness:
  "fst (run_state (do { r \<leftarrow> PauseWorker mem_env (NewAdminHandler sample_queue False) ''w'';
     b \<leftarrow> IsWorkerPaused mem_env ''w''; ret (r, b) }) worker_mem) =
   (respondJSON 200 (GObj [(''message'', GStr ''worker paused''), (''worker_id'', GStr ''w'')]), Inr True)"
proof -
  let ?h = "NewAdminHandler sample_queue False"
  let ?p = "do { r \<leftarrow> PauseWorker mem_env ?h ''w''; b \<leftarrow> IsWorkerPaused mem_env ''w''; ret (r, b) }"
  let ?q = "do { r \<leftarrow> ResumeWorker mem_env ?h ''w''; b \<leftarrow> IsWorkerPaused mem_env ''w''; ret (r, b) }"
  let ?r = "respondJSON 200 (GObj [(''message'', GStr ''worker paused''), (''worker_id'', GStr ''w'')])"
  have "case fst (run_state ?p worker_mem) of (r, Inr b) \<Rightarrow> r = ?r | _ \<Rightarrow> False" by code_simp
  then obtain b where p: "fst (run_state ?p worker_mem) = (?r, Inr b)" by (auto split: prod.splits sum.splits)
  have "case fst (run_state ?q worker_mem) of (r, Inr b) \<Rightarrow> True | _ \<Rightarrow> False" by code_simp
  then obtain r' b' where q: "fst (run_state ?q worker_mem) = (r', Inr b')" by (auto split: prod.splits sum.splits)
  from pause_visible [OF mem.redis_axioms run_fstI [OF p] run_fstI [OF q]] p show ?thesis by simp
qed

text \<open>
  Purging refuses every text but the four priority names, and a refused or failed purge never
  touches any key but the stream of that name.
\<close>

theorem purge_names:
  assumes "redis E \<alpha>" "run_state (PurgeQueue E pname) s = (r, s')"
  shows "(reply_status r = 400 \<longleftrightarrow> pname \<notin> {''critical'', ''high'', ''normal'', ''low''}) \<and>
    (reply_status r = 400 \<longrightarrow> \<alpha> s' = \<alpha> s) \<and> (\<forall>k. k \<noteq> ''tasks:'' @ pname \<longrightarrow> (\<alpha> s') k = (\<alpha> s) k)"
proof -
  have valid: "pname = Priority_String (ParsePriority pname) \<longleftrightarrow> pname \<in> {''critical'', ''high'', ''normal'', ''low''}"
    by (auto simp: ParsePriority_def)
  let ?Q = "\<lambda>r s'. (reply_status r = 400 \<longleftrightarrow> pname \<notin> {''critical'', ''high'', ''normal'', ''low''}) \<and>
    (reply_status r = 400 \<longrightarrow> \<alpha> s' = \<alpha> s) \<and> same_but {''tasks:'' @ pname} (\<alpha> s) (\<alpha> s')"
  have "wp (PurgeQueue E pname) ?Q s"
  proof (cases "pname \<in> {''critical'', ''high'', ''normal'', ''low''}")
    case False
    then have "\<not> pname = Priority_String (ParsePriority pname)" using valid by blast
    then show ?thesis using False by (simp add: PurgeQueue_def wp_return)
  next
    case True
    then have ok: "pname = Priority_String (ParsePriority pname)" "pname \<noteq> ''''" using valid by auto
    have group: "wp (r_xgroup_create_mkstream E (''tasks:'' @ pname) ''workers'' ''0'') (\<lambda>_. wp (ret
        (respondJSON 200 (GObj [(''message'', GStr ''queue purged''), (''priority'', GStr pname)]))) ?Q) s1"
      if "same_but {''tasks:'' @ pname} (\<alpha> s) (\<alpha> s1)" for s1
      by (rule wp_mono [OF redis.xgroup [OF assms(1)]])
        (use that True in \<open>auto simp: wp_return split: sum.splits\<close>)
    show ?thesis
      unfolding PurgeQueue_def if_not_P [OF ok(2)] if_not_P [of "pname \<noteq> Priority_String (ParsePriority pname)",
          unfolded not_not, OF ok(1)] Let_def wp_bind
    proof (rule redis.del_wp [OF assms(1)], goal_cases)
      case (1 n s1)
      show ?case unfolding sum.case wp_bind by (rule group) (simp add: 1)
    next
      case (2 e s1)
      then have "same_but {''tasks:'' @ pname} (\<alpha> s) (\<alpha> s1)" by auto
      then show ?case using True by (simp add: wp_return)
    qed
  qed
  from wp_runD [OF this assms(2)] show ?thesis by (simp add: same_but_def)
qed

theorem purge_names_witness:
  "reply_status (fst (run_state (PurgeQueue mem_env ''urgent'') sample_mem)) = 400 \<and>
   reply_status (fst (run_state (PurgeQueue mem_env ''high'') sample_mem)) \<noteq> 400"
  using purge_names [OF mem.redis_axioms run_fstI [OF refl], of "''urgent''" sample_mem]
    purge_names [OF mem.redis_axioms run_fstI [OF refl], of "''high''" sample_mem] by simp

text \<open>
  A manual retry answered with 200 was for a failed or dead-letter task, which is then stored as
  pending with its attempts reset and a reference in its stream; for 400, 404 and 409 the server is
  unchanged. The dead letter queue is never touched: an entry for the task stays in it.
\<close>

theorem retry_task_effect:
  assumes "redis E \<alpha>" "queue_ok (ah_queue h)" "\<forall>t. task_at (\<alpha> s) i = Some t \<longrightarrow> storable t \<and> t_id t = i"
    and "run_state (RetryTask E h i) s = (r, s')"
  shows "dlq_entries (\<alpha> s') = dlq_entries (\<alpha> s) \<and> (reply_status r \<in> {400, 404, 409} \<longrightarrow> \<alpha> s' = \<alpha> s) \<and>
    (reply_status r = 200 \<longrightarrow> requeued (ah_queue h) (\<alpha> s') i \<and>
      (\<exists>t. task_at (\<alpha> s) i = Some t \<and> t_state t \<in> {StateFailed, StateDeadLetter}))"
proof -
  let ?q = "ah_queue h"
  let ?Q = "\<lambda>r s'. dlq_entries (\<alpha> s') = dlq_entries (\<alpha> s) \<and> (reply_status r \<in> {400, 404, 409} \<longrightarrow> \<alpha> s' = \<alpha> s) \<and>
    (reply_status r = 200 \<longrightarrow> requeued ?q (\<alpha> s') i \<and>
      (\<exists>t. task_at (\<alpha> s) i = Some t \<and> t_state t \<in> {StateFailed, StateDeadLetter}))"
  have enqueue: "wp (Enqueue E ?q t') (\<lambda>err. wp (case err of
        Some _ \<Rightarrow> ret (respondError 500 ''failed to retry task'')
      | None \<Rightarrow> ret (respondJSON 200 (GObj [(''message'', GStr ''task re-queued''), (''task_id'', GStr i)]))) ?Q) s1"
    if "dlq_entries (\<alpha> s1) = dlq_entries (\<alpha> s)" "storable t'" "t_state t' = StatePending" "t_attempts t' = 0"
      "t_id t' = i" "task_at (\<alpha> s) i = Some t" "t_state t \<in> {StateFailed, StateDeadLetter}" for t t' s1
  proof (rule redis.Enqueue_wp [OF assms(1)], goal_cases)
    case (1 j s2)
    have "dlq_entries (\<alpha> s2) = dlq_entries (\<alpha> s1)"
      unfolding 1(5) by (rule dlq_entries_cong) (simp add: push_ref_def put_task_def)
    moreover have "requeued ?q (\<alpha> s2) i"
      unfolding 1(5) that(5) [symmetric] by (rule requeued_push [OF assms(2) that(2,3,4)])
    ultimately show ?case using that by (simp add: wp_return)
  next
    case (2 e s2)
    then have "dlq_entries (\<alpha> s2) = dlq_entries (\<alpha> s1)"
      by (intro dlq_entries_cong) (simp add: enq_frame_def same_but_def)
    then show ?case using that(1) by (simp add: wp_return)
  qed
  have requeue: "wp (Requeue E t) (\<lambda>x. wp (case x of (t, err) \<Rightarrow> (case err of
        Some _ \<Rightarrow> ret (respondError 409 ''failed to requeue task'')
      | None \<Rightarrow> do {
          err \<leftarrow> UpdateTask E ?q t;
          case err of
            Some _ \<Rightarrow> ret (respondError 500 ''failed to retry task'')
          | None \<Rightarrow> do {
              err \<leftarrow> Enqueue E ?q t;
              case err of
                Some _ \<Rightarrow> ret (respondError 500 ''failed to retry task'')
              | None \<Rightarrow> ret (respondJSON 200 (GObj [(''message'', GStr ''task re-queued''), (''task_id'', GStr i)]))
            }
        })) ?Q) s1"
    if s1: "\<alpha> s1 = \<alpha> s" and t: "task_at (\<alpha> s) i = Some t" "t_state t \<in> {StateFailed, StateDeadLetter}" for t s1
  proof -
    let ?t = "\<lambda>now. enter_state now StatePending (reset_task t)"
    have st: "storable (?t now)" "t_id (?t now) = i" "t_attempts (?t now) = 0" for now
      using t(1) assms(3) by (auto simp: storable_def reset_task_def in_int64_def [of 0])
    have dlq: "dlq_entries (put_task t' ttl v) = dlq_entries v" for t' ttl v
      by (rule dlq_entries_cong) (simp add: put_task_def)
    show ?thesis unfolding Requeue_def
    proof (rule redis.Transition_silent [OF assms(1)], goal_cases)
      case (2 now s2)
      show ?case unfolding prod.case option.case wp_bind
      proof (rule redis.UpdateTask_wp [OF assms(1)], goal_cases)
        case (1 s3)
        show ?case unfolding option.case wp_bind
          by (rule enqueue [of _ "?t now"]) (use 1 2 s1 st t dlq in simp_all)
      qed (use 2 s1 dlq in \<open>auto simp: wp_return\<close>)
    qed (use s1 in \<open>simp add: wp_return\<close>)
  qed
  have "wp (RetryTask E h i) ?Q s"
  proof (cases "i = ''''")
    case False
    show ?thesis unfolding RetryTask_def if_not_P [OF False] wp_bind
    proof (rule redis.GetTask_wp [OF assms(1)], goal_cases)
      case (1 t s1)
      then show ?case using requeue [of s1 t] by (simp add: wp_return wp_bind)
    qed (simp add: wp_return)
  qed (simp add: RetryTask_def wp_return)
  from wp_runD [OF this assms(4)] show ?thesis .
qed

text \<open>A task that is stored as dead letter and has an entry in the dead letter queue.\<close>

definition failed_mem :: mem where
  "failed_mem = snd (run_state (UpdateTask mem_env sample_queue (sample_task ''a'' PriorityLow StateDeadLetter)) dead_mem)"

theorem retry_task_effect_witness:
  "requeued sample_queue (mem_view (snd (run_state (RetryTask mem_env (NewAdminHandler sample_queue False) ''a'') failed_mem))) ''a'' \<and>
   length (dlq_entries (mem_view (snd (run_state (RetryTask mem_env (NewAdminHandler sample_queue False) ''a'') failed_mem)))) = 2"
proof -
  let ?h = "NewAdminHandler sample_queue False"
  have status: "reply_status (fst (run_state (RetryTask mem_env ?h ''a'') failed_mem)) = 200"
    and entries: "length (dlq_entries (mem_view failed_mem)) = 2"
    and q: "queue_ok (ah_queue ?h)" by code_simp+
  have "task_at (mem_view failed_mem) ''a'' = Some (sample_task ''a'' PriorityLow StateDeadLetter)" by code_simp
  then have ok: "\<forall>t. task_at (mem_view failed_mem) ''a'' = Some t \<longrightarrow> storable t \<and> t_id t = ''a''"
    by (simp add: sample_task_storable) (simp add: sample_task_def)
  from retry_task_effect [OF mem.redis_axioms q ok run_fstI [OF refl]] status entries show ?thesis
    by (simp add: NewAdminHandler_def)
qed

end
