(* ===== verification/Pool.thy ===== *)
theory Pool
  imports Worker
begin

text \<open>
  \<^verbatim>\<open>internal/worker/pool.go\<close>, the part around the tasks: starting, pausing, resuming and
  stopping the pool, and the loops of its worker goroutines with their channels. What happens
  inside \<^verbatim>\<open>processNextTask\<close> is in the theory \<open>Worker\<close>; here it is the stretch between
  taking and releasing a semaphore slot.
\<close>

section \<open>Shared state and the goroutines\<close>

text \<open>
  Where a worker goroutine stands in its loop. \<open>WaitResume g\<close> is blocked on the resume channel
  it read when that channel was the \<open>g\<close>-th; \<open>Fetching\<close> and \<open>Running\<close> hold a semaphore slot, and
  so does \<open>Releasing\<close>.
\<close>

datatype pc =
    AtTop
  | AtState
  | SawPaused
  | WaitResume nat
  | AtFlag
  | FlagWait
  | AtAcquire
  | Fetching
  | Running string
  | Releasing
  | Exited

text \<open>
  What the goroutines share. A channel that is closed and replaced is its generation: every
  channel of a smaller generation is closed. \<open>sy_current\<close> holds the keys of \<^verbatim>\<open>currentTasks\<close>.
\<close>

record pool_sync =
  sy_state :: pool_state
  sy_stopped :: bool
  sy_pauseGen :: nat
  sy_resumeGen :: nat
  sy_sem :: nat
  sy_current :: "string list"
  sy_ctxDone :: bool
  sy_workers :: "pc list"

definition new_sync :: pool_sync where
  "new_sync = \<lparr>sy_state = StateIdle, sy_stopped = False, sy_pauseGen = 0, sy_resumeGen = 0, sy_sem = 0,
     sy_current = [], sy_ctxDone = False, sy_workers = []\<rparr>"

text \<open>\<^verbatim>\<open>Start\<close> spawns one worker per unit of the configured concurrency.\<close>

definition Pool_Start :: "nat \<Rightarrow> pool_sync \<Rightarrow> pool_sync" where
  "Pool_Start concurrency s = s\<lparr>sy_state := StateBusy,
     sy_workers := sy_workers s @ replicate concurrency AtTop\<rparr>"

text \<open>Closing a closed channel panics: \<open>None\<close>.\<close>

definition Pool_Stop :: "pool_sync \<Rightarrow> pool_sync option" where
  "Pool_Stop s = (let s = s\<lparr>sy_state := StateShuttingDown\<rparr> in
     if sy_stopped s then None else Some (s\<lparr>sy_stopped := True\<rparr>))"

definition Pool_Pause :: "pool_sync \<Rightarrow> pool_sync" where
  "Pool_Pause s = (if sy_state s = StateBusy
     then s\<lparr>sy_state := StatePaused, sy_pauseGen := sy_pauseGen s + 1\<rparr> else s)"

definition Pool_Resume :: "pool_sync \<Rightarrow> pool_sync" where
  "Pool_Resume s = (if sy_state s = StatePaused
     then s\<lparr>sy_state := StateBusy, sy_resumeGen := sy_resumeGen s + 1\<rparr> else s)"

definition Pool_State :: "pool_sync \<Rightarrow> pool_state" where
  "Pool_State s = sy_state s"

definition ActiveTasks :: "pool_sync \<Rightarrow> int" where
  "ActiveTasks s = int (length (sy_current s))"

section \<open>One step of a worker\<close>

text \<open>
  What a step depends on beside the shared state: the case a \<^verbatim>\<open>select\<close> picks, the answer of the
  pause flag in Redis, what the queue hands out, and when the task is over.
\<close>

datatype choice =
    Proceed
  | TakeCtx
  | TakeStop
  | FlagAnswer bool
  | Handout "string option"

text \<open>The positions where the worker is in a \<^verbatim>\<open>select\<close> with the context and the stop channel.\<close>

fun in_select :: "pc \<Rightarrow> bool" where
  "in_select AtTop = True"
| "in_select (WaitResume g) = True"
| "in_select FlagWait = True"
| "in_select AtAcquire = True"
| "in_select p = False"

text \<open>
  \<open>worker_step cap s p c\<close>: the next position and shared state of a worker at \<open>p\<close>, \<open>None\<close> when it
  cannot make that step. \<open>cap\<close> is the capacity of the semaphore channel.
\<close>

fun worker_step :: "nat \<Rightarrow> pool_sync \<Rightarrow> pc \<Rightarrow> choice \<Rightarrow> (pc \<times> pool_sync) option" where
  "worker_step cap s AtTop Proceed =
     (if sy_ctxDone s \<or> sy_stopped s then None else Some (AtState, s))"
| "worker_step cap s AtState Proceed =
     Some (if Pool_State s = StatePaused then SawPaused else AtFlag, s)"
| "worker_step cap s SawPaused Proceed = Some (WaitResume (sy_resumeGen s), s)"
| "worker_step cap s (WaitResume g) Proceed = (if g < sy_resumeGen s then Some (AtFlag, s) else None)"
| "worker_step cap s AtFlag (FlagAnswer paused) = Some (if paused then FlagWait else AtAcquire, s)"
| "worker_step cap s FlagWait Proceed = Some (AtTop, s)"
| "worker_step cap s AtAcquire Proceed =
     (if sy_sem s < cap then Some (Fetching, s\<lparr>sy_sem := sy_sem s + 1\<rparr>) else None)"
| "worker_step cap s Fetching (Handout None) = Some (Releasing, s)"
| "worker_step cap s Fetching (Handout (Some i)) =
     Some (Running i, s\<lparr>sy_current := List.insert i (sy_current s)\<rparr>)"
| "worker_step cap s (Running i) Proceed =
     Some (Releasing, s\<lparr>sy_current := removeAll i (sy_current s)\<rparr>)"
| "worker_step cap s Releasing Proceed = Some (AtTop, s\<lparr>sy_sem := sy_sem s - 1\<rparr>)"
| "worker_step cap s p TakeCtx = (if sy_ctxDone s \<and> in_select p then Some (Exited, s) else None)"
| "worker_step cap s p TakeStop = (if sy_stopped s \<and> in_select p then Some (Exited, s) else None)"
| "worker_step cap s p c = None"

text \<open>Some worker makes a step.\<close>

inductive worker_moves :: "nat \<Rightarrow> pool_sync \<Rightarrow> pool_sync \<Rightarrow> bool" for cap where
  move: "i < length (sy_workers s) \<Longrightarrow> worker_step cap s (sy_workers s ! i) c = Some (p, s') \<Longrightarrow>
     worker_moves cap s (s'\<lparr>sy_workers := (sy_workers s')[i := p]\<rparr>)"

text \<open>The pool takes a step when one of its workers does, or when an operation is called.\<close>

inductive pool_step :: "nat \<Rightarrow> pool_sync \<Rightarrow> pool_sync \<Rightarrow> bool" for cap where
  worker: "worker_moves cap s s' \<Longrightarrow> pool_step cap s s'"
| pause: "pool_step cap s (Pool_Pause s)"
| resume: "pool_step cap s (Pool_Resume s)"
| stop: "Pool_Stop s = Some s' \<Longrightarrow> pool_step cap s s'"
| cancel: "pool_step cap s (s\<lparr>sy_ctxDone := True\<rparr>)"

text \<open>The states a started pool can get into.\<close>

inductive reachable :: "nat \<Rightarrow> pool_sync \<Rightarrow> bool" for cap where
  start: "reachable cap (Pool_Start cap new_sync)"
| step: "reachable cap s \<Longrightarrow> pool_step cap s s' \<Longrightarrow> reachable cap s'"

text \<open>Scripts of steps, to run the model.\<close>

datatype pool_action =
    ByWorker nat choice
  | DoPause
  | DoResume
  | DoStop
  | DoCancel

fun act :: "nat \<Rightarrow> pool_sync \<Rightarrow> pool_action \<Rightarrow> pool_sync option" where
  "act cap s (ByWorker i c) = (if i < length (sy_workers s) then
     (case worker_step cap s (sy_workers s ! i) c of
        None \<Rightarrow> None | Some (p, s') \<Rightarrow> Some (s'\<lparr>sy_workers := (sy_workers s')[i := p]\<rparr>)) else None)"
| "act cap s DoPause = Some (Pool_Pause s)"
| "act cap s DoResume = Some (Pool_Resume s)"
| "act cap s DoStop = Pool_Stop s"
| "act cap s DoCancel = Some (s\<lparr>sy_ctxDone := True\<rparr>)"

fun acts :: "nat \<Rightarrow> pool_action list \<Rightarrow> pool_sync \<Rightarrow> pool_sync option" where
  "acts cap [] s = Some s"
| "acts cap (a # as) s = (case act cap s a of None \<Rightarrow> None | Some s' \<Rightarrow> acts cap as s')"

lemma act_step: "act cap s a = Some s' \<Longrightarrow> pool_step cap s s'"
  by (cases a) (auto intro: pool_step.intros worker_moves.intros split: if_splits option.splits)

lemma acts_reachable: "reachable cap s \<Longrightarrow> acts cap as s = Some s' \<Longrightarrow> reachable cap s'"
proof (induction as arbitrary: s)
  case (Cons a as)
  then obtain u where "act cap s a = Some u" "acts cap as u = Some s'" by (auto split: option.splits)
  then show ?case using Cons.IH [OF reachable.step [OF Cons.prems(1) act_step]] by blast
qed simp

section \<open>The invariant of the semaphore\<close>

fun holds_slot :: "pc \<Rightarrow> bool" where
  "holds_slot Fetching = True"
| "holds_slot (Running i) = True"
| "holds_slot Releasing = True"
| "holds_slot p = False"

lemma in_selectD: "in_select p \<Longrightarrow> \<not> holds_slot p \<and> (\<forall>j. p \<noteq> Running j)"
  by (cases p) auto

definition holders :: "pc list \<Rightarrow> nat" where
  "holders ps = length (filter holds_slot ps)"

definition running_ids :: "pc list \<Rightarrow> string set" where
  "running_ids ps = {i. Running i \<in> set ps}"

definition pool_inv :: "nat \<Rightarrow> pool_sync \<Rightarrow> bool" where
  "pool_inv cap s \<longleftrightarrow> length (sy_workers s) = cap \<and> sy_sem s = holders (sy_workers s) \<and>
     distinct (sy_current s) \<and> set (sy_current s) \<subseteq> running_ids (sy_workers s)"

lemma holders_update:
  "i < length ps \<Longrightarrow> holders (ps[i := p]) + (if holds_slot (ps ! i) then 1 else 0) =
     holders ps + (if holds_slot p then 1 else 0)"
proof (induction ps arbitrary: i)
  case (Cons q ps)
  then show ?case by (cases i) (auto simp: holders_def)
qed simp

lemma running_update:
  "i < length ps \<Longrightarrow> running_ids ps \<subseteq> running_ids (ps[i := p]) \<union> {j. ps ! i = Running j}"
  "i < length ps \<Longrightarrow> p = Running j \<Longrightarrow> j \<in> running_ids (ps[i := p])"
  by (auto simp: running_ids_def in_set_conv_nth) (metis nth_list_update_neq)

text \<open>A step changes the slot count as its position says, and leaves the list of workers alone.\<close>

lemma worker_step_sem:
  assumes "worker_step cap s p c = Some (p', s')" "holds_slot p \<Longrightarrow> 0 < sy_sem s"
  shows "sy_workers s' = sy_workers s \<and>
    sy_sem s' + (if holds_slot p then 1 else 0) = sy_sem s + (if holds_slot p' then 1 else 0)"
  using assms
  by (cases "(cap, s, p, c)" rule: worker_step.cases) (auto split: if_splits dest: in_selectD)

lemma worker_step_distinct:
  "worker_step cap s p c = Some (p', s') \<Longrightarrow> distinct (sy_current s) \<Longrightarrow> distinct (sy_current s')"
  by (cases "(cap, s, p, c)" rule: worker_step.cases) (auto split: if_splits simp: distinct_removeAll)

lemma worker_step_current:
  "worker_step cap s p c = Some (p', s') \<Longrightarrow>
   set (sy_current s') \<subseteq> set (sy_current s) - {j. p = Running j} \<union> {j. p' = Running j}"
  by (cases "(cap, s, p, c)" rule: worker_step.cases) (auto split: if_splits dest: in_selectD)

lemma holders_pos: "i < length ps \<Longrightarrow> holds_slot (ps ! i) \<Longrightarrow> 0 < holders ps"
  unfolding holders_def by (simp add: filter_empty_conv) (metis nth_mem)

lemma pool_inv_moves:
  assumes "worker_moves cap s s'" "pool_inv cap s"
  shows "pool_inv cap s'"
  using assms
proof (induction rule: worker_moves.induct)
  case (move i s c p s')
  let ?p = "sy_workers s ! i"
  have pos: "holds_slot ?p \<Longrightarrow> 0 < sy_sem s"
    using holders_pos [OF move.hyps(1)] move.prems by (simp add: pool_inv_def)
  note sem = worker_step_sem [OF move.hyps(2) pos]
  have "distinct (sy_current s)" using move.prems by (simp add: pool_inv_def)
  note current = worker_step_distinct [OF move.hyps(2) this] worker_step_current [OF move.hyps(2)]
  have "set (sy_current s') \<subseteq> running_ids ((sy_workers s)[i := p])"
    using current(2) running_update(1) [OF move.hyps(1), of p] running_update(2) [OF move.hyps(1), of p]
      move.prems by (auto simp: pool_inv_def)
  moreover have "sy_sem s' = holders ((sy_workers s)[i := p])"
    using sem holders_update [OF move.hyps(1), of p] move.prems by (auto simp: pool_inv_def split: if_splits)
  ultimately show ?case using sem current(1) move.prems by (simp add: pool_inv_def)
qed

inductive_cases pool_stepE: "pool_step cap s s'"

lemma pool_inv_reachable: "reachable cap s \<Longrightarrow> pool_inv cap s"
proof (induction rule: reachable.induct)
  case start
  have "holders (replicate n AtTop) = 0" for n by (simp add: holders_def)
  then show ?case by (simp add: pool_inv_def Pool_Start_def new_sync_def)
next
  case (step s s')
  from step.hyps(2) show ?case
    by (rule pool_stepE)
      (use step.IH pool_inv_moves in \<open>auto simp: pool_inv_def Pool_Pause_def Pool_Resume_def Pool_Stop_def Let_def
        split: if_splits\<close>)
qed

section \<open>Stopping\<close>

text \<open>How far a worker is from its end once the stop channel is closed.\<close>

fun steps_left :: "pc \<Rightarrow> nat" where
  "steps_left AtState = 10"
| "steps_left SawPaused = 9"
| "steps_left (WaitResume g) = 8"
| "steps_left AtFlag = 7"
| "steps_left AtAcquire = 6"
| "steps_left Fetching = 5"
| "steps_left (Running i) = 4"
| "steps_left Releasing = 3"
| "steps_left FlagWait = 2"
| "steps_left AtTop = 1"
| "steps_left Exited = 0"

lemma in_select_left: "in_select p \<Longrightarrow> 0 < steps_left p"
  by (cases p) auto

definition all_left :: "pool_sync \<Rightarrow> nat" where
  "all_left s = sum_list (map steps_left (sy_workers s))"

lemma worker_step_stopped:
  "worker_step cap s p c = Some (p', s') \<Longrightarrow> sy_stopped s \<Longrightarrow>
   sy_stopped s' \<and> steps_left p' < steps_left p \<and> sy_workers s' = sy_workers s"
  by (cases "(cap, s, p, c)" rule: worker_step.cases) (auto split: if_splits dest: in_select_left)

lemma sum_left_update:
  "i < length ps \<Longrightarrow> steps_left p < steps_left (ps ! i) \<Longrightarrow>
   sum_list (map steps_left (ps[i := p])) < sum_list (map steps_left ps)"
proof (induction ps arbitrary: i)
  case (Cons q ps)
  then show ?case by (cases i) auto
qed simp

lemma moves_stopped:
  "worker_moves cap s s' \<Longrightarrow> sy_stopped s \<Longrightarrow>
   sy_stopped s' \<and> all_left s' < all_left s \<and> length (sy_workers s') = length (sy_workers s)"
proof (induction rule: worker_moves.induct)
  case (move i s c p s')
  then show ?case
    using worker_step_stopped [OF move.hyps(2) move.prems] sum_left_update [OF move.hyps(1), of p]
    by (simp add: all_left_def)
qed

text \<open>A worker that has not exited can always go on.\<close>

lemma stopped_can_move:
  "sy_stopped s \<Longrightarrow> p \<noteq> Exited \<Longrightarrow> \<exists>c p' s'. worker_step cap s p c = Some (p', s')"
  by (cases p) (auto intro: exI [of _ TakeStop] exI [of _ Proceed] exI [of _ "FlagAnswer False"]
      exI [of _ "Handout None"])

section \<open>Properties\<close>

text \<open>
  C13: In every reachable state of a started pool the semaphore counts exactly the workers between
  taking and releasing a slot, at most the configured concurrency; the tasks reported as active are
  distinct and each is being run by a worker; and a worker that wants a slot never has to wait for
  one.
\<close>

theorem semaphore_exact:
  assumes "reachable cap s"
  shows "sy_sem s = length (filter holds_slot (sy_workers s)) \<and> sy_sem s \<le> cap \<and>
    distinct (sy_current s) \<and> (\<forall>i \<in> set (sy_current s). Running i \<in> set (sy_workers s)) \<and>
    ActiveTasks s \<le> int cap \<and>
    (AtAcquire \<in> set (sy_workers s) \<longrightarrow> worker_step cap s AtAcquire Proceed \<noteq> None)"
proof -
  have inv: "length (sy_workers s) = cap" "sy_sem s = holders (sy_workers s)" "distinct (sy_current s)"
    "set (sy_current s) \<subseteq> running_ids (sy_workers s)"
    using pool_inv_reachable [OF assms] by (simp_all add: pool_inv_def)
  have "length (sy_current s) \<le> length (sy_workers s)"
  proof -
    have "Running ` set (sy_current s) \<subseteq> set (sy_workers s)" using inv(4) by (auto simp: running_ids_def)
    then have "card (Running ` set (sy_current s)) \<le> card (set (sy_workers s))" by (rule card_mono [OF finite_set])
    moreover have "card (Running ` set (sy_current s)) = length (sy_current s)"
      using inv(3) by (simp add: card_image inj_on_def distinct_card)
    ultimately show ?thesis using card_length [of "sy_workers s"] by linarith
  qed
  moreover have "holders (sy_workers s) < length (sy_workers s)" if "AtAcquire \<in> set (sy_workers s)"
    unfolding holders_def using length_filter_less [OF that, of holds_slot] by simp
  moreover have "holders (sy_workers s) \<le> length (sy_workers s)" by (simp add: holders_def)
  ultimately show ?thesis using inv by (auto simp: ActiveTasks_def holders_def running_ids_def)
qed

text \<open>A pool of two workers, one of which has taken a slot and one of which is about to.\<close>

definition sample_sync :: pool_sync where
  "sample_sync = (Pool_Start 2 new_sync)\<lparr>sy_workers := [Fetching, AtAcquire], sy_sem := 1\<rparr>"

lemma sample_sync_reachable: "reachable 2 sample_sync"
proof (rule acts_reachable [OF reachable.start])
  show "acts 2 [ByWorker 0 Proceed, ByWorker 0 Proceed, ByWorker 0 (FlagAnswer False), ByWorker 0 Proceed,
      ByWorker 1 Proceed, ByWorker 1 Proceed, ByWorker 1 (FlagAnswer False)] (Pool_Start 2 new_sync) = Some sample_sync"
    by (simp add: sample_sync_def Pool_Start_def new_sync_def Pool_State_def numeral_2_eq_2)
qed

theorem semaphore_exact_witness:
  "worker_step 2 sample_sync AtAcquire Proceed \<noteq> None \<and> ActiveTasks sample_sync \<le> 2"
  using semaphore_exact [OF sample_sync_reachable] by (simp add: sample_sync_def)

text \<open>
  C25: Once the stop channel is closed, the workers drain: they make at most ten steps each in
  any order, and as long as one of them has not exited, it can make a step. So a stopped pool whose
  tasks return ends with every worker exited.
\<close>

theorem stopped_drains:
  assumes "sy_stopped s" "(worker_moves cap ^^ n) s s'"
  shows "n \<le> 10 * length (sy_workers s) \<and>
    ((\<exists>p \<in> set (sy_workers s'). p \<noteq> Exited) \<longrightarrow> (\<exists>s''. worker_moves cap s' s''))"
proof -
  have run: "(worker_moves cap ^^ n) s s' \<Longrightarrow> sy_stopped s' \<and> n + all_left s' \<le> all_left s" for n s'
  proof (induction n arbitrary: s')
    case (Suc n)
    then obtain u where "(worker_moves cap ^^ n) s u" "worker_moves cap u s'" by auto
    then show ?case using Suc.IH [of u] moves_stopped [of cap u s'] by fastforce
  qed (simp add: assms(1))
  have "steps_left p \<le> 10" for p by (cases p) auto
  then have bound: "sum_list (map steps_left ps) \<le> 10 * length ps" for ps
    by (induction ps) (auto intro: add_mono)
  have "\<exists>s''. worker_moves cap s' s''" if p: "p \<in> set (sy_workers s')" "p \<noteq> Exited" for p
  proof -
    obtain i where i: "i < length (sy_workers s')" "sy_workers s' ! i = p"
      using p(1) by (auto simp: in_set_conv_nth)
    obtain c p' t where "worker_step cap s' p c = Some (p', t)"
      using stopped_can_move [OF _ p(2)] run [OF assms(2)] by blast
    then show ?thesis using worker_moves.move [OF i(1)] i(2) by blast
  qed
  then show ?thesis using run [OF assms(2)] bound [of "sy_workers s"] by (fastforce simp: all_left_def)
qed

theorem stopped_drains_witness:
  "\<exists>s''. worker_moves 2 (the (Pool_Stop sample_sync)) s''"
proof -
  have "sy_stopped (the (Pool_Stop sample_sync))" "\<exists>p \<in> set (sy_workers (the (Pool_Stop sample_sync))). p \<noteq> Exited"
    by (simp_all add: sample_sync_def Pool_Stop_def Pool_Start_def new_sync_def)
  with stopped_drains [of "the (Pool_Stop sample_sync)" 0 2] show ?thesis by simp
qed

text \<open>
  C27: A pause and a resume can leave a worker behind. A worker that saw the pool paused reads the
  resume channel only afterwards; when the resume comes in between, it waits on the new channel. In
  that reachable state the pool is busy and its only worker cannot make any step.
\<close>

theorem lost_wakeup:
  "\<exists>s g. reachable 1 s \<and> Pool_State s = StateBusy \<and> sy_workers s = [WaitResume g] \<and>
     \<not> sy_stopped s \<and> \<not> sy_ctxDone s \<and> (\<forall>c. worker_step 1 s (WaitResume g) c = None)"
proof -
  let ?s = "new_sync\<lparr>sy_state := StateBusy, sy_pauseGen := 1, sy_resumeGen := 1, sy_workers := [WaitResume 1]\<rparr>"
  have "reachable 1 ?s"
  proof (rule acts_reachable [OF reachable.start])
    show "acts 1 [ByWorker 0 Proceed, DoPause, ByWorker 0 Proceed, DoResume, ByWorker 0 Proceed]
        (Pool_Start 1 new_sync) = Some ?s"
      by (simp add: Pool_Start_def new_sync_def Pool_State_def Pool_Pause_def Pool_Resume_def)
  qed
  moreover have "worker_step 1 ?s (WaitResume 1) c = None" for c
    by (cases c) (simp_all add: new_sync_def)
  ultimately show ?thesis
    by (intro exI [of _ ?s] exI [of _ 1]) (simp_all add: new_sync_def Pool_State_def)
qed

end
