(* ===== verification/Middleware.thy ===== *)
theory Middleware
  imports Http
begin

text \<open>
  \<^verbatim>\<open>internal/api/middleware\<close>: the token-bucket rate limiter, global and per client, and the
  authentication by API key or JSON web token with the check of roles.
\<close>

section \<open>Requests and handlers\<close>

text \<open>
  What the middlewares read of a request. The user is the value under \<^verbatim>\<open>UserContextKey\<close> in the
  request's context: none, claims (a pointer, possibly nil) or a value of another type.
\<close>

record user_claims =
  cl_UserID :: string
  cl_Role :: string

datatype user_value = NoUser | UserClaims "user_claims option" | OtherUser

record http_request =
  hr_method :: string
  hr_path :: string
  hr_header :: "string \<Rightarrow> string"
  hr_remote :: string
  hr_body :: "gval option"
  hr_user :: user_value

type_synonym 's http_handler = "http_request \<Rightarrow> ('s, reply) io"

text \<open>\<^verbatim>\<open>http.Error\<close> writes its message as a line of plain text.\<close>

definition http_Error :: "string \<Rightarrow> int \<Rightarrow> reply" where
  "http_Error msg c = Reply c (Some (GStr (msg @ [CHR 0x0A])))"

section \<open>The token bucket\<close>

record rate_limiter =
  rl_tokens :: f64
  rl_maxTokens :: f64
  rl_refillRate :: f64
  rl_lastRefill :: int

text \<open>\<^verbatim>\<open>t.Sub(u)\<close>: the difference of two instants, saturated.\<close>

definition time_Sub :: "int \<Rightarrow> int \<Rightarrow> int" where
  "time_Sub t u = max (- (2 ^ 63)) (min (2 ^ 63 - 1) (t - u))"

text \<open>The limiter made at the instant \<open>now\<close>, and a request at that instant.\<close>

definition new_limiter :: "int \<Rightarrow> int \<Rightarrow> rate_limiter" where
  "new_limiter now rps = (let rps = (if rps \<le> 0 then 1000 else rps) in
     \<lparr>rl_tokens = f_of_int rps, rl_maxTokens = f_of_int rps, rl_refillRate = f_of_int rps, rl_lastRefill = now\<rparr>)"

definition NewRateLimiter :: "'s env \<Rightarrow> int \<Rightarrow> ('s, rate_limiter) io" where
  "NewRateLimiter E rps = do { now \<leftarrow> e_now E; ret (new_limiter now rps) }"

definition refilled :: "int \<Rightarrow> rate_limiter \<Rightarrow> rate_limiter" where
  "refilled now rl =
     (let elapsed = Seconds (time_Sub now (rl_lastRefill rl));
          tokens = f_add (rl_tokens rl) (f_mul elapsed (rl_refillRate rl));
          tokens = (if f_less (rl_maxTokens rl) tokens then rl_maxTokens rl else tokens)
      in rl\<lparr>rl_tokens := tokens, rl_lastRefill := now\<rparr>)"

definition allow_at :: "int \<Rightarrow> rate_limiter \<Rightarrow> bool \<times> rate_limiter" where
  "allow_at now rl = (let rl = refilled now rl in
     if f_less (Fin 1) (rl_tokens rl) \<or> rl_tokens rl = Fin 1
     then (True, rl\<lparr>rl_tokens := f_sub (rl_tokens rl) (Fin 1)\<rparr>)
     else (False, rl))"

definition Allow :: "'s env \<Rightarrow> rate_limiter \<Rightarrow> ('s, bool \<times> rate_limiter) io" where
  "Allow E rl = do { now \<leftarrow> e_now E; ret (allow_at now rl) }"

definition too_many_requests :: reply where
  "too_many_requests = Reply 429 (Some (GObj [(''error'', GStr ''Too Many Requests''),
     (''message'', GStr ''rate limit exceeded'')]))"

text \<open>The middleware closes over one limiter, which is returned as the request left it.\<close>

definition RateLimit :: "'s env \<Rightarrow> 's http_handler \<Rightarrow> rate_limiter \<Rightarrow> http_request \<Rightarrow>
    ('s, rate_limiter \<times> reply) io" where
  "RateLimit E next_handler limiter r = do {
     (ok, limiter) \<leftarrow> Allow E limiter;
     if \<not> ok then ret (limiter, too_many_requests)
     else do { rep \<leftarrow> next_handler r; ret (limiter, rep) }
   }"

subsection \<open>What a bucket lets through\<close>

text \<open>A bucket between empty and full, for a limit of \<open>n\<close> requests per second.\<close>

definition bucket_ok :: "int \<Rightarrow> rate_limiter \<Rightarrow> bool" where
  "bucket_ok n rl \<longleftrightarrow> rl_maxTokens rl = Fin (of_int n) \<and> rl_refillRate rl = Fin (of_int n) \<and>
     (\<exists>x. rl_tokens rl = Fin x \<and> 0 \<le> x \<and> x \<le> of_int n)"

definition tokens_of :: "rate_limiter \<Rightarrow> rat" where
  "tokens_of rl = (case rl_tokens rl of Fin x \<Rightarrow> x | _ \<Rightarrow> 0)"

text \<open>The relative error of one rounding.\<close>

definition eps :: rat where
  "eps = 1 / 2 ^ 53"

lemma eps_bounds: "0 < eps" "eps \<le> 1 / 100"
  by (simp_all add: eps_def)

lemma round_up: "0 \<le> x \<Longrightarrow> round53 x \<le> x + (x + 1) * eps"
  using round53_error [of x] by (simp add: eps_def max_def divide_right_mono order_trans split: if_splits)

lemma round_up_unit: "0 \<le> x \<Longrightarrow> x \<le> 1 \<Longrightarrow> round53 x \<le> x + eps"
  using round53_error [of x] by (simp add: eps_def max_def)

text \<open>What the roundings of one request add up to.\<close>

lemma bucket_roundings:
  fixes D n x e r y c :: rat
  assumes c: "0 < c" "c \<le> 1 / 100" and D: "0 \<le> D" and n: "1 \<le> n" and x: "0 \<le> x" "x \<le> n"
    and e: "e \<le> (D + c) + (D + c + 1) * c"
    and r: "r \<le> e * n + (e * n + 1) * c" and y: "y \<le> x + r + (x + r + 1) * c"
  shows "y \<le> x + n * (D * (1 + 4 * c) + 6 * c)"
proof -
  have cc: "c * c \<le> c / 100" using mult_left_mono [OF c(2), of c] c(1) by simp
  have "e \<le> D * (1 + c) + (201 / 100) * c" using e cc by (simp add: algebra_simps)
  then have "e * n \<le> (D * (1 + c) + (201 / 100) * c) * n" using n by (intro mult_right_mono) simp_all
  then have en: "e * n \<le> D * n + D * n * c + (201 / 100) * (n * c)" by (simp add: algebra_simps)
  have P: "0 \<le> D * n" using D n by simp
  have Pc: "D * n * c * c \<le> D * n * c / 100" "n * c * c \<le> n * c / 100"
    using mult_left_mono [OF cc, of "D * n"] mult_left_mono [OF cc, of n] P n by (simp_all add: mult.assoc)
  have "e * n * c \<le> (D * n + D * n * c + (201 / 100) * (n * c)) * c"
    using en c(1) by (intro mult_right_mono) simp_all
  then have "e * n * c \<le> D * n * c + D * n * c * c + (201 / 100) * (n * c * c)" by (simp add: algebra_simps)
  moreover have "r \<le> e * n + e * n * c + c" using r by (simp add: algebra_simps)
  moreover have "0 \<le> D * n * c" "0 \<le> n * c" using P n c(1) by simp_all
  ultimately have r2: "r \<le> D * n + (101 / 50) * (D * n * c) + (41 / 20) * (n * c) + c"
    using en Pc by linarith
  then have "r * c \<le> (D * n + (101 / 50) * (D * n * c) + (41 / 20) * (n * c) + c) * c"
    using c(1) by (intro mult_right_mono) simp_all
  then have rc: "r * c \<le> D * n * c + (101 / 50) * (D * n * c * c) + (41 / 20) * (n * c * c) + c * c"
    by (simp add: algebra_simps)
  have "x * c \<le> n * c" "c \<le> n * c" using x n c(1) by (simp_all add: mult_right_mono)
  moreover have "0 \<le> D * n * c" using P c(1) by simp
  moreover have "x + n * (D * (1 + 4 * c) + 6 * c) = x + D * n + 4 * (D * n * c) + 6 * (n * c)"
    by (simp add: algebra_simps)
  moreover have "y \<le> x + r + x * c + r * c + c" using y by (simp add: algebra_simps)
  ultimately show ?thesis using r2 rc Pc cc c(1) by linarith
qed

lemma new_limiter_ok:
  "0 < n \<Longrightarrow> n \<le> 2 ^ 53 \<Longrightarrow> bucket_ok n (new_limiter t n) \<and> rl_lastRefill (new_limiter t n) = t \<and>
     tokens_of (new_limiter t n) = of_int n"
  by (simp add: new_limiter_def bucket_ok_def tokens_of_def)

lemma Seconds_bound:
  assumes "0 \<le> d" "d < 2 ^ 63"
  shows "\<exists>e. Seconds d = Fin e \<and> 0 \<le> e \<and> e \<le> 2 ^ 35 \<and>
    e \<le> (of_int d / 10 ^ 9 + eps) + (of_int d / 10 ^ 9 + eps + 1) * eps"
proof -
  let ?q = "d div Second" and ?r = "d mod Second"
  have q: "quot_int d Second = ?q" using assms by (cases "d = 0") (simp_all add: quot_int_def)
  have r: "d - ?q * Second = ?r" by (simp add: minus_div_mult_eq_mod)
  have rb: "0 \<le> ?r" "?r < Second" by simp_all
  have qb: "0 \<le> ?q" "?q \<le> 2 ^ 34" using assms by simp_all
  define f :: rat where "f = of_int ?r / 10 ^ 9"
  have f: "0 \<le> f" "f \<le> of_int 1" using rb by (simp_all add: f_def divide_le_eq)
  define x where "x = round53 f"
  have x: "0 \<le> x" "x \<le> f + eps" "x \<le> 1"
    using r53.rnd_nonneg [OF f(1)] r53.rnd_le_int [OF f] round_up_unit [of f] f by (simp_all add: x_def)
  define s where "s = of_int ?q + x"
  have qf: "f_of_int ?q = Fin (of_int ?q)" using qb by simp
  have "fin (round53 (of_int ?r) / 10 ^ 9) = Fin x"
    using f fin_small [of f 1] rb by (simp add: round53_of_int x_def f_def)
  with qf have S: "Seconds d = fin s"
    unfolding Seconds_def q Let_def r s_def by (simp only: f_add.simps)
  have s: "0 \<le> s" "s \<le> of_int (2 ^ 34 + 1)"
  proof -
    have "(of_int ?q :: rat) \<le> of_int (2 ^ 34)" using qb(2) by (simp only: of_int_le_iff)
    then show "s \<le> of_int (2 ^ 34 + 1)" using x(3) by (simp add: s_def)
    show "0 \<le> s" using qb x by (simp add: s_def)
  qed
  have "fin s = Fin (round53 s)" using s fin_small [of s "2 ^ 34 + 1"] by simp
  moreover have "s \<le> of_int d / 10 ^ 9 + eps"
  proof -
    have "(of_int d :: rat) = of_int (?q * Second + ?r)" by simp
    then have "(of_int d :: rat) = of_int ?q * 10 ^ 9 + of_int ?r" by (simp only: of_int_add of_int_mult) simp
    then have "(of_int d :: rat) / 10 ^ 9 = of_int ?q + f" by (simp only: f_def add_divide_distrib) simp
    then show ?thesis using x(2) by (simp only: s_def)
  qed
  then have "s + (s + 1) * eps \<le> (of_int d / 10 ^ 9 + eps) + (of_int d / 10 ^ 9 + eps + 1) * eps"
    using mult_right_mono [of "s + 1" "of_int d / 10 ^ 9 + eps + 1" eps] eps_bounds(1) by linarith
  moreover have "round53 s \<le> s + (s + 1) * eps" using s(1) by (rule round_up)
  moreover have "round53 s \<le> of_int (2 ^ 34 + 1)" using s by (intro r53.rnd_le_int) simp_all
  ultimately have "round53 s \<le> (of_int d / 10 ^ 9 + eps) + (of_int d / 10 ^ 9 + eps + 1) * eps" "round53 s \<le> 2 ^ 35"
    by (blast intro: order_trans, simp)
  then show ?thesis using S \<open>fin s = Fin (round53 s)\<close> r53.rnd_nonneg [OF s(1)] by auto
qed

lemma time_Sub_bound: "u \<le> t \<Longrightarrow> 0 \<le> time_Sub t u \<and> time_Sub t u < 2 ^ 63 \<and> time_Sub t u \<le> t - u"
  by (simp add: time_Sub_def)

text \<open>The time between two instants in seconds.\<close>

definition seconds_between :: "int \<Rightarrow> int \<Rightarrow> rat" where
  "seconds_between u t = of_int (t - u) / 10 ^ 9"

lemma refilled_ok:
  assumes ok: "bucket_ok n rl" and n: "0 < n" "n \<le> 2 ^ 53" and t: "rl_lastRefill rl \<le> t"
  shows "bucket_ok n (refilled t rl)"
    and "tokens_of (refilled t rl) \<le> tokens_of rl +
           of_int n * (seconds_between (rl_lastRefill rl) t * (1 + 4 * eps) + 6 * eps)"
proof -
  define d where "d = time_Sub t (rl_lastRefill rl)"
  define D where "D = seconds_between (rl_lastRefill rl) t"
  define m :: rat where "m = of_int n"
  obtain x where x: "rl_tokens rl = Fin x" "0 \<le> x" "x \<le> m"
    and mx: "rl_maxTokens rl = Fin m" "rl_refillRate rl = Fin m"
    using ok by (auto simp: bucket_ok_def m_def)
  have d: "0 \<le> d" "d < 2 ^ 63" "d \<le> t - rl_lastRefill rl" using time_Sub_bound [OF t] by (auto simp: d_def)
  obtain e where e: "Seconds d = Fin e" "0 \<le> e" "e \<le> 2 ^ 35"
    "e \<le> (of_int d / 10 ^ 9 + eps) + (of_int d / 10 ^ 9 + eps + 1) * eps"
    using Seconds_bound [OF d(1,2)] by auto
  have m: "1 \<le> m" "m \<le> 2 ^ 53"
  proof -
    have "of_int 1 \<le> m" "m \<le> of_int (2 ^ 53)" using n by (simp_all only: m_def of_int_le_iff)
    then show "1 \<le> m" "m \<le> 2 ^ 53" by simp_all
  qed
  have dD: "of_int d / 10 ^ 9 \<le> D"
    unfolding D_def seconds_between_def by (intro divide_right_mono) (simp_all only: of_int_le_iff d(3), simp)
  then have eD: "e \<le> (D + eps) + (D + eps + 1) * eps"
    using eps_bounds by (intro order_trans [OF e(4)] add_mono mult_right_mono) simp_all
  define r where "r = round53 (e * m)"
  have em: "0 \<le> e * m" "e * m \<le> 2 ^ 35 * 2 ^ 53" using e(2,3) m by (simp, intro mult_mono) simp_all
  then have em': "e * m \<le> 2 ^ 1023" by (elim order_trans) (simp only: power_add [symmetric] power_increasing_iff)
  then have mul: "f_mul (Fin e) (Fin m) = Fin r" using em(1) by (simp add: fin_below r_def)
  have r: "0 \<le> r" "r \<le> e * m + (e * m + 1) * eps"
    unfolding r_def using r53.rnd_nonneg [OF em(1)] round_up [OF em(1)] .
  define y where "y = round53 (x + r)"
  have xr: "0 \<le> x + r" using x r by simp
  have "r \<le> 2 ^ 88"
    unfolding r_def using round53_mono [of "e * m" "2 ^ 88"] em by (simp only: round53_pow2) simp
  then have "x + r \<le> 2 ^ 88 + 2 ^ 88" using x(3) m(2) by simp
  then have "x + r \<le> 2 ^ 1023" by (elim order_trans) simp
  then have add: "f_add (Fin x) (Fin r) = Fin y" using xr by (simp add: fin_below y_def)
  have y: "0 \<le> y" "y \<le> x + r + (x + r + 1) * eps"
    unfolding y_def using r53.rnd_nonneg [OF xr] round_up [OF xr] .
  have tok: "rl_tokens (refilled t rl) = Fin (min y m)"
    by (simp add: refilled_def e(1) x(1) mx mul add d_def [symmetric] Let_def min_def del: f_mul.simps f_add.simps)
  show "bucket_ok n (refilled t rl)"
    using y(1) m(1) tok mx by (simp add: bucket_ok_def refilled_def Let_def m_def)
  have "0 \<le> D" using t by (simp add: D_def seconds_between_def)
  from bucket_roundings [OF eps_bounds this m(1) x(2,3) eD r(2) y(2)]
  show "tokens_of (refilled t rl) \<le> tokens_of rl + of_int n * (D * (1 + 4 * eps) + 6 * eps)"
    by (simp add: tokens_of_def tok x(1) m_def)
qed

lemma allow_ok:
  assumes ok: "bucket_ok n rl" and n: "0 < n" "n \<le> 2 ^ 53" and t: "rl_lastRefill rl \<le> t"
    and a: "allow_at t rl = (b, rl')"
  shows "bucket_ok n rl'" and "rl_lastRefill rl' = t"
    and "tokens_of rl' + of_bool b \<le> tokens_of (refilled t rl) + of_int n * eps"
proof -
  let ?n = "of_int n :: rat"
  obtain x where x: "rl_tokens (refilled t rl) = Fin x" "0 \<le> x" "x \<le> ?n"
    and m: "rl_maxTokens (refilled t rl) = Fin ?n" "rl_refillRate (refilled t rl) = Fin ?n"
    using refilled_ok(1) [OF assms(1-4)] by (auto simp: bucket_ok_def)
  have n1: "1 \<le> ?n" using n(1) by simp
  have e: "0 \<le> ?n * eps" using n1 eps_bounds(1) by simp
  have l: "rl_lastRefill (refilled t rl) = t" by (simp add: refilled_def Let_def)
  have take: "bucket_ok n rl' \<and> tokens_of rl' + 1 \<le> x + ?n * eps" if "1 \<le> x" "b"
  proof -
    have "f_sub (Fin x) (Fin 1) = Fin (round53 (x - 1))"
      using that x n(2) fin_small [of "x - 1" n] by (simp add: f_sub_def)
    then have "rl_tokens rl' = Fin (round53 (x - 1))" "rl_maxTokens rl' = Fin ?n" "rl_refillRate rl' = Fin ?n"
      using a that x m by (auto simp: allow_at_def Let_def split: if_splits)
    moreover have "0 \<le> round53 (x - 1)" "round53 (x - 1) \<le> ?n"
      using that x n(2) r53.rnd_nonneg [of "x - 1"] r53.rnd_le_int [of "x - 1" n] by simp_all
    moreover have "round53 (x - 1) \<le> x - 1 + x * eps" using round_up [of "x - 1"] that by simp
    moreover have "x * eps \<le> ?n * eps" using x eps_bounds(1) by (simp add: mult_right_mono)
    ultimately show ?thesis by (simp add: bucket_ok_def tokens_of_def)
  qed
  have "b = (1 \<le> x)" "\<not> b \<Longrightarrow> rl' = refilled t rl"
    using a x by (auto simp: allow_at_def Let_def split: if_splits)
  then show "bucket_ok n rl'" "tokens_of rl' + of_bool b \<le> tokens_of (refilled t rl) + ?n * eps"
    using take refilled_ok(1) [OF assms(1-4)] x e by (auto simp: tokens_of_def)
  show "rl_lastRefill rl' = t" using a l by (auto simp: allow_at_def Let_def split: if_splits)
qed

text \<open>The answers to requests at given instants, and how many were let through.\<close>

fun decisions :: "rate_limiter \<Rightarrow> int list \<Rightarrow> bool list" where
  "decisions rl [] = []"
| "decisions rl (t # ts) = (case allow_at t rl of (b, rl') \<Rightarrow> b # decisions rl' ts)"

definition admitted :: "bool list \<Rightarrow> rat" where
  "admitted bs = of_nat (length (filter id bs))"

definition limiter_after :: "rate_limiter \<Rightarrow> int list \<Rightarrow> rate_limiter" where
  "limiter_after rl ts = fold (\<lambda>t rl. snd (allow_at t rl)) ts rl"

lemma admitted_simps [simp]: "admitted [] = 0" "admitted (b # bs) = of_bool b + admitted bs"
  by (simp_all add: admitted_def)

lemma after_ok:
  assumes "bucket_ok n rl" "0 < n" "n \<le> 2 ^ 53" "sorted (rl_lastRefill rl # ts)"
  shows "bucket_ok n (limiter_after rl ts) \<and> rl_lastRefill (limiter_after rl ts) = last (rl_lastRefill rl # ts)"
  using assms
proof (induction ts arbitrary: rl)
  case (Cons t ts)
  obtain b rl' where a: "allow_at t rl = (b, rl')" by fastforce
  with Cons.prems allow_ok [OF Cons.prems(1-3) _ a] Cons.IH [of rl'] show ?case
    by (auto simp: limiter_after_def)
qed (simp add: limiter_after_def)

lemma window_bound:
  assumes "bucket_ok n rl" "0 < n" "n \<le> 2 ^ 53" "sorted (rl_lastRefill rl # ts)"
  shows "admitted (decisions rl ts) \<le> tokens_of rl +
     of_int n * (seconds_between (rl_lastRefill rl) (last (rl_lastRefill rl # ts)) * (1 + 4 * eps) + 7 * eps * of_nat (length ts))"
  using assms
proof (induction ts arbitrary: rl)
  case Nil
  then show ?case by (auto simp: bucket_ok_def tokens_of_def seconds_between_def)
next
  case (Cons t ts)
  obtain b rl' where a: "allow_at t rl = (b, rl')" by fastforce
  have t: "rl_lastRefill rl \<le> t" using Cons.prems(4) by simp
  note step = allow_ok [OF Cons.prems(1-3) t a] refilled_ok(2) [OF Cons.prems(1-3) t]
  let ?n = "of_int n :: rat" and ?k = "of_nat (length ts) :: rat" and ?l = "last (t # ts)"
  have "admitted (decisions rl' ts) \<le> tokens_of rl' +
      ?n * (seconds_between t ?l * (1 + 4 * eps) + 7 * eps * ?k)"
    using Cons.IH [OF step(1) Cons.prems(2,3)] Cons.prems(4) step(2) by simp
  moreover have "seconds_between (rl_lastRefill rl) ?l = seconds_between (rl_lastRefill rl) t + seconds_between t ?l"
    by (simp add: seconds_between_def diff_divide_distrib)
  ultimately show ?case using step(3,4) a by (simp add: algebra_simps)
qed

text \<open>
  C34: However the requests before it came, in any window the bucket lets through at most the
  limit plus what its duration refills, up to the rounding of the floating-point arithmetic.
\<close>

theorem token_bucket_bound:
  assumes "0 < n" "n \<le> 2 ^ 53" "sorted (t0 # us @ t # ts)"
  shows "admitted (decisions (limiter_after (new_limiter t0 n) us) (t # ts)) \<le>
    of_int n * (1 + seconds_between t (last (t # ts)) * (1 + 4 * eps) + 7 * eps * of_nat (length (t # ts)))"
proof -
  let ?rl = "limiter_after (new_limiter t0 n) us"
  have rl: "bucket_ok n ?rl" "rl_lastRefill ?rl \<le> t" "sorted (t # ts)"
    using after_ok [of n "new_limiter t0 n" us] new_limiter_ok [OF assms(1,2), of t0] assms
    by (auto simp: sorted_append)
  obtain b rl' where a: "allow_at t ?rl = (b, rl')" by fastforce
  note step = allow_ok [OF rl(1) assms(1,2) rl(2) a]
  have full: "tokens_of (refilled t ?rl) \<le> of_int n"
    using refilled_ok(1) [OF rl(1) assms(1,2) rl(2)] by (auto simp: bucket_ok_def tokens_of_def)
  have "0 \<le> of_int n * eps" using assms(1) eps_bounds(1) by simp
  then show ?thesis
    using window_bound [OF step(1) assms(1,2), of ts] step(2,3) rl(3) full a
    by (simp add: algebra_simps)
qed

theorem token_bucket_bound_witness:
  "admitted (decisions (limiter_after (new_limiter 0 2) [5]) [10, 20]) \<le>
     2 * (1 + seconds_between 10 20 * (1 + 4 * eps) + 7 * eps * 2)"
  using token_bucket_bound [of 2 0 "[5]" 10 "[20]"] by simp

text \<open>No time, no refill.\<close>

lemma refilled_still:
  assumes "rl_tokens rl = Fin (of_int j)" "rl_maxTokens rl = Fin (of_int n)" "rl_refillRate rl = Fin (of_int n)"
    "rl_lastRefill rl = t" "0 \<le> j" "j \<le> n" "n \<le> 2 ^ 53"
  shows "refilled t rl = rl"
proof -
  have "Seconds 0 = Fin 0" by (simp add: Seconds_def quot_int_def fin_def)
  moreover have "fin (of_int j) = Fin (of_int j)" using assms fin_small [of "of_int j" n] by (simp add: round53_of_int)
  moreover have "fin 0 = Fin 0" by (simp add: fin_def)
  ultimately show ?thesis using assms by (simp add: refilled_def time_Sub_def Let_def)
qed

text \<open>
  Of requests at the instant the limiter is made, exactly as many as the limit pass, and they
  are the first ones.
\<close>

theorem burst_exact:
  assumes "0 < n" "n \<le> 2 ^ 53"
  shows "decisions (new_limiter t n) (replicate k t) =
     replicate (min k (nat n)) True @ replicate (k - nat n) False"
proof -
  have "decisions \<lparr>rl_tokens = Fin (of_int j), rl_maxTokens = Fin (of_int n), rl_refillRate = Fin (of_int n), rl_lastRefill = t\<rparr>
      (replicate k t) = replicate (min k (nat j)) True @ replicate (k - nat j) False" if "0 \<le> j" "j \<le> n" for j
    using that
  proof (induction k arbitrary: j)
    case (Suc k)
    let ?rl = "\<lparr>rl_tokens = Fin (of_int j), rl_maxTokens = Fin (of_int n), rl_refillRate = Fin (of_int n), rl_lastRefill = t\<rparr>"
    have "allow_at t ?rl = (if 1 \<le> j then (True, ?rl\<lparr>rl_tokens := Fin (of_int (j - 1))\<rparr>) else (False, ?rl))"
    proof -
      have "f_sub (Fin (of_int j)) (Fin 1) = Fin (of_int (j - 1))" if "1 \<le> j"
        using that Suc.prems assms fin_small [of "of_int (j - 1)" n] round53_of_int [of "j - 1"]
        by (simp add: f_sub_def)
      then show ?thesis using Suc.prems assms refilled_still [of ?rl j n t] by (auto simp: allow_at_def Let_def)
    qed
    moreover have "nat j = Suc (nat (j - 1))" if "1 \<le> j" using that by simp
    ultimately show ?case using Suc.IH [of "j - 1"] Suc.IH [of j] Suc.prems by (auto simp: not_le)
  qed simp
  from this [of n] show ?thesis using assms by (simp add: new_limiter_def)
qed

theorem burst_exact_witness:
  "decisions (new_limiter 7 2) (replicate 3 7) = [True, True, False]"
  using burst_exact [of 2 7 3] by (simp add: numeral_eq_Suc)

section \<open>One bucket per client\<close>

text \<open>
  \<^verbatim>\<open>GetLimiter\<close> hands out pointers: the limiters are in a heap that only grows, and the map
  holds their positions. A limiter that \<^verbatim>\<open>cleanupLoop\<close> has dropped from the map may still be
  in use by a request.
\<close>

record client_limiter =
  cr_heap :: "rate_limiter list"
  cr_limiters :: "string \<Rightarrow> nat option"
  cr_rps :: int
  cr_cleanup :: int

definition NewClientRateLimiter :: "int \<Rightarrow> client_limiter" where
  "NewClientRateLimiter rps = \<lparr>cr_heap = [], cr_limiters = (\<lambda>_. None), cr_rps = rps, cr_cleanup = 5 * Minute\<rparr>"

text \<open>One tick of the cleanup loop.\<close>

definition cleanup_tick :: "client_limiter \<Rightarrow> client_limiter" where
  "cleanup_tick crl = crl\<lparr>cr_limiters := (\<lambda>_. None)\<rparr>"

definition add_limiter :: "rate_limiter \<Rightarrow> string \<Rightarrow> client_limiter \<Rightarrow> nat \<times> client_limiter" where
  "add_limiter rl clientID crl = (let i = length (cr_heap crl) in
     (i, crl\<lparr>cr_heap := cr_heap crl @ [rl], cr_limiters := (cr_limiters crl)(clientID := Some i)\<rparr>))"

text \<open>The first lookup is under the read lock, the second under the write lock.\<close>

definition GetLimiter :: "'s env \<Rightarrow> string \<Rightarrow> client_limiter \<Rightarrow> ('s, nat \<times> client_limiter) io" where
  "GetLimiter E clientID crl = (case cr_limiters crl clientID of
     Some i \<Rightarrow> ret (i, crl)
   | None \<Rightarrow> (case cr_limiters crl clientID of
       Some i \<Rightarrow> ret (i, crl)
     | None \<Rightarrow> do {
         limiter \<leftarrow> NewRateLimiter E (cr_rps crl);
         ret (add_limiter limiter clientID crl)
       }))"

text \<open>\<^verbatim>\<open>Allow\<close> through a pointer into the heap.\<close>

definition allow_through :: "int \<Rightarrow> nat \<Rightarrow> client_limiter \<Rightarrow> bool \<times> client_limiter" where
  "allow_through now i crl = (case allow_at now (cr_heap crl ! i) of
     (ok, rl) \<Rightarrow> (ok, crl\<lparr>cr_heap := (cr_heap crl)[i := rl]\<rparr>))"

definition client_id :: "http_request \<Rightarrow> string" where
  "client_id r = (let c = hr_header r ''X-Forwarded-For'' in if c = '''' then hr_remote r else c)"

text \<open>Whether a request passes.\<close>

definition admit_client :: "'s env \<Rightarrow> client_limiter \<Rightarrow> http_request \<Rightarrow> ('s, bool \<times> client_limiter) io" where
  "admit_client E crl r = do {
     (i, crl) \<leftarrow> GetLimiter E (client_id r) crl;
     now \<leftarrow> e_now E;
     ret (allow_through now i crl)
   }"

definition ClientRateLimit :: "'s env \<Rightarrow> 's http_handler \<Rightarrow> client_limiter \<Rightarrow> http_request \<Rightarrow>
    ('s, client_limiter \<times> reply) io" where
  "ClientRateLimit E next_handler crl r = do {
     (ok, crl) \<leftarrow> admit_client E crl r;
     if \<not> ok then ret (crl, too_many_requests)
     else do { rep \<leftarrow> next_handler r; ret (crl, rep) }
   }"

text \<open>
  What one request decides, given the instants the clock shows in \<^verbatim>\<open>NewRateLimiter\<close> and in
  \<^verbatim>\<open>Allow\<close>, and what a sequence of requests decides.
\<close>

definition limiter_for :: "int \<Rightarrow> string \<Rightarrow> client_limiter \<Rightarrow> nat \<times> client_limiter" where
  "limiter_for t c crl = (case cr_limiters crl c of
     Some i \<Rightarrow> (i, crl) | None \<Rightarrow> add_limiter (new_limiter t (cr_rps crl)) c crl)"

definition client_decision :: "string \<times> int \<times> int \<Rightarrow> client_limiter \<Rightarrow> bool \<times> client_limiter" where
  "client_decision q crl = (case q of (c, t, u) \<Rightarrow>
     (case limiter_for t c crl of (i, crl) \<Rightarrow> allow_through u i crl))"

fun client_decisions :: "client_limiter \<Rightarrow> (string \<times> int \<times> int) list \<Rightarrow> (string \<times> bool) list" where
  "client_decisions crl [] = []"
| "client_decisions crl (q # qs) =
     (case client_decision q crl of (b, crl') \<Rightarrow> (fst q, b) # client_decisions crl' qs)"

text \<open>The middleware calls the next handler exactly when the decision says so.\<close>

lemma admit_client_decides:
  "\<exists>t u s'. run_state (admit_client E crl r) s = (client_decision (client_id r, t, u) crl, s')"
proof (cases "cr_limiters crl (client_id r)")
  case None
  obtain t s1 where t: "run_state (e_now E) s = (t, s1)" by fastforce
  obtain u s2 where u: "run_state (e_now E) s1 = (u, s2)" by fastforce
  show ?thesis
    by (rule exI [of _ t], rule exI [of _ u], rule exI [of _ s2])
       (simp add: admit_client_def GetLimiter_def NewRateLimiter_def client_decision_def limiter_for_def
          None t u add_limiter_def Let_def)
next
  case (Some i)
  obtain u s2 where u: "run_state (e_now E) s = (u, s2)" by fastforce
  show ?thesis
    by (rule exI [of _ u], rule exI [of _ u], rule exI [of _ s2])
       (simp add: admit_client_def GetLimiter_def client_decision_def limiter_for_def Some u)
qed

lemma ClientRateLimit_decides:
  "\<exists>t u s'. run_state (ClientRateLimit E next_handler crl r) s =
     (case client_decision (client_id r, t, u) crl of (b, crl') \<Rightarrow>
        run_state (if b then do { rep \<leftarrow> next_handler r; ret (crl', rep) } else ret (crl', too_many_requests)) s')"
proof -
  obtain t u s' where "run_state (admit_client E crl r) s = (client_decision (client_id r, t, u) crl, s')"
    using admit_client_decides [of E crl r s] by blast
  then show ?thesis
    by (intro exI [of _ t] exI [of _ u] exI [of _ s']) (simp add: ClientRateLimit_def split: prod.split)
qed

text \<open>Deciding looks at the clock only.\<close>

context redis
begin

lemma admit_client_wp:
  "(\<And>d s'. \<alpha> s' = \<alpha> s \<Longrightarrow> Q d s') \<Longrightarrow> wp (admit_client E crl r) Q s"
proof -
  assume Q: "\<And>d s'. \<alpha> s' = \<alpha> s \<Longrightarrow> Q d s'"
  have check: "wp (e_now E) (\<lambda>now. Q (allow_through now i c)) u" if "\<alpha> u = \<alpha> s" for i c u
    by (rule now_wp, rule Q) (use that in simp)
  show ?thesis
    unfolding admit_client_def GetLimiter_def NewRateLimiter_def
    by (cases "cr_limiters crl (client_id r)")
       (auto simp: wp_eqs check split: prod.split intro!: now_wp)
qed

end

text \<open>No two clients share a limiter, and every pointer is into the heap.\<close>

definition limiters_ok :: "client_limiter \<Rightarrow> bool" where
  "limiters_ok crl \<longleftrightarrow> inj_on (cr_limiters crl) (dom (cr_limiters crl)) \<and>
     (\<forall>c i. cr_limiters crl c = Some i \<longrightarrow> i < length (cr_heap crl))"

lemma limiters_ok_new: "limiters_ok (NewClientRateLimiter rps)"
  by (simp add: limiters_ok_def NewClientRateLimiter_def)

lemma limiters_ok_cleanup: "limiters_ok (cleanup_tick crl)"
  by (simp add: limiters_ok_def cleanup_tick_def)

lemma limiter_for_ok:
  assumes "limiters_ok crl" "limiter_for t c crl = (i, crl')"
  shows "limiters_ok crl'" "cr_limiters crl' c = Some i" "cr_rps crl' = cr_rps crl"
    "cr_heap crl' ! i = (case cr_limiters crl c of Some j \<Rightarrow> cr_heap crl ! j | None \<Rightarrow> new_limiter t (cr_rps crl))"
    "\<And>d. d \<noteq> c \<Longrightarrow> cr_limiters crl' d = cr_limiters crl d"
    "\<And>d j. cr_limiters crl d = Some j \<Longrightarrow> cr_heap crl' ! j = cr_heap crl ! j"
  using assms
  by (auto simp: limiters_ok_def limiter_for_def add_limiter_def Let_def nth_append inj_on_def dom_def
        split: option.splits if_splits) (metis less_irrefl less_SucI)+

lemma decision_step:
  assumes ok: "limiters_ok crl" and d: "client_decision (c, t, u) crl = (b, crl')"
  shows "limiters_ok crl'" "cr_rps crl' = cr_rps crl"
    "\<exists>i rl. cr_limiters crl' c = Some i \<and> cr_heap crl' ! i = rl \<and>
       allow_at u (case cr_limiters crl c of Some j \<Rightarrow> cr_heap crl ! j | None \<Rightarrow> new_limiter t (cr_rps crl)) = (b, rl)"
    "\<And>e. e \<noteq> c \<Longrightarrow> cr_limiters crl' e = cr_limiters crl e"
    "\<And>e j. e \<noteq> c \<Longrightarrow> cr_limiters crl e = Some j \<Longrightarrow> cr_heap crl' ! j = cr_heap crl ! j"
proof -
  obtain i crl1 where l: "limiter_for t c crl = (i, crl1)" by fastforce
  note l1 = limiter_for_ok [OF ok l]
  obtain rl where a: "allow_at u (cr_heap crl1 ! i) = (b, rl)" and crl': "crl' = crl1\<lparr>cr_heap := (cr_heap crl1)[i := rl]\<rparr>"
    using d l by (auto simp: client_decision_def allow_through_def split: prod.splits)
  have i: "i < length (cr_heap crl1)" using l1(1,2) by (simp add: limiters_ok_def)
  show "limiters_ok crl'" "cr_rps crl' = cr_rps crl" using l1(1,3) crl' by (simp_all add: limiters_ok_def)
  show "\<exists>i rl. cr_limiters crl' c = Some i \<and> cr_heap crl' ! i = rl \<and>
       allow_at u (case cr_limiters crl c of Some j \<Rightarrow> cr_heap crl ! j | None \<Rightarrow> new_limiter t (cr_rps crl)) = (b, rl)"
    using l1(2,4) a i crl' by simp
  show "\<And>e. e \<noteq> c \<Longrightarrow> cr_limiters crl' e = cr_limiters crl e" using l1(5) crl' by simp
  show "cr_heap crl' ! j = cr_heap crl ! j" if "e \<noteq> c" "cr_limiters crl e = Some j" for e j
  proof -
    have "cr_limiters crl1 e = Some j" using l1(5) that by simp
    then have "j \<noteq> i" using l1(1,2) that(1) by (metis domI inj_onD limiters_ok_def)
    then show ?thesis using l1(6) that crl' by simp
  qed
qed

text \<open>The requests of one client, and the instants of their checks.\<close>

definition requests_of :: "string \<Rightarrow> (string \<times> int \<times> int) list \<Rightarrow> (string \<times> int \<times> int) list" where
  "requests_of c qs = filter (\<lambda>q. fst q = c) qs"

definition check_times :: "(string \<times> int \<times> int) list \<Rightarrow> int list" where
  "check_times qs = map (\<lambda>(c, t, u). u) qs"

definition answers_to :: "string \<Rightarrow> (string \<times> bool) list \<Rightarrow> bool list" where
  "answers_to c rs = map snd (filter (\<lambda>r. fst r = c) rs)"

lemma isolated:
  "limiters_ok crl \<Longrightarrow> answers_to c (client_decisions crl qs) =
     (case cr_limiters crl c of
        Some i \<Rightarrow> decisions (cr_heap crl ! i) (check_times (requests_of c qs))
      | None \<Rightarrow> (case requests_of c qs of [] \<Rightarrow> []
          | q # _ \<Rightarrow> decisions (new_limiter (fst (snd q)) (cr_rps crl)) (check_times (requests_of c qs))))"
proof (induction qs arbitrary: crl)
  case (Cons q qs)
  obtain d t u where q: "q = (d, t, u)" by (cases q)
  obtain b crl' where s: "client_decision (d, t, u) crl = (b, crl')" by fastforce
  note step = decision_step [OF Cons.prems s]
  show ?case
  proof (cases "d = c")
    case True
    obtain i where i: "cr_limiters crl' c = Some i" "allow_at u (case cr_limiters crl c of
        Some j \<Rightarrow> cr_heap crl ! j | None \<Rightarrow> new_limiter t (cr_rps crl)) = (b, cr_heap crl' ! i)"
      using step(3) True by blast
    then show ?thesis using Cons.IH [OF step(1)] True q s
      by (cases "cr_limiters crl c") (simp_all add: answers_to_def requests_of_def check_times_def)
  next
    case False
    then have "cr_limiters crl' c = cr_limiters crl c" using step(4) by simp
    moreover have "requests_of c (q # qs) = requests_of c qs" using False q by (simp add: requests_of_def)
    ultimately show ?thesis using Cons.IH [OF step(1)] False q s step(2) step(5) [of c]
      by (cases "cr_limiters crl c") (simp_all add: answers_to_def split: list.splits)
  qed
qed (simp add: answers_to_def requests_of_def check_times_def split: option.split)

text \<open>
  C35: Between two cleanups every client is answered as if it had a bucket of its own, made at its
  first request: what other clients do changes nothing.
\<close>

theorem clients_isolated:
  "answers_to c (client_decisions (NewClientRateLimiter rps) qs) =
     (case requests_of c qs of [] \<Rightarrow> []
      | q # _ \<Rightarrow> decisions (new_limiter (fst (snd q)) rps) (check_times (requests_of c qs)))"
  using isolated [OF limiters_ok_new, of c rps qs]
  by (simp add: NewClientRateLimiter_def split: list.splits)

section \<open>Authentication\<close>

record auth_settings =
  au_Enabled :: bool
  au_JWTSecret :: string
  au_APIKeys :: "string \<Rightarrow> bool option"

text \<open>\<^verbatim>\<open>strings.TrimPrefix\<close>.\<close>

definition TrimPrefix :: "string \<Rightarrow> string \<Rightarrow> string" where
  "TrimPrefix s p = (if take (length p) s = p then drop (length p) s else s)"

text \<open>
  The JWT library is a parameter: from the secret and the token it gives an error, or the claims
  with the verdict whether the token is valid. It may look at the clock.
\<close>

type_synonym 's jwt_parser = "string \<Rightarrow> string \<Rightarrow> ('s, (user_claims \<times> bool) res) io"

definition Auth :: "'s jwt_parser \<Rightarrow> auth_settings \<Rightarrow> 's http_handler \<Rightarrow> 's http_handler" where
  "Auth ParseWithClaims cfg next_handler = (\<lambda>r.
     if \<not> au_Enabled cfg then next_handler r
     else (let apiKey = hr_header r ''X-API-Key'' in
       if apiKey \<noteq> '''' then
         (if au_APIKeys cfg apiKey = Some True then next_handler r
          else ret (http_Error ''Invalid API key'' 401))
       else (let authHeader = hr_header r ''Authorization'' in
         if authHeader = '''' then ret (http_Error ''Authorization header required'' 401)
         else (let tokenString = TrimPrefix authHeader ''Bearer '' in
           if tokenString = authHeader then ret (http_Error ''Invalid authorization header format'' 401)
           else do {
             parsed \<leftarrow> ParseWithClaims (au_JWTSecret cfg) tokenString;
             case parsed of
               Inl err \<Rightarrow> ret (http_Error ''Invalid token'' 401)
             | Inr (claims, valid) \<Rightarrow>
                 if \<not> valid then ret (http_Error ''Invalid token'' 401)
                 else next_handler (r\<lparr>hr_user := UserClaims (Some claims)\<rparr>)
           }))))"

fun GetUser :: "user_value \<Rightarrow> user_claims option" where
  "GetUser (UserClaims claims) = claims"
| "GetUser _ = None"

definition RequireRole :: "string \<Rightarrow> 's http_handler \<Rightarrow> 's http_handler" where
  "RequireRole role next_handler = (\<lambda>r. case GetUser (hr_user r) of
     None \<Rightarrow> ret (http_Error ''Unauthorized'' 401)
   | Some claims \<Rightarrow>
       if cl_Role claims \<noteq> role \<and> cl_Role claims \<noteq> ''admin'' then ret (http_Error ''Forbidden'' 403)
       else next_handler r)"

text \<open>What the request proves about its sender: nothing, an accepted API key, or a token's claims.\<close>

definition bearer :: "http_request \<Rightarrow> string option" where
  "bearer r = (let h = hr_header r ''Authorization'' in
     if hr_header r ''X-API-Key'' = '''' \<and> take 7 h = ''Bearer '' then Some (drop 7 h) else None)"

definition key_accepted :: "auth_settings \<Rightarrow> http_request \<Rightarrow> bool" where
  "key_accepted cfg r \<longleftrightarrow> hr_header r ''X-API-Key'' \<noteq> '''' \<and> au_APIKeys cfg (hr_header r ''X-API-Key'') = Some True"

lemma bearer_length: "length ''Bearer '' = 7"
  by simp

lemma TrimPrefix_same: "TrimPrefix s p = s \<longleftrightarrow> p = '''' \<or> take (length p) s \<noteq> p"
proof
  assume eq: "TrimPrefix s p = s"
  show "p = '''' \<or> take (length p) s \<noteq> p"
  proof (rule ccontr)
    assume "\<not> (p = '''' \<or> take (length p) s \<noteq> p)"
    then have p: "p \<noteq> ''''" "take (length p) s = p" by auto
    then have "length (drop (length p) s) < length s" by (cases s) (auto simp: length_drop)
    moreover have "drop (length p) s = s" using eq p(2) by (simp add: TrimPrefix_def)
    ultimately show False by simp
  qed
qed (auto simp: TrimPrefix_def)

text \<open>
  With authentication on, a handler behind it runs only for a request with an accepted API key,
  unchanged, or with a bearer token the JWT library finds valid, with that token's claims as its
  user; every other request is answered 401 and the handler is not run.
\<close>

lemma auth_gate:
  assumes "au_Enabled cfg"
  shows "Auth parse cfg h r =
    (if key_accepted cfg r then h r
     else (case bearer r of
        None \<Rightarrow> ret (http_Error (if hr_header r ''X-API-Key'' \<noteq> '''' then ''Invalid API key''
            else if hr_header r ''Authorization'' = '''' then ''Authorization header required''
            else ''Invalid authorization header format'') 401)
      | Some tok \<Rightarrow> do {
          parsed \<leftarrow> parse (au_JWTSecret cfg) tok;
          case parsed of
            Inr (claims, True) \<Rightarrow> h (r\<lparr>hr_user := UserClaims (Some claims)\<rparr>)
          | _ \<Rightarrow> ret (http_Error ''Invalid token'' 401) }))"
proof -
  let ?h = "hr_header r ''Authorization''"
  have "TrimPrefix ?h ''Bearer '' = (if take 7 ?h = ''Bearer '' then drop 7 ?h else ?h)"
    unfolding TrimPrefix_def bearer_length ..
  moreover have "TrimPrefix ?h ''Bearer '' = ?h \<longleftrightarrow> take 7 ?h \<noteq> ''Bearer ''"
    using TrimPrefix_same [of ?h "''Bearer ''"] unfolding bearer_length by simp
  moreover have "(\<lambda>(claims, valid). if \<not> valid then x else y claims) =
      (\<lambda>(claims, valid). case_bool (y claims) x valid)" for x :: "('a, reply) io" and y :: "user_claims \<Rightarrow> ('a, reply) io"
    by (rule ext) (simp split: prod.split bool.split)
  ultimately show ?thesis
    using assms by (auto simp: Auth_def Let_def key_accepted_def bearer_def)
qed

text \<open>
  C36: Behind authentication and a required role a handler runs only for a bearer token that is valid
  and whose claims have that role or are an administrator's. An accepted API key does not help: it
  brings no claims, so such a request is refused with 401.
\<close>

theorem role_gate:
  assumes "au_Enabled cfg" "hr_user r = NoUser"
  shows "Auth parse cfg (RequireRole role h) r =
    (case bearer r of
       Some tok \<Rightarrow> do {
         parsed \<leftarrow> parse (au_JWTSecret cfg) tok;
         case parsed of
           Inr (claims, True) \<Rightarrow>
             if cl_Role claims \<in> {role, ''admin''} then h (r\<lparr>hr_user := UserClaims (Some claims)\<rparr>)
             else ret (http_Error ''Forbidden'' 403)
         | _ \<Rightarrow> ret (http_Error ''Invalid token'' 401) }
     | None \<Rightarrow> ret (http_Error (if key_accepted cfg r then ''Unauthorized''
         else if hr_header r ''X-API-Key'' \<noteq> '''' then ''Invalid API key''
         else if hr_header r ''Authorization'' = '''' then ''Authorization header required''
         else ''Invalid authorization header format'') 401))"
proof -
  have "bearer r = None" if "key_accepted cfg r" using that by (simp add: key_accepted_def bearer_def Let_def)
  moreover have "RequireRole role h r = ret (http_Error ''Unauthorized'' 401)"
    using assms(2) by (simp add: RequireRole_def)
  moreover have "RequireRole role h (r\<lparr>hr_user := UserClaims (Some claims)\<rparr>) =
      (if cl_Role claims \<in> {role, ''admin''} then h (r\<lparr>hr_user := UserClaims (Some claims)\<rparr>)
       else ret (http_Error ''Forbidden'' 403))" for claims
    by (simp add: RequireRole_def)
  ultimately show ?thesis by (simp add: auth_gate [OF assms(1)] split: option.split)
qed

text \<open>A request to try the middlewares on: an API key and nothing else.\<close>

definition key_request :: "string \<Rightarrow> http_request" where
  "key_request k = \<lparr>hr_method = ''GET'', hr_path = ''/'',
     hr_header = (\<lambda>h. if h = ''X-API-Key'' then k else ''''),
     hr_remote = ''10.0.0.1'', hr_body = None, hr_user = NoUser\<rparr>"

theorem role_gate_witness:
  "Auth (\<lambda>secret tok. ret (Inl ErrJSON)) \<lparr>au_Enabled = True, au_JWTSecret = ''s'', au_APIKeys = [''k'' \<mapsto> True]\<rparr>
     (RequireRole ''user'' (\<lambda>r. ret (Reply 200 None))) (key_request ''k'') =
   (ret (http_Error ''Unauthorized'' 401) :: (unit, reply) io)"
  by (subst role_gate) (simp_all add: key_request_def bearer_def key_accepted_def)

end
