(* ===== verification/Hub.thy ===== *)
theory Hub
  imports Events "HOL-Library.Sublist"
begin

text \<open>
  \<^verbatim>\<open>internal/api/websocket\<close>: the hub that sends events to the connected clients, with its two
  goroutines, and the two goroutines of each client. A step is what one goroutine does
  between two points where it can block or where another can see its effect.
\<close>

section \<open>Clients\<close>

text \<open>
  \<^verbatim>\<open>WritePump\<close> is not started, in its \<^verbatim>\<open>select\<close>, about to add \<open>n\<close> more queued messages to
  the frame it is writing, or done. \<^verbatim>\<open>ReadPump\<close> is not started, reading, blocked in
  \<^verbatim>\<open>Unregister\<close>, or done.
\<close>

datatype write_pc = WriteNew | WriteSelect | Draining nat | WriteDone

datatype read_pc = ReadNew | Reading | Leaving | ReadDone

text \<open>
  A client: the buffer of its send channel and whether that is closed, the keys of its
  subscriptions, its pumps, whether its connection is open, the documents of the frame that is
  being written, and the frames sent so far (several documents in one are separated by newlines).
\<close>

record ws_client =
  wc_ID :: string
  wc_send :: "gval list"
  wc_closed :: bool
  wc_subscriptions :: "string list"
  wc_write :: write_pc
  wc_read :: read_pc
  wc_conn :: bool
  wc_frame :: "gval list"
  wc_out :: "gval list list"

definition sendBufferSize :: nat where
  "sendBufferSize = 256"

definition NewClient :: "string \<Rightarrow> ws_client" where
  "NewClient uuid = \<lparr>wc_ID = take 8 uuid, wc_send = [], wc_closed = False, wc_subscriptions = [],
     wc_write = WriteNew, wc_read = ReadNew, wc_conn = True, wc_frame = [], wc_out = []\<rparr>"

definition ws_Subscribe :: "string \<Rightarrow> ws_client \<Rightarrow> ws_client" where
  "ws_Subscribe eventType c = c\<lparr>wc_subscriptions := List.insert eventType (wc_subscriptions c)\<rparr>"

definition ws_Unsubscribe :: "string \<Rightarrow> ws_client \<Rightarrow> ws_client" where
  "ws_Unsubscribe eventType c = c\<lparr>wc_subscriptions := removeAll eventType (wc_subscriptions c)\<rparr>"

definition ws_SubscribeAll :: "ws_client \<Rightarrow> ws_client" where
  "ws_SubscribeAll c = fold ws_Subscribe all_event_names c"

definition IsSubscribed :: "ws_client \<Rightarrow> string \<Rightarrow> bool" where
  "IsSubscribed c eventType \<longleftrightarrow> length (wc_subscriptions c) = 0 \<or> eventType \<in> set (wc_subscriptions c)"

section \<open>The hub\<close>

text \<open>
  The main loop is not started, in its \<^verbatim>\<open>select\<close>, in \<^verbatim>\<open>broadcastEvent\<close> with the clients
  it has not visited yet, or done; the forwarder likewise, and can hold an event it has taken.
  Who is blocked on the unregister channel is a read pump, or a goroutine \<^verbatim>\<open>broadcastEvent\<close>
  made for a client whose buffer was full.
\<close>

datatype loop_pc = LoopNew | LoopSelect | Sending event gval "nat list" | LoopDone

datatype forward_pc = ForwardNew | ForwardSelect | Holding event | ForwardDone

datatype leaver = PumpOf nat | DropOf nat

fun leaver_client :: "leaver \<Rightarrow> nat" where
  "leaver_client (PumpOf c) = c"
| "leaver_client (DropOf c) = c"

text \<open>
  Clients are positions in a heap. \<open>hb_clients\<close> holds the keys of the map of registered clients,
  \<open>hb_registering\<close> the clients whose \<^verbatim>\<open>ServeWS\<close> is blocked on the register channel.
  \<open>hb_gauge\<close> and \<open>hb_counted\<close> are the metrics. \<open>hb_taken\<close> is no field of the code: it lists
  the documents of the events the loop has taken to broadcast so far.
\<close>

record hub =
  hb_heap :: "ws_client list"
  hb_clients :: "nat list"
  hb_broadcast :: "event list"
  hb_registering :: "nat list"
  hb_leaving :: "leaver list"
  hb_stopped :: bool
  hb_ctxDone :: bool
  hb_loop :: loop_pc
  hb_forward :: forward_pc
  hb_events :: subscription
  hb_gauge :: nat
  hb_counted :: "string list"
  hb_taken :: "gval list"

definition broadcastCap :: nat where
  "broadcastCap = 256"

definition NewHub :: hub where
  "NewHub = \<lparr>hb_heap = [], hb_clients = [], hb_broadcast = [], hb_registering = [], hb_leaving = [],
     hb_stopped = False, hb_ctxDone = False, hb_loop = LoopNew, hb_forward = ForwardNew,
     hb_events = \<lparr>sb_buffer = [], sb_closed = True\<rparr>, hb_gauge = 0, hb_counted = [], hb_taken = []\<rparr>"

text \<open>A step can wait, crash the process with a panic, or go on.\<close>

datatype 'a progress = Waits | Crashes | Goes 'a

definition on_client :: "nat \<Rightarrow> (ws_client \<Rightarrow> ws_client) \<Rightarrow> hub \<Rightarrow> hub" where
  "on_client c f h = h\<lparr>hb_heap := (hb_heap h)[c := f (hb_heap h ! c)]\<rparr>"

text \<open>\<^verbatim>\<open>close(client.send)\<close> panics on a closed channel.\<close>

definition close_send :: "nat \<Rightarrow> hub \<Rightarrow> hub progress" where
  "close_send c h = (if wc_closed (hb_heap h ! c) then Crashes else Goes (on_client c (\<lambda>w. w\<lparr>wc_closed := True\<rparr>) h))"

definition ClientCount :: "hub \<Rightarrow> nat" where
  "ClientCount h = length (hb_clients h)"

fun close_each :: "nat list \<Rightarrow> hub \<Rightarrow> hub progress" where
  "close_each [] h = Goes h"
| "close_each (c # cs) h = (case close_send c h of
     Goes h' \<Rightarrow> close_each cs (h'\<lparr>hb_clients := removeAll c (hb_clients h')\<rparr>)
   | p \<Rightarrow> p)"

definition closeAllClients :: "hub \<Rightarrow> hub progress" where
  "closeAllClients h = close_each (hb_clients h) h"

subsection \<open>Starting, stopping and the calls from outside\<close>

text \<open>\<^verbatim>\<open>Run\<close>, given what \<^verbatim>\<open>SubscribeAll\<close> returned: after an error no goroutine is started.\<close>

definition Run :: "subscription res \<Rightarrow> hub \<Rightarrow> hub" where
  "Run subscribed h = (case subscribed of
     Inl err \<Rightarrow> h
   | Inr eventCh \<Rightarrow> h\<lparr>hb_events := eventCh, hb_forward := ForwardSelect, hb_loop := LoopSelect\<rparr>)"

definition Hub_Stop :: "hub \<Rightarrow> hub progress" where
  "Hub_Stop h = (if hb_stopped h then Crashes else Goes (h\<lparr>hb_stopped := True\<rparr>))"

text \<open>\<^verbatim>\<open>Stop\<close> returns once both goroutines are done.\<close>

definition Stop_returns :: "hub \<Rightarrow> bool" where
  "Stop_returns h \<longleftrightarrow> hb_stopped h \<and> hb_loop h \<in> {LoopNew, LoopDone} \<and> hb_forward h \<in> {ForwardNew, ForwardDone}"

definition Broadcast :: "event \<Rightarrow> hub \<Rightarrow> hub" where
  "Broadcast e h = (if length (hb_broadcast h) < broadcastCap
     then h\<lparr>hb_broadcast := hb_broadcast h @ [e]\<rparr> else h)"

text \<open>A request that was upgraded: the new client waits to be registered.\<close>

definition ServeWS :: "string \<Rightarrow> hub \<Rightarrow> hub" where
  "ServeWS uuid h = h\<lparr>hb_heap := hb_heap h @ [ws_SubscribeAll (NewClient uuid)],
     hb_registering := hb_registering h @ [length (hb_heap h)]\<rparr>"

subsection \<open>The forwarder\<close>

definition done_signal :: "hub \<Rightarrow> bool" where
  "done_signal h \<longleftrightarrow> hb_ctxDone h \<or> hb_stopped h"

definition forward_quit :: "hub \<Rightarrow> hub progress" where
  "forward_quit h = (if hb_forward h = ForwardSelect \<and>
       (done_signal h \<or> sb_buffer (hb_events h) = [] \<and> sb_closed (hb_events h))
     then Goes (h\<lparr>hb_forward := ForwardDone\<rparr>) else Waits)"

definition forward_take :: "hub \<Rightarrow> hub progress" where
  "forward_take h = (case sb_buffer (hb_events h) of
     e # es \<Rightarrow> if hb_forward h = ForwardSelect
       then Goes (h\<lparr>hb_events := (hb_events h)\<lparr>sb_buffer := es\<rparr>, hb_forward := Holding e\<rparr>) else Waits
   | [] \<Rightarrow> Waits)"

text \<open>The send to the broadcast channel is outside any \<^verbatim>\<open>select\<close>.\<close>

definition forward_push :: "hub \<Rightarrow> hub progress" where
  "forward_push h = (case hb_forward h of
     Holding e \<Rightarrow> if length (hb_broadcast h) < broadcastCap
       then Goes (h\<lparr>hb_broadcast := hb_broadcast h @ [e], hb_forward := ForwardSelect\<rparr>) else Waits
   | _ \<Rightarrow> Waits)"

subsection \<open>The main loop\<close>

definition loop_quit :: "hub \<Rightarrow> hub progress" where
  "loop_quit h = (if hb_loop h = LoopSelect \<and> done_signal h
     then (case closeAllClients h of Goes h' \<Rightarrow> Goes (h'\<lparr>hb_loop := LoopDone\<rparr>) | p \<Rightarrow> p)
     else Waits)"

text \<open>Receiving from the register channel also lets \<^verbatim>\<open>ServeWS\<close> go on, which starts the pumps.\<close>

definition loop_register :: "nat \<Rightarrow> hub \<Rightarrow> hub progress" where
  "loop_register c h = (if hb_loop h = LoopSelect \<and> c \<in> set (hb_registering h)
     then (let h = h\<lparr>hb_registering := removeAll c (hb_registering h)\<rparr>;
               h = h\<lparr>hb_clients := List.insert c (hb_clients h)\<rparr>;
               h = h\<lparr>hb_gauge := ClientCount h\<rparr>
           in Goes (on_client c (\<lambda>w. w\<lparr>wc_write := WriteSelect, wc_read := Reading\<rparr>) h))
     else Waits)"

text \<open>Receiving from the unregister channel lets a read pump go on, which closes the connection.\<close>

fun release :: "leaver \<Rightarrow> hub \<Rightarrow> hub" where
  "release (PumpOf c) h = on_client c (\<lambda>w. w\<lparr>wc_read := ReadDone, wc_conn := False\<rparr>) h"
| "release (DropOf c) h = h"

definition loop_unregister :: "leaver \<Rightarrow> hub \<Rightarrow> hub progress" where
  "loop_unregister l h = (if hb_loop h = LoopSelect \<and> l \<in> set (hb_leaving h)
     then (let h = h\<lparr>hb_leaving := remove1 l (hb_leaving h)\<rparr>; c = leaver_client l in
       case (if c \<in> set (hb_clients h) then close_send c (h\<lparr>hb_clients := removeAll c (hb_clients h)\<rparr>) else Goes h) of
         Goes h \<Rightarrow> Goes (release l (h\<lparr>hb_gauge := ClientCount h\<rparr>))
       | p \<Rightarrow> p)
     else Waits)"

definition sending :: "event \<Rightarrow> gval \<Rightarrow> nat list \<Rightarrow> loop_pc" where
  "sending e data cs = (if cs = [] then LoopSelect else Sending e data cs)"

definition loop_take :: "hub \<Rightarrow> hub progress" where
  "loop_take h = (case hb_broadcast h of
     e # es \<Rightarrow> if hb_loop h = LoopSelect
       then (let h = h\<lparr>hb_broadcast := es\<rparr> in
         case Event_ToJSON e of
           Inl err \<Rightarrow> Goes h
         | Inr data \<Rightarrow> Goes (h\<lparr>hb_loop := sending e data (hb_clients h), hb_taken := hb_taken h @ [data]\<rparr>))
       else Waits
   | [] \<Rightarrow> Waits)"

text \<open>
  \<^verbatim>\<open>broadcastEvent\<close> at the client \<open>c\<close>; a map is visited in any order. Sending to a closed
  channel panics, in a \<^verbatim>\<open>select\<close> with a default too.
\<close>

definition visit :: "event \<Rightarrow> gval \<Rightarrow> nat \<Rightarrow> hub \<Rightarrow> hub progress" where
  "visit e data c h = (let w = hb_heap h ! c in
     if \<not> IsSubscribed w (ev_type e) then Goes h
     else if wc_closed w then Crashes
     else if length (wc_send w) < sendBufferSize
     then Goes ((on_client c (\<lambda>w. w\<lparr>wc_send := wc_send w @ [data]\<rparr>) h)\<lparr>hb_counted := hb_counted h @ [ev_type e]\<rparr>)
     else Goes (h\<lparr>hb_leaving := hb_leaving h @ [DropOf c]\<rparr>))"

definition loop_send :: "nat \<Rightarrow> hub \<Rightarrow> hub progress" where
  "loop_send c h = (case hb_loop h of
     Sending e data cs \<Rightarrow> if c \<in> set cs
       then (case visit e data c h of
               Goes h \<Rightarrow> Goes (h\<lparr>hb_loop := sending e data (removeAll c cs)\<rparr>) | p \<Rightarrow> p)
       else Waits
   | _ \<Rightarrow> Waits)"
subsection \<open>The pumps\<close>

text \<open>A client's message is only logged.\<close>

definition handleMessage :: "string \<Rightarrow> ws_client \<Rightarrow> ws_client" where
  "handleMessage message w = w"

definition read_message :: "nat \<Rightarrow> string \<Rightarrow> hub \<Rightarrow> hub progress" where
  "read_message c message h = (if c < length (hb_heap h) \<and> wc_read (hb_heap h ! c) = Reading
     then Goes (on_client c (handleMessage message) h) else Waits)"

text \<open>A read error ends the loop; the deferred \<^verbatim>\<open>Unregister\<close> blocks until the hub receives it.\<close>

definition read_fails :: "nat \<Rightarrow> hub \<Rightarrow> hub progress" where
  "read_fails c h = (if c < length (hb_heap h) \<and> wc_read (hb_heap h ! c) = Reading
     then Goes ((on_client c (\<lambda>w. w\<lparr>wc_read := Leaving\<rparr>) h)\<lparr>hb_leaving := hb_leaving h @ [PumpOf c]\<rparr>)
     else Waits)"

text \<open>One step of \<^verbatim>\<open>WritePump\<close>: a message, one more queued message, the end of the frame, the
  closed channel, or a ping. \<open>ok\<close> says whether the connection takes what it is given.\<close>

definition writer_ends :: "ws_client \<Rightarrow> ws_client" where
  "writer_ends w = w\<lparr>wc_write := WriteDone, wc_conn := False, wc_frame := []\<rparr>"

datatype write_event = TakeMessage bool | TakeMore | Flush bool | SeeClosed | Ping bool

fun write_step :: "write_event \<Rightarrow> ws_client \<Rightarrow> ws_client progress" where
  "write_step (TakeMessage ok) w = (case (wc_write w, wc_send w) of
     (WriteSelect, m # ms) \<Rightarrow> Goes (if ok \<and> wc_conn w
        then w\<lparr>wc_send := ms, wc_frame := [m], wc_write := Draining (length ms)\<rparr>
        else writer_ends (w\<lparr>wc_send := ms\<rparr>))
   | _ \<Rightarrow> Waits)"
| "write_step TakeMore w = (case (wc_write w, wc_send w) of
     (Draining (Suc n), m # ms) \<Rightarrow> Goes (w\<lparr>wc_send := ms, wc_frame := wc_frame w @ [m], wc_write := Draining n\<rparr>)
   | _ \<Rightarrow> Waits)"
| "write_step (Flush ok) w = (if wc_write w = Draining 0
     then Goes (if ok \<and> wc_conn w
        then w\<lparr>wc_write := WriteSelect, wc_out := wc_out w @ [wc_frame w], wc_frame := []\<rparr>
        else writer_ends w) else Waits)"
| "write_step SeeClosed w = (if wc_write w = WriteSelect \<and> wc_send w = [] \<and> wc_closed w
     then Goes (writer_ends w) else Waits)"
| "write_step (Ping ok) w = (if wc_write w = WriteSelect
     then Goes (if ok \<and> wc_conn w then w else writer_ends w) else Waits)"

definition write_pump :: "nat \<Rightarrow> write_event \<Rightarrow> hub \<Rightarrow> hub progress" where
  "write_pump c ev h = (if c < length (hb_heap h)
     then (case write_step ev (hb_heap h ! c) of
             Goes w \<Rightarrow> Goes (on_client c (\<lambda>_. w) h) | Waits \<Rightarrow> Waits | Crashes \<Rightarrow> Crashes)
     else Waits)"

section \<open>The whole\<close>

datatype hub_action =
    CallRun "subscription res"
  | CallStop
  | CancelContext
  | CallBroadcast event
  | CallServeWS string
  | CallSubscribe nat string
  | CallUnsubscribe nat string
  | Message gval
  | MessagesEnd
  | ForwardQuit
  | ForwardTake
  | ForwardPush
  | LoopQuit
  | LoopRegister nat
  | LoopUnregister leaver
  | LoopTake
  | LoopSend nat
  | ReadMessage nat string
  | ReadFails nat
  | WritePump nat write_event

text \<open>\<^verbatim>\<open>Run\<close> is called once, with a fresh subscription.\<close>

definition fresh_subscription :: "subscription res \<Rightarrow> bool" where
  "fresh_subscription r = (case r of Inl _ \<Rightarrow> True | Inr sb \<Rightarrow> sb = \<lparr>sb_buffer = [], sb_closed = False\<rparr>)"

fun hub_step :: "hub_action \<Rightarrow> hub \<Rightarrow> hub progress" where
  "hub_step (CallRun r) h = (if hb_loop h = LoopNew \<and> fresh_subscription r then Goes (Run r h) else Waits)"
| "hub_step CallStop h = Hub_Stop h"
| "hub_step CancelContext h = Goes (h\<lparr>hb_ctxDone := True\<rparr>)"
| "hub_step (CallBroadcast e) h = Goes (Broadcast e h)"
| "hub_step (CallServeWS uuid) h = Goes (ServeWS uuid h)"
| "hub_step (CallSubscribe c et) h = (if c < length (hb_heap h) then Goes (on_client c (ws_Subscribe et) h) else Waits)"
| "hub_step (CallUnsubscribe c et) h = (if c < length (hb_heap h) then Goes (on_client c (ws_Unsubscribe et) h) else Waits)"
| "hub_step (Message p) h = (if sb_closed (hb_events h) then Waits else Goes (h\<lparr>hb_events := offer p (hb_events h)\<rparr>))"
| "hub_step MessagesEnd h = Goes (h\<lparr>hb_events := end_subscription (hb_events h)\<rparr>)"
| "hub_step ForwardQuit h = forward_quit h"
| "hub_step ForwardTake h = forward_take h"
| "hub_step ForwardPush h = forward_push h"
| "hub_step LoopQuit h = loop_quit h"
| "hub_step (LoopRegister c) h = loop_register c h"
| "hub_step (LoopUnregister l) h = loop_unregister l h"
| "hub_step LoopTake h = loop_take h"
| "hub_step (LoopSend c) h = loop_send c h"
| "hub_step (ReadMessage c m) h = read_message c m h"
| "hub_step (ReadFails c) h = read_fails c h"
| "hub_step (WritePump c ev) h = write_pump c ev h"

inductive hub_reachable :: "hub \<Rightarrow> bool" where
  new: "hub_reachable NewHub"
| step: "hub_reachable h \<Longrightarrow> hub_step a h = Goes h' \<Longrightarrow> hub_reachable h'"

fun hub_steps :: "hub_action list \<Rightarrow> hub \<Rightarrow> hub progress" where
  "hub_steps [] h = Goes h"
| "hub_steps (a # as) h = (case hub_step a h of Goes h' \<Rightarrow> hub_steps as h' | p \<Rightarrow> p)"

lemma hub_steps_reachable: "hub_reachable h \<Longrightarrow> hub_steps as h = Goes h' \<Longrightarrow> hub_reachable h'"
proof (induction as arbitrary: h)
  case (Cons a as)
  then obtain u where "hub_step a h = Goes u" "hub_steps as u = Goes h'" by (auto split: progress.splits)
  then show ?case using Cons.IH [OF hub_reachable.step [OF Cons.prems(1)]] by blast
qed simp

section \<open>The invariant\<close>

text \<open>A client on its own: its buffer is bounded and its writer never waits inside a frame.\<close>

definition client_inv :: "ws_client \<Rightarrow> bool" where
  "client_inv w \<longleftrightarrow> length (wc_send w) \<le> sendBufferSize \<and>
     (\<forall>n. wc_write w = Draining n \<longrightarrow> n \<le> length (wc_send w)) \<and>
     (wc_read w = ReadNew \<longrightarrow> \<not> wc_closed w)"

text \<open>What a client got so far and will get from its buffer.\<close>

definition wc_stream :: "ws_client \<Rightarrow> gval list" where
  "wc_stream w = concat (wc_out w) @ wc_frame w @ wc_send w"

text \<open>What the client \<open>c\<close> can have been sent when it is not to be visited any more, or still is.\<close>

fun sent_up_to :: "loop_pc \<Rightarrow> gval list \<Rightarrow> nat \<Rightarrow> gval list" where
  "sent_up_to (Sending e data cs) taken c = (if c \<in> set cs then butlast taken else taken)"
| "sent_up_to _ taken c = taken"

definition sent_before :: "hub \<Rightarrow> nat \<Rightarrow> gval list" where
  "sent_before h c = sent_up_to (hb_loop h) (hb_taken h) c"

definition loop_inv :: "hub \<Rightarrow> bool" where
  "loop_inv h \<longleftrightarrow> (\<forall>e data cs. hb_loop h = Sending e data cs \<longrightarrow>
     distinct cs \<and> set cs \<subseteq> set (hb_clients h) \<and> hb_taken h \<noteq> [] \<and> last (hb_taken h) = data)"

definition clients_inv :: "hub \<Rightarrow> bool" where
  "clients_inv h \<longleftrightarrow> distinct (hb_clients h) \<and> distinct (hb_registering h) \<and>
     (\<forall>c \<in> set (hb_clients h). c < length (hb_heap h) \<and> \<not> wc_closed (hb_heap h ! c) \<and> wc_read (hb_heap h ! c) \<noteq> ReadNew) \<and>
     (\<forall>c \<in> set (hb_registering h). c < length (hb_heap h) \<and> wc_read (hb_heap h ! c) = ReadNew) \<and>
     (\<forall>l \<in> set (hb_leaving h). leaver_client l < length (hb_heap h) \<and> wc_read (hb_heap h ! leaver_client l) \<noteq> ReadNew)"

definition hub_inv :: "hub \<Rightarrow> bool" where
  "hub_inv h \<longleftrightarrow> clients_inv h \<and> loop_inv h \<and>
     (\<forall>c < length (hb_heap h). client_inv (hb_heap h ! c) \<and> subseq (wc_stream (hb_heap h ! c)) (sent_before h c)) \<and>
     length (hb_broadcast h) \<le> broadcastCap \<and> length (sb_buffer (hb_events h)) \<le> eventChCap \<and>
     (hb_loop h = LoopNew \<longrightarrow> hb_clients h = [])"

lemma on_client_simps [simp]:
  "length (hb_heap (on_client c f h)) = length (hb_heap h)"
  "hb_clients (on_client c f h) = hb_clients h"
  "hb_broadcast (on_client c f h) = hb_broadcast h"
  "hb_registering (on_client c f h) = hb_registering h"
  "hb_leaving (on_client c f h) = hb_leaving h"
  "hb_stopped (on_client c f h) = hb_stopped h"
  "hb_ctxDone (on_client c f h) = hb_ctxDone h"
  "hb_loop (on_client c f h) = hb_loop h"
  "hb_forward (on_client c f h) = hb_forward h"
  "hb_events (on_client c f h) = hb_events h"
  "hb_gauge (on_client c f h) = hb_gauge h"
  "hb_taken (on_client c f h) = hb_taken h"
  by (simp_all add: on_client_def)

lemma on_client_nth [simp]:
  "d < length (hb_heap h) \<Longrightarrow>
     hb_heap (on_client c f h) ! d = (if d = c then f (hb_heap h ! d) else hb_heap h ! d)"
  by (auto simp: on_client_def nth_list_update)

lemmas hub_inv_defs = hub_inv_def clients_inv_def loop_inv_def sent_before_def

text \<open>A step of one client that sends it nothing new.\<close>

lemma on_client_inv:
  assumes "hub_inv h" "c < length (hb_heap h)" "client_inv (f (hb_heap h ! c))"
    "subseq (wc_stream (f (hb_heap h ! c))) (wc_stream (hb_heap h ! c))"
    "wc_closed (f (hb_heap h ! c)) = wc_closed (hb_heap h ! c)"
    "wc_read (f (hb_heap h ! c)) = ReadNew \<longleftrightarrow> wc_read (hb_heap h ! c) = ReadNew"
  shows "hub_inv (on_client c f h)"
proof -
  have "sent_before (on_client c f h) d = sent_before h d" for d by (simp add: sent_before_def)
  moreover have "subseq (wc_stream (f (hb_heap h ! c))) (sent_before h c)"
    using assms(1,2,4) by (auto simp: hub_inv_def intro: subseq_order.trans)
  ultimately show ?thesis
    using assms by (auto simp: hub_inv_def clients_inv_def loop_inv_def)
qed

text \<open>Taking a client off the map and closing its channel.\<close>

lemma drop_client_inv:
  assumes "hub_inv h" "c \<in> set (hb_clients h)" "hb_loop h = LoopSelect"
  shows "close_send c h = Goes (on_client c (\<lambda>w. w\<lparr>wc_closed := True\<rparr>) h)"
    and "hub_inv (on_client c (\<lambda>w. w\<lparr>wc_closed := True\<rparr>) h\<lparr>hb_clients := removeAll c (hb_clients h)\<rparr>)"
proof -
  let ?h = "on_client c (\<lambda>w. w\<lparr>wc_closed := True\<rparr>) h\<lparr>hb_clients := removeAll c (hb_clients h)\<rparr>"
  have c: "c < length (hb_heap h)" "\<not> wc_closed (hb_heap h ! c)" "wc_read (hb_heap h ! c) \<noteq> ReadNew"
    using assms by (auto simp: hub_inv_def clients_inv_def)
  then show "close_send c h = Goes (on_client c (\<lambda>w. w\<lparr>wc_closed := True\<rparr>) h)" by (simp add: close_send_def)
  have "clients_inv ?h" using assms(1,2) c by (auto simp: hub_inv_def clients_inv_def distinct_removeAll)
  moreover have "loop_inv ?h" using assms(3) by (simp add: loop_inv_def)
  moreover have "client_inv (hb_heap ?h ! d) \<and> subseq (wc_stream (hb_heap ?h ! d)) (sent_before ?h d)"
    if "d < length (hb_heap h)" for d
    using assms(1,3) c that by (auto simp: hub_inv_def client_inv_def wc_stream_def sent_before_def)
  ultimately show "hub_inv ?h" using assms(1,3) by (simp add: hub_inv_def)
qed

lemma close_each_inv:
  "hub_inv h \<Longrightarrow> hb_loop h = LoopSelect \<Longrightarrow> hb_clients h = cs \<Longrightarrow>
   \<exists>h'. close_each cs h = Goes h' \<and> hub_inv h' \<and> hb_clients h' = [] \<and> hb_loop h' = LoopSelect"
proof (induction cs arbitrary: h)
  case (Cons c cs)
  let ?h = "on_client c (\<lambda>w. w\<lparr>wc_closed := True\<rparr>) h\<lparr>hb_clients := removeAll c (hb_clients h)\<rparr>"
  have "c \<notin> set cs" using Cons.prems by (auto simp: hub_inv_def clients_inv_def)
  then have "hb_clients ?h = cs" using Cons.prems(3) by simp
  then show ?case
    using Cons.IH [of ?h] drop_client_inv [OF Cons.prems(1) _ Cons.prems(2), of c] Cons.prems(2,3) by simp
qed simp

lemma loop_quit_inv:
  "hub_inv h \<Longrightarrow> loop_quit h \<noteq> Crashes \<and> (loop_quit h = Goes h' \<longrightarrow> hub_inv h')"
proof -
  assume inv: "hub_inv h"
  show ?thesis
  proof (cases "hb_loop h = LoopSelect \<and> done_signal h")
    case True
    then obtain u where "closeAllClients h = Goes u" "hub_inv u" "hb_clients u = []" "hb_loop u = LoopSelect"
      using close_each_inv [OF inv, of "hb_clients h"] by (auto simp: closeAllClients_def)
    then show ?thesis using True by (auto simp: loop_quit_def hub_inv_defs)
  qed (auto simp: loop_quit_def)
qed

lemma loop_unregister_inv:
  assumes inv: "hub_inv h"
  shows "loop_unregister l h \<noteq> Crashes \<and> (loop_unregister l h = Goes h' \<longrightarrow> hub_inv h')"
proof (cases "hb_loop h = LoopSelect \<and> l \<in> set (hb_leaving h)")
  case True
  let ?c = "leaver_client l" and ?h = "h\<lparr>hb_leaving := remove1 l (hb_leaving h)\<rparr>"
  have l: "?c < length (hb_heap h)" "wc_read (hb_heap h ! ?c) \<noteq> ReadNew"
    using inv True by (auto simp: hub_inv_def clients_inv_def)
  have sub: "set (remove1 l (hb_leaving h)) \<subseteq> set (hb_leaving h)" by (rule set_remove1_subset)
  have inv1: "hub_inv ?h" using inv sub by (auto simp: hub_inv_defs)
  have rel: "hub_inv (release l (u\<lparr>hb_gauge := n\<rparr>))" if "hub_inv u" "length (hb_heap u) = length (hb_heap h)"
    "wc_read (hb_heap u ! ?c) \<noteq> ReadNew" for u n
  proof -
    have "hub_inv (u\<lparr>hb_gauge := n\<rparr>)" using that(1) by (auto simp: hub_inv_defs)
    then show ?thesis
      using that l on_client_inv [of "u\<lparr>hb_gauge := n\<rparr>" ?c "\<lambda>w. w\<lparr>wc_read := ReadDone, wc_conn := False\<rparr>"]
      by (cases l) (auto simp: hub_inv_def client_inv_def wc_stream_def)
  qed
  show ?thesis
  proof (cases "?c \<in> set (hb_clients h)")
    case c: True
    let ?f = "\<lambda>w. w\<lparr>wc_closed := True\<rparr>"
    have "close_send ?c (?h\<lparr>hb_clients := removeAll ?c (hb_clients ?h)\<rparr>) =
        Goes (on_client ?c ?f ?h\<lparr>hb_clients := removeAll ?c (hb_clients h)\<rparr>)"
      using drop_client_inv(1) [OF inv c] True by (auto simp: close_send_def on_client_def split: if_splits)
    moreover have "hub_inv (on_client ?c ?f ?h\<lparr>hb_clients := removeAll ?c (hb_clients h)\<rparr>)"
      using drop_client_inv(2) [OF inv1, of ?c] c True by simp
    ultimately show ?thesis
      using True c l rel [of "on_client ?c ?f ?h\<lparr>hb_clients := removeAll ?c (hb_clients h)\<rparr>"]
      by (auto simp: loop_unregister_def Let_def)
  next
    case False
    then show ?thesis using True l rel [OF inv1] by (auto simp: loop_unregister_def Let_def)
  qed
qed (auto simp: loop_unregister_def)

lemma loop_register_inv:
  assumes "hub_inv h" "loop_register c h = Goes h'"
  shows "hub_inv h'"
proof -
  let ?f = "\<lambda>w. w\<lparr>wc_write := WriteSelect, wc_read := Reading\<rparr>"
  have c: "hb_loop h = LoopSelect" "c \<in> set (hb_registering h)" "c < length (hb_heap h)"
    "wc_read (hb_heap h ! c) = ReadNew" "client_inv (hb_heap h ! c)"
    using assms by (auto simp: hub_inv_def clients_inv_def loop_register_def split: if_splits)
  let ?u = "h\<lparr>hb_registering := removeAll c (hb_registering h), hb_clients := List.insert c (hb_clients h),
    hb_gauge := length (List.insert c (hb_clients h))\<rparr>"
  have h': "h' = on_client c ?f ?u"
    using assms(2) c(1,2) by (simp add: loop_register_def ClientCount_def Let_def)
  have "clients_inv h'"
    using assms(1) c unfolding h' by (auto simp: hub_inv_def clients_inv_def client_inv_def distinct_removeAll)
  moreover have "client_inv (hb_heap h' ! d) \<and> subseq (wc_stream (hb_heap h' ! d)) (sent_before h' d)"
    if "d < length (hb_heap h)" for d
    using assms(1) c that unfolding h' by (auto simp: hub_inv_def sent_before_def client_inv_def wc_stream_def)
  ultimately show ?thesis using assms(1) c(1) by (simp add: hub_inv_def loop_inv_def h')
qed

lemma loop_take_inv:
  assumes "hub_inv h" "loop_take h = Goes h'"
  shows "hub_inv h'"
proof -
  obtain e es where e: "hb_broadcast h = e # es" "hb_loop h = LoopSelect"
    using assms(2) by (auto simp: loop_take_def split: list.splits if_splits)
  show ?thesis
  proof (cases "Event_ToJSON e")
    case (Inl err)
    then have "h' = h\<lparr>hb_broadcast := es\<rparr>" using assms(2) e by (simp add: loop_take_def)
    then show ?thesis using assms(1) e by (auto simp: hub_inv_defs)
  next
    case (Inr data)
    then have h': "h' = h\<lparr>hb_broadcast := es, hb_loop := sending e data (hb_clients h), hb_taken := hb_taken h @ [data]\<rparr>"
      using assms(2) e by (simp add: loop_take_def)
    have "subseq s (hb_taken h @ [data])" if "subseq s (hb_taken h)" for s
      using that by (rule list_emb_prefix)
    then show ?thesis using assms(1) e unfolding h' by (auto simp: hub_inv_defs sending_def)
  qed
qed

lemma visit_inv:
  assumes inv: "hub_inv h" and l: "hb_loop h = Sending e data cs" "c \<in> set cs"
  shows "\<exists>u. visit e data c h = Goes u \<and> hub_inv (u\<lparr>hb_loop := sending e data (removeAll c cs)\<rparr>)"
proof -
  have c: "c < length (hb_heap h)" "c \<in> set (hb_clients h)" "\<not> wc_closed (hb_heap h ! c)" "wc_read (hb_heap h ! c) \<noteq> ReadNew"
    and cs: "distinct cs" "set cs \<subseteq> set (hb_clients h)" "hb_taken h \<noteq> []" "last (hb_taken h) = data"
    using inv l by (auto simp: hub_inv_def clients_inv_def loop_inv_def)
  have taken: "hb_taken h = butlast (hb_taken h) @ [data]" using cs(3,4) by (metis append_butlast_last_id)
  have sub: "subseq s (hb_taken h)" if "subseq s (butlast (hb_taken h))" for s
    using that by (subst taken) (rule list_emb_prefix)
  have sub1: "subseq (s @ [data]) (hb_taken h)" if "subseq s (butlast (hb_taken h))" for s
    using that by (subst taken) (simp add: list_emb_append_mono)
  have heap: "client_inv (hb_heap h ! d) \<and> subseq (wc_stream (hb_heap h ! d))
      (if d \<in> set cs then butlast (hb_taken h) else hb_taken h)" if "d < length (hb_heap h)" for d
    using inv that l(1) by (auto simp: hub_inv_def sent_before_def)
  have progressed: "sent_up_to (sending e data (removeAll c cs)) t d = (if d \<in> set cs \<and> d \<noteq> c then butlast t else t)" for t d
    using set_removeAll [of c cs] by (cases "removeAll c cs = []") (auto simp: sending_def simp del: set_removeAll)
  have skip: "hub_inv (h\<lparr>hb_leaving := ls, hb_loop := sending e data (removeAll c cs)\<rparr>)"
    if ls: "set ls \<subseteq> insert (DropOf c) (set (hb_leaving h))" for ls
  proof -
    let ?u = "h\<lparr>hb_leaving := ls, hb_loop := sending e data (removeAll c cs)\<rparr>"
    have "\<forall>l \<in> set ls. leaver_client l < length (hb_heap h) \<and> wc_read (hb_heap h ! leaver_client l) \<noteq> ReadNew"
      using ls inv c(1,4) unfolding hub_inv_def clients_inv_def by fastforce
    then have "clients_inv ?u" using inv by (simp add: hub_inv_def clients_inv_def)
    moreover have "loop_inv ?u" using cs by (auto simp: loop_inv_def sending_def distinct_removeAll split: if_splits)
    moreover have "client_inv (hb_heap ?u ! d) \<and> subseq (wc_stream (hb_heap ?u ! d)) (sent_before ?u d)"
      if "d < length (hb_heap h)" for d
      using heap [OF that] sub [of "wc_stream (hb_heap h ! d)"] by (auto simp: sent_before_def progressed split: if_splits)
    moreover have "sending e data ds \<noteq> LoopNew" for ds by (simp add: sending_def)
    ultimately show ?thesis using inv by (simp add: hub_inv_def)
  qed
  show ?thesis
  proof (cases "IsSubscribed (hb_heap h ! c) (ev_type e) \<and> length (wc_send (hb_heap h ! c)) < sendBufferSize")
    case True
    let ?f = "\<lambda>w. w\<lparr>wc_send := wc_send w @ [data]\<rparr>"
    let ?u = "(on_client c ?f h)\<lparr>hb_counted := hb_counted h @ [ev_type e], hb_loop := sending e data (removeAll c cs)\<rparr>"
    have "client_inv (hb_heap ?u ! d) \<and> subseq (wc_stream (hb_heap ?u ! d)) (sent_before ?u d)"
      if "d < length (hb_heap h)" for d
    proof (cases "d = c")
      case True
      then have "subseq ((concat (wc_out (hb_heap h ! c)) @ wc_frame (hb_heap h ! c) @ wc_send (hb_heap h ! c)) @ [data]) (hb_taken h)"
        using heap [OF that] l(2) by (intro sub1) (simp add: wc_stream_def)
      then show ?thesis
        using True heap [OF that] \<open>IsSubscribed (hb_heap h ! c) (ev_type e) \<and> _\<close> that
        by (simp add: sent_before_def progressed client_inv_def wc_stream_def le_SucI)
    next
      case False
      then show ?thesis using heap [OF that] sub that by (simp add: sent_before_def progressed)
    qed
    moreover have "clients_inv ?u" using inv by (auto simp: hub_inv_def clients_inv_def)
    moreover have "loop_inv ?u" using cs by (auto simp: loop_inv_def sending_def distinct_removeAll split: if_splits)
    moreover have "sending e data ds \<noteq> LoopNew" for ds by (simp add: sending_def)
    ultimately have "hub_inv ?u" using inv by (simp add: hub_inv_def)
    then show ?thesis using True c by (simp add: visit_def Let_def)
  next
    case False
    then show ?thesis
      using c skip [of "hb_leaving h"] skip [of "hb_leaving h @ [DropOf c]"] by (auto simp: visit_def Let_def)
  qed
qed

lemma loop_send_inv:
  "hub_inv h \<Longrightarrow> loop_send c h \<noteq> Crashes \<and> (loop_send c h = Goes h' \<longrightarrow> hub_inv h')"
proof (cases "\<exists>e data cs. hb_loop h = Sending e data cs \<and> c \<in> set cs")
  case True
  assume inv: "hub_inv h"
  from True obtain e data cs where l: "hb_loop h = Sending e data cs" "c \<in> set cs" by blast
  obtain u where "visit e data c h = Goes u" "hub_inv (u\<lparr>hb_loop := sending e data (removeAll c cs)\<rparr>)"
    using visit_inv [OF inv l] by blast
  then show ?thesis using l by (auto simp: loop_send_def)
qed (auto simp: loop_send_def split: loop_pc.split)

lemma write_step_inv:
  assumes "client_inv w" "write_step ev w = Goes w'"
  shows "client_inv w' \<and> subseq (wc_stream w') (wc_stream w) \<and> wc_closed w' = wc_closed w \<and> wc_read w' = wc_read w"
proof (cases ev)
  case (TakeMessage ok)
  with assms(2) obtain m ms where "wc_write w = WriteSelect" "wc_send w = m # ms"
    by (auto split: write_pc.splits list.splits)
  moreover have "subseq (m # ms) (wc_frame w @ m # ms)" by (rule list_emb_append2) simp
  moreover have "subseq ms (wc_frame w @ m # ms)" by (intro list_emb_append2 list_emb_Cons) simp
  ultimately show ?thesis using assms TakeMessage
    by (auto simp: client_inv_def wc_stream_def writer_ends_def subseq_append' split: if_splits)
next
  case TakeMore
  with assms(2) obtain n m ms where "wc_write w = Draining (Suc n)" "wc_send w = m # ms"
    by (auto split: write_pc.splits list.splits nat.splits)
  then show ?thesis using assms TakeMore by (auto simp: client_inv_def wc_stream_def)
qed (use assms in \<open>auto simp: client_inv_def wc_stream_def writer_ends_def subseq_append' list_emb_append2
    split: if_splits\<close>)

lemma write_step_no_crash: "write_step ev w \<noteq> Crashes"
  by (cases ev) (auto split: write_pc.splits list.splits nat.splits)

lemma write_pump_inv:
  assumes "hub_inv h" "write_pump c ev h = Goes h'"
  shows "hub_inv h'"
proof -
  obtain w where w: "c < length (hb_heap h)" "write_step ev (hb_heap h ! c) = Goes w" "h' = on_client c (\<lambda>_. w) h"
    using assms(2) by (auto simp: write_pump_def split: if_splits progress.splits)
  have "client_inv (hb_heap h ! c)" using assms(1) w(1) by (simp add: hub_inv_def)
  then show ?thesis using on_client_inv [OF assms(1) w(1)] write_step_inv [OF _ w(2)] w(3) by simp
qed

lemma read_fails_inv:
  assumes "hub_inv h" "read_fails c h = Goes h'"
  shows "hub_inv h'"
proof -
  let ?u = "on_client c (\<lambda>w. w\<lparr>wc_read := Leaving\<rparr>) h"
  have c: "c < length (hb_heap h)" "wc_read (hb_heap h ! c) = Reading" "client_inv (hb_heap h ! c)"
    and h': "h' = ?u\<lparr>hb_leaving := hb_leaving h @ [PumpOf c]\<rparr>"
    using assms by (auto simp: read_fails_def hub_inv_def split: if_splits)
  have "hub_inv ?u" using c by (intro on_client_inv [OF assms(1)]) (auto simp: client_inv_def wc_stream_def)
  then show ?thesis using c unfolding h' by (auto simp: hub_inv_defs)
qed

lemma ServeWS_inv:
  assumes "hub_inv h"
  shows "hub_inv (ServeWS uuid h)"
proof -
  let ?w = "ws_SubscribeAll (NewClient uuid)"
  have w: "wc_send ?w = [] \<and> wc_frame ?w = [] \<and> wc_out ?w = [] \<and> \<not> wc_closed ?w \<and> wc_read ?w = ReadNew \<and> wc_write ?w = WriteNew"
    by (simp add: ws_SubscribeAll_def all_event_names_def ws_Subscribe_def NewClient_def)
  then have "client_inv ?w" "wc_stream ?w = []" by (simp_all add: client_inv_def wc_stream_def)
  then show ?thesis
    using assms w by (auto simp: hub_inv_defs ServeWS_def nth_append less_Suc_eq)
qed

text \<open>Steps that touch neither the clients nor the main loop.\<close>

lemma hub_inv_frame:
  assumes "hub_inv h" "hb_heap h' = hb_heap h" "hb_clients h' = hb_clients h" "hb_registering h' = hb_registering h"
    "hb_leaving h' = hb_leaving h" "hb_taken h' = hb_taken h" "hb_loop h' = hb_loop h \<or> hb_loop h = LoopNew \<and> hb_loop h' = LoopSelect"
    "length (hb_broadcast h') \<le> broadcastCap" "length (sb_buffer (hb_events h')) \<le> eventChCap"
  shows "hub_inv h'"
proof -
  have "sent_before h' c = sent_before h c" for c using assms(6,7) by (auto simp: sent_before_def)
  moreover have "clients_inv h'" using assms(1-5) by (simp add: hub_inv_def clients_inv_def)
  moreover have "loop_inv h'" using assms(1,3,6,7) by (auto simp: hub_inv_def loop_inv_def)
  moreover have "hb_loop h' = LoopNew \<Longrightarrow> hb_clients h' = []" using assms(1,3,7) by (auto simp: hub_inv_def)
  ultimately show ?thesis using assms(1,2,8,9) by (simp add: hub_inv_def)
qed

lemma hub_inv_bounds:
  "hub_inv h \<Longrightarrow> length (hb_broadcast h) \<le> broadcastCap" "hub_inv h \<Longrightarrow> length (sb_buffer (hb_events h)) \<le> eventChCap"
  by (simp_all add: hub_inv_def)

lemma hub_step_inv:
  assumes inv: "hub_inv h" and st: "hub_step a h = Goes h'"
  shows "hub_inv h'"
proof -
  note bounds = hub_inv_bounds [OF inv] and frame = hub_inv_frame [OF inv]
  have client: "client_inv (hb_heap h ! c)" if "c < length (hb_heap h)" for c using inv that by (simp add: hub_inv_def)
  show ?thesis
  proof (cases a)
    case (CallRun r)
    then show ?thesis using st bounds
      by (intro frame) (auto simp: Run_def fresh_subscription_def split: if_splits sum.splits)
  next
    case CallStop
    then show ?thesis using st bounds by (intro frame) (auto simp: Hub_Stop_def split: if_splits)
  next
    case CancelContext
    then show ?thesis using st bounds by (intro frame) auto
  next
    case (CallBroadcast e)
    then show ?thesis using st bounds by (intro frame) (auto simp: Broadcast_def split: if_splits)
  next
    case (CallServeWS uuid)
    then show ?thesis using st ServeWS_inv [OF inv] by auto
  next
    case (CallSubscribe c et)
    then have c: "c < length (hb_heap h)" "h' = on_client c (ws_Subscribe et) h" using st by (auto split: if_splits)
    show ?thesis unfolding c(2) using client [OF c(1)]
      by (intro on_client_inv [OF inv c(1)]) (simp_all add: ws_Subscribe_def client_inv_def wc_stream_def)
  next
    case (CallUnsubscribe c et)
    then have c: "c < length (hb_heap h)" "h' = on_client c (ws_Unsubscribe et) h" using st by (auto split: if_splits)
    show ?thesis unfolding c(2) using client [OF c(1)]
      by (intro on_client_inv [OF inv c(1)]) (simp_all add: ws_Unsubscribe_def client_inv_def wc_stream_def)
  next
    case (Message p)
    then show ?thesis using st bounds offer_bound [OF bounds(2), of p] by (intro frame) (auto split: if_splits)
  next
    case MessagesEnd
    then show ?thesis using st bounds by (intro frame) (auto simp: end_subscription_def)
  next
    case ForwardQuit
    then show ?thesis using st bounds by (intro frame) (auto simp: forward_quit_def split: if_splits)
  next
    case ForwardTake
    then show ?thesis using st bounds by (intro frame) (auto simp: forward_take_def split: list.splits if_splits)
  next
    case ForwardPush
    then show ?thesis using st bounds by (intro frame) (auto simp: forward_push_def split: forward_pc.splits if_splits)
  next
    case LoopQuit
    then show ?thesis using st loop_quit_inv [OF inv] by simp
  next
    case (LoopRegister c)
    then show ?thesis using st loop_register_inv [OF inv] by simp
  next
    case (LoopUnregister l)
    then show ?thesis using st loop_unregister_inv [OF inv] by simp
  next
    case LoopTake
    then show ?thesis using st loop_take_inv [OF inv] by simp
  next
    case (LoopSend c)
    then show ?thesis using st loop_send_inv [OF inv] by simp
  next
    case (ReadMessage c m)
    then have c: "c < length (hb_heap h)" "h' = on_client c (handleMessage m) h"
      using st by (auto simp: read_message_def split: if_splits)
    show ?thesis unfolding c(2) using client [OF c(1)]
      by (intro on_client_inv [OF inv c(1)]) (simp_all add: handleMessage_def)
  next
    case (ReadFails c)
    then show ?thesis using st read_fails_inv [OF inv] by simp
  next
    case (WritePump c ev)
    then show ?thesis using st write_pump_inv [OF inv] by simp
  qed
qed

lemma hub_inv_reachable: "hub_reachable h \<Longrightarrow> hub_inv h"
proof (induction rule: hub_reachable.induct)
  case new
  show ?case by (simp add: hub_inv_defs NewHub_def)
qed (blast intro: hub_step_inv)

section \<open>Properties\<close>

text \<open>
  C20: No step of the hub, its clients or its callers ever sends on a closed channel or closes one
  twice, except a second call of Stop: every registered client's channel is open, and it is closed
  by the one step that takes the client off the map.
\<close>

theorem hub_no_crash:
  assumes "hub_reachable h" "a = CallStop \<Longrightarrow> \<not> hb_stopped h"
  shows "hub_step a h \<noteq> Crashes"
proof -
  note inv = hub_inv_reachable [OF assms(1)]
  show ?thesis
  proof (cases a)
    case (WritePump c ev)
    then show ?thesis using write_step_no_crash [of ev "hb_heap h ! c"]
      by (auto simp: write_pump_def split: progress.splits)
  qed (use assms(2) loop_quit_inv [OF inv] loop_unregister_inv [OF inv] loop_send_inv [OF inv] in
      \<open>auto simp: Hub_Stop_def forward_quit_def forward_take_def forward_push_def loop_register_def loop_take_def
        read_message_def read_fails_def Let_def split: list.splits forward_pc.splits sum.splits\<close>)
qed

text \<open>An event to send around, and a hub with one client that has been sent it.\<close>

definition sample_event :: event where
  "sample_event = \<lparr>ev_type = event_name EventQueueDepth, ev_timestamp = 5, ev_data = Some []\<rparr>"

definition open_subscription :: subscription where
  "open_subscription = \<lparr>sb_buffer = [], sb_closed = False\<rparr>"

definition sample_hub :: hub where
  "sample_hub = (case hub_steps [CallRun (Inr open_subscription), CallServeWS ''0123456789'', LoopRegister 0,
     Message (event_doc sample_event), ForwardTake, ForwardPush, LoopTake, LoopSend 0] NewHub of Goes h \<Rightarrow> h | _ \<Rightarrow> NewHub)"

lemma sample_hub_run: "hub_steps [CallRun (Inr open_subscription), CallServeWS ''0123456789'', LoopRegister 0,
     Message (event_doc sample_event), ForwardTake, ForwardPush, LoopTake, LoopSend 0] NewHub = Goes sample_hub"
  by code_simp

lemma sample_hub_reachable: "hub_reachable sample_hub"
  by (rule hub_steps_reachable [OF hub_reachable.new sample_hub_run])

theorem hub_no_crash_witness:
  "hub_step LoopQuit sample_hub \<noteq> Crashes \<and> hub_step CallStop sample_hub \<noteq> Crashes"
proof -
  have "\<not> hb_stopped sample_hub" by code_simp
  then show ?thesis
    using hub_no_crash [OF sample_hub_reachable, of LoopQuit] hub_no_crash [OF sample_hub_reachable, of CallStop] by simp
qed

text \<open>
  C21: What was written to a client and what is in its buffer are, in this order, some of the
  documents the hub took to broadcast: nothing twice, nothing out of order, nothing else. The
  buffers stay within their capacities, and a writer in the middle of a frame never waits.
\<close>

theorem hub_in_order:
  assumes "hub_reachable h" "c < length (hb_heap h)"
  shows "subseq (concat (wc_out (hb_heap h ! c)) @ wc_frame (hb_heap h ! c) @ wc_send (hb_heap h ! c)) (hb_taken h) \<and>
    length (wc_send (hb_heap h ! c)) \<le> sendBufferSize \<and> length (hb_broadcast h) \<le> broadcastCap \<and>
    (wc_write (hb_heap h ! c) = Draining (Suc n) \<longrightarrow> (\<exists>w. write_step TakeMore (hb_heap h ! c) = Goes w))"
proof -
  have w: "client_inv (hb_heap h ! c)" "subseq (wc_stream (hb_heap h ! c)) (sent_before h c)"
    "length (hb_broadcast h) \<le> broadcastCap"
    using hub_inv_reachable [OF assms(1)] assms(2) by (auto simp: hub_inv_def)
  have "subseq (sent_before h c) (hb_taken h)"
  proof -
    have "subseq (butlast t) t" for t :: "gval list"
      by (metis append_butlast_last_id butlast.simps(1) list_emb_prefix subseq_order.refl)
    then show ?thesis by (cases "hb_loop h") (auto simp: sent_before_def)
  qed
  then have "subseq (wc_stream (hb_heap h ! c)) (hb_taken h)" using w(2) by (rule subseq_order.trans [rotated])
  moreover have "wc_send (hb_heap h ! c) \<noteq> []" if "wc_write (hb_heap h ! c) = Draining (Suc n)"
    using w(1) that by (auto simp: client_inv_def)
  ultimately show ?thesis using w by (auto simp: client_inv_def wc_stream_def neq_Nil_conv)
qed

theorem hub_in_order_witness:
  "subseq (concat (wc_out (hb_heap sample_hub ! 0)) @ wc_frame (hb_heap sample_hub ! 0) @ wc_send (hb_heap sample_hub ! 0))
     [event_doc sample_event]"
proof -
  have "0 < length (hb_heap sample_hub)" "hb_taken sample_hub = [event_doc sample_event]" by code_simp+
  then show ?thesis using hub_in_order [OF sample_hub_reachable] by metis
qed

text \<open>One client's share of a broadcast.\<close>

definition served :: "event \<Rightarrow> gval \<Rightarrow> ws_client \<Rightarrow> ws_client" where
  "served e data w = (if IsSubscribed w (ev_type e) \<and> length (wc_send w) < sendBufferSize
     then w\<lparr>wc_send := wc_send w @ [data]\<rparr> else w)"

definition overrun :: "hub \<Rightarrow> event \<Rightarrow> nat \<Rightarrow> bool" where
  "overrun h e c \<longleftrightarrow> IsSubscribed (hb_heap h ! c) (ev_type e) \<and> sendBufferSize \<le> length (wc_send (hb_heap h ! c))"

lemma loop_send_effect:
  assumes "hb_loop h = Sending e data cs" "c \<in> set cs" "c < length (hb_heap h)" "\<not> wc_closed (hb_heap h ! c)"
  shows "\<exists>h'. loop_send c h = Goes h' \<and> hb_loop h' = sending e data (removeAll c cs) \<and>
    hb_heap h' = (hb_heap h)[c := served e data (hb_heap h ! c)] \<and> hb_broadcast h' = hb_broadcast h \<and>
    hb_leaving h' = hb_leaving h @ (if overrun h e c then [DropOf c] else [])"
  using assms
  by (auto simp: loop_send_def visit_def served_def overrun_def on_client_def Let_def)

lemma broadcast_round:
  "hb_loop h = sending e data cs \<Longrightarrow> set ds = set cs \<Longrightarrow> distinct ds \<Longrightarrow>
   (\<forall>c \<in> set cs. c < length (hb_heap h) \<and> \<not> wc_closed (hb_heap h ! c)) \<Longrightarrow>
   \<exists>h'. hub_steps (map LoopSend ds) h = Goes h' \<and> hb_loop h' = LoopSelect \<and> hb_broadcast h' = hb_broadcast h \<and>
     length (hb_heap h') = length (hb_heap h) \<and>
     (\<forall>c < length (hb_heap h). hb_heap h' ! c = (if c \<in> set cs then served e data (hb_heap h ! c) else hb_heap h ! c)) \<and>
     hb_leaving h' = hb_leaving h @ map DropOf (filter (overrun h e) ds)"
proof (induction ds arbitrary: h cs)
  case Nil
  then show ?case by (auto simp: sending_def)
next
  case (Cons d ds)
  then have l: "hb_loop h = Sending e data cs" "d \<in> set cs" "d < length (hb_heap h)" "\<not> wc_closed (hb_heap h ! d)"
    by (auto simp: sending_def split: if_splits)
  obtain u where u: "loop_send d h = Goes u" "hb_loop u = sending e data (removeAll d cs)"
    "hb_heap u = (hb_heap h)[d := served e data (hb_heap h ! d)]" "hb_broadcast u = hb_broadcast h"
    "hb_leaving u = hb_leaving h @ (if overrun h e d then [DropOf d] else [])"
    using loop_send_effect [OF l] by blast
  have "set ds = set (removeAll d cs)" "distinct ds" using Cons.prems(2,3) by auto
  moreover have "\<forall>c \<in> set (removeAll d cs). c < length (hb_heap u) \<and> \<not> wc_closed (hb_heap u ! c)"
    using Cons.prems(4) u(3) by auto
  ultimately obtain v where v: "hub_steps (map LoopSend ds) u = Goes v" "hb_loop v = LoopSelect" "hb_broadcast v = hb_broadcast u"
    "length (hb_heap v) = length (hb_heap u)"
    "\<forall>c < length (hb_heap u). hb_heap v ! c = (if c \<in> set (removeAll d cs) then served e data (hb_heap u ! c) else hb_heap u ! c)"
    "hb_leaving v = hb_leaving u @ map DropOf (filter (overrun u e) ds)"
    using Cons.IH [OF u(2)] by blast
  have "filter (overrun u e) ds = filter (overrun h e) ds"
    using Cons.prems(3) u(3) l(3) by (intro filter_cong refl) (auto simp: overrun_def nth_list_update)
  moreover have "hb_heap v ! c = (if c \<in> set cs then served e data (hb_heap h ! c) else hb_heap h ! c)"
    if "c < length (hb_heap h)" for c
    using v(5) u(3) l(2,3) that by (auto simp: nth_list_update)
  ultimately show ?case using u v by simp
qed

text \<open>
  When the loop takes an event from the broadcast channel and then visits its clients in any
  order, every registered and subscribed client with room in its buffer gets the document at the end
  of its buffer, each one without room is handed over to be unregistered, no other client changes,
  and the loop waits in its select again.
\<close>

theorem hub_delivers:
  assumes "hub_reachable h" "hb_loop h = LoopSelect" "hb_broadcast h = e # es" "Event_ToJSON e = Inr data"
    "distinct cs" "set cs = set (hb_clients h)"
  shows "\<exists>h'. hub_steps (LoopTake # map LoopSend cs) h = Goes h' \<and> hb_loop h' = LoopSelect \<and> hb_broadcast h' = es \<and>
    (\<forall>c < length (hb_heap h). hb_heap h' ! c =
       (if c \<in> set (hb_clients h) then served e data (hb_heap h ! c) else hb_heap h ! c)) \<and>
    hb_leaving h' = hb_leaving h @ map DropOf (filter (overrun h e) cs)"
proof -
  define u where "u = h\<lparr>hb_broadcast := es, hb_loop := sending e data (hb_clients h), hb_taken := hb_taken h @ [data]\<rparr>"
  have u: "hb_heap u = hb_heap h" "hb_broadcast u = es" "hb_leaving u = hb_leaving h"
    "hb_loop u = sending e data (hb_clients h)"
    by (simp_all add: u_def)
  have "hub_step LoopTake h = Goes u" using assms(2-4) by (simp add: loop_take_def u_def)
  moreover have "\<forall>c \<in> set (hb_clients h). c < length (hb_heap u) \<and> \<not> wc_closed (hb_heap u ! c)"
    using hub_inv_reachable [OF assms(1)] by (auto simp: hub_inv_def clients_inv_def u)
  moreover have "overrun u e = overrun h e" by (simp add: overrun_def fun_eq_iff u)
  ultimately show ?thesis using broadcast_round [OF u(4) assms(6,5)] u(1-3) by auto
qed

theorem hub_delivers_witness:
  "\<exists>h'. hub_steps [LoopTake, LoopSend 0] (Broadcast sample_event sample_hub) = Goes h' \<and>
     length (wc_send (hb_heap h' ! 0)) = 2"
proof -
  let ?h = "Broadcast sample_event sample_hub"
  have "hub_reachable ?h"
    by (rule hub_reachable.step [OF sample_hub_reachable, of "CallBroadcast sample_event"]) simp
  moreover have "hb_loop ?h = LoopSelect" "hb_broadcast ?h = [sample_event]"
    "Event_ToJSON sample_event = Inr (event_doc sample_event)" "hb_clients ?h = [0]" "0 < length (hb_heap ?h)"
    "length (wc_send (served sample_event (event_doc sample_event) (hb_heap ?h ! 0))) = 2"
    by code_simp+
  ultimately show ?thesis using hub_delivers [of ?h sample_event "[]" "event_doc sample_event" "[0]"] by fastforce
qed

text \<open>
  After the main loop has ended nobody receives from its channels any more: who is blocked in
  Register or Unregister, or gets there later, stays blocked for ever, so these goroutines are
  never freed.
\<close>

theorem ended_loop_receives_nothing:
  assumes "hb_loop h = LoopDone" "hub_steps as h = Goes h'"
  shows "hb_loop h' = LoopDone \<and> (\<exists>cs ls. hb_registering h' = hb_registering h @ cs \<and> hb_leaving h' = hb_leaving h @ ls)"
  using assms
proof (induction as arbitrary: h)
  case (Cons a as)
  then obtain u where u: "hub_step a h = Goes u" "hub_steps as u = Goes h'" by (auto split: progress.splits)
  have "hb_loop u = LoopDone \<and> (\<exists>cs ls. hb_registering u = hb_registering h @ cs \<and> hb_leaving u = hb_leaving h @ ls)"
  proof (cases a)
    case (WritePump c ev)
    then show ?thesis using u(1) Cons.prems(1) by (auto simp: write_pump_def split: if_splits progress.splits)
  qed (use u(1) Cons.prems(1) in \<open>auto simp: Hub_Stop_def Broadcast_def ServeWS_def forward_quit_def forward_take_def
      forward_push_def loop_quit_def loop_register_def loop_unregister_def loop_take_def loop_send_def
      read_message_def read_fails_def split: if_splits list.splits forward_pc.splits\<close>)
  then show ?case using Cons.IH [OF _ u(2)] by auto
qed auto

theorem ended_loop_receives_nothing_witness:
  "\<exists>h'. hub_steps [CallStop, LoopQuit, ReadFails 0, CallServeWS ''x''] sample_hub = Goes h' \<and>
     (\<forall>as u. hub_steps as h' = Goes u \<longrightarrow> PumpOf 0 \<in> set (hb_leaving u) \<and> 1 \<in> set (hb_registering u))"
proof -
  define h' where "h' = (case hub_steps [CallStop, LoopQuit, ReadFails 0, CallServeWS ''x''] sample_hub of Goes h \<Rightarrow> h | _ \<Rightarrow> NewHub)"
  have r: "hub_steps [CallStop, LoopQuit, ReadFails 0, CallServeWS ''x''] sample_hub = Goes h'"
    unfolding h'_def by code_simp
  have h: "hb_loop h' = LoopDone" "hb_leaving h' = [PumpOf 0]" "hb_registering h' = [1]" unfolding h'_def by code_simp+
  have "PumpOf 0 \<in> set (hb_leaving u) \<and> 1 \<in> set (hb_registering u)" if "hub_steps as h' = Goes u" for as u
    using ended_loop_receives_nothing [OF h(1) that] h(2,3) by auto
  then show ?thesis using r by blast
qed

text \<open>A forwarder that holds an event while the broadcast channel is full and the loop has ended.\<close>

definition wedged :: "hub \<Rightarrow> bool" where
  "wedged h \<longleftrightarrow> hb_loop h = LoopDone \<and> (\<exists>e. hb_forward h = Holding e) \<and> broadcastCap \<le> length (hb_broadcast h)"

lemma wedged_step:
  assumes "wedged h" "hub_step a h = Goes u"
  shows "wedged u"
proof (cases a)
  case (WritePump c ev)
  then show ?thesis using assms by (auto simp: wedged_def write_pump_def split: if_splits progress.splits)
qed (use assms in \<open>auto simp: wedged_def Hub_Stop_def Broadcast_def ServeWS_def forward_quit_def forward_take_def
    forward_push_def loop_quit_def loop_register_def loop_unregister_def loop_take_def loop_send_def
    read_message_def read_fails_def split: if_splits list.splits forward_pc.splits\<close>)

lemma wedged_steps: "wedged h \<Longrightarrow> hub_steps as h = Goes u \<Longrightarrow> wedged u"
proof (induction as arbitrary: h)
  case (Cons a as)
  then obtain v where "hub_step a h = Goes v" "hub_steps as v = Goes u" by (auto split: progress.splits)
  then show ?case using Cons.IH [OF wedged_step [OF Cons.prems(1)]] by blast
qed simp

lemma fill_broadcast:
  assumes "hb_forward h = ForwardSelect" "sb_buffer (hb_events h) = []" "\<not> sb_closed (hb_events h)"
    "length (hb_broadcast h) + n \<le> broadcastCap"
  shows "\<exists>as u. hub_steps as h = Goes u \<and> hb_forward u = ForwardSelect \<and> hb_events u = hb_events h \<and>
    hb_loop u = hb_loop h \<and> hb_stopped u = hb_stopped h \<and> hb_clients u = hb_clients h \<and>
    length (hb_broadcast u) = length (hb_broadcast h) + n"
  using assms
proof (induction n arbitrary: h)
  case 0
  then show ?case by (intro exI [of _ "[]"]) simp
next
  case (Suc n)
  have parse: "Event_FromJSON (event_doc sample_event) = Inr sample_event" by code_simp
  let ?u = "h\<lparr>hb_events := (hb_events h)\<lparr>sb_buffer := []\<rparr>, hb_broadcast := hb_broadcast h @ [sample_event],
    hb_forward := ForwardSelect\<rparr>"
  have run: "hub_steps ([Message (event_doc sample_event), ForwardTake, ForwardPush] @ as) h = hub_steps as ?u" for as
    using Suc.prems by (simp add: offer_def parse eventChCap_def forward_take_def forward_push_def)
  have same: "(hb_events h)\<lparr>sb_buffer := []\<rparr> = hb_events h" using Suc.prems(2) by (cases "hb_events h") simp
  obtain as u where u: "hub_steps as ?u = Goes u" "hb_forward u = ForwardSelect" "hb_events u = hb_events h"
    "hb_loop u = hb_loop h" "hb_stopped u = hb_stopped h" "hb_clients u = hb_clients h"
    "length (hb_broadcast u) = length (hb_broadcast h) + Suc n"
    using Suc.IH [of ?u] Suc.prems same by auto
  have "hub_steps ([Message (event_doc sample_event), ForwardTake, ForwardPush] @ as) h = Goes u" using u(1) run by simp
  then show ?case using u by blast
qed

text \<open>
  C31: Stop can wait for ever. When the loop ends while the forwarder has an event in hand and
  the broadcast channel is full, the forwarder's send, which is in no select, never completes:
  such a state is reachable with nothing but events arriving, and from it no steps lead to Stop
  returning.
\<close>

theorem stop_can_hang:
  "\<exists>h. hub_reachable h \<and> hb_stopped h \<and> \<not> (\<exists>as h'. hub_steps as h = Goes h' \<and> Stop_returns h')"
proof -
  let ?r = "Run (Inr open_subscription) NewHub"
  have r: "hub_reachable ?r"
    by (rule hub_reachable.step [OF hub_reachable.new, of "CallRun (Inr open_subscription)"])
       (simp add: NewHub_def fresh_subscription_def open_subscription_def)
  obtain as u where u: "hub_steps as ?r = Goes u" "hb_forward u = ForwardSelect" "hb_events u = open_subscription"
    "hb_loop u = LoopSelect" "\<not> hb_stopped u" "hb_clients u = []" "length (hb_broadcast u) = broadcastCap"
    using fill_broadcast [of ?r broadcastCap] by (auto simp: Run_def NewHub_def open_subscription_def)
  have parse: "Event_FromJSON (event_doc sample_event) = Inr sample_event" by code_simp
  obtain v where v: "hub_steps [Message (event_doc sample_event), ForwardTake, CallStop, LoopQuit] u = Goes v"
    "hb_stopped v" "wedged v"
    using u(2-) by (auto simp: offer_def parse eventChCap_def open_subscription_def forward_take_def Hub_Stop_def
        loop_quit_def done_signal_def closeAllClients_def wedged_def)
  have "hub_reachable v" using hub_steps_reachable [OF hub_steps_reachable [OF r u(1)] v(1)] .
  moreover have "\<not> Stop_returns h'" if "hub_steps as v = Goes h'" for as h'
    using wedged_steps [OF v(3) that] by (auto simp: wedged_def Stop_returns_def)
  ultimately show ?thesis using v(2) by blast
qed

text \<open>The gauge of connections is the number of registered clients until the loop ends.\<close>

lemma gauge_exact: "hub_reachable h \<Longrightarrow> hb_loop h \<noteq> LoopDone \<Longrightarrow> hb_gauge h = ClientCount h"
proof (induction rule: hub_reachable.induct)
  case new
  show ?case by (simp add: NewHub_def ClientCount_def)
next
  case (step h a h')
  have "hb_loop h \<noteq> LoopDone"
    using step.hyps(2) step.prems by (cases a)
      (auto simp: Run_def fresh_subscription_def Hub_Stop_def Broadcast_def ServeWS_def forward_quit_def forward_take_def
        forward_push_def loop_quit_def loop_register_def loop_unregister_def loop_take_def loop_send_def write_pump_def
        read_message_def read_fails_def split: if_splits list.splits forward_pc.splits sum.splits progress.splits)
  note ih = step.IH [OF this]
  have rel: "hb_gauge (release l u) = hb_gauge u" "hb_clients (release l u) = hb_clients u" for l u
    by (cases l; simp)+
  show ?case
    using step.hyps(2) step.prems ih by (cases a)
      (auto simp: ClientCount_def Run_def fresh_subscription_def Hub_Stop_def Broadcast_def ServeWS_def forward_quit_def
        forward_take_def forward_push_def loop_quit_def loop_register_def loop_unregister_def loop_take_def loop_send_def
        visit_def write_pump_def read_message_def read_fails_def rel Let_def
        split: if_splits list.splits forward_pc.splits sum.splits progress.splits loop_pc.splits)
qed

end
