(* ===== verification/Server.thy ===== *)
theory Server
  imports TaskApi AdminApi Middleware Hub Config
begin

text \<open>
  \<^verbatim>\<open>internal/api/routes.go\<close>: the HTTP server, its table of routes and the middlewares
  around them. The router itself is the third-party \<^verbatim>\<open>chi\<close>: what it does is a parameter.
\<close>

section \<open>The routes\<close>

datatype endpoint =
    TaskCreate | TaskGet | TaskCancel | TaskList
  | AdminHealth | AdminListWorkers | AdminGetWorker | AdminPauseWorker | AdminResumeWorker
  | AdminGetQueues | AdminPurgeQueue | AdminRetryTask
  | AdminListDLQ | AdminRetryDLQ | AdminClearDLQ
  | WebSocket | PrometheusMetrics

text \<open>A route answers one method, or any (\<^verbatim>\<open>Handle\<close>).\<close>

record route =
  ro_method :: "string option"
  ro_pattern :: string
  ro_endpoint :: endpoint

datatype group_middleware = AllowContentType string | LimitClients int

text \<open>A group of routes below a prefix, with the middlewares its \<^verbatim>\<open>Use\<close> calls install.\<close>

record route_group =
  rg_prefix :: string
  rg_middlewares :: "group_middleware list"
  rg_routes :: "route list"

definition on_method :: "string \<Rightarrow> string \<Rightarrow> endpoint \<Rightarrow> route" where
  "on_method meth pattern e = \<lparr>ro_method = Some meth, ro_pattern = pattern, ro_endpoint = e\<rparr>"

text \<open>A nested group without middlewares of its own.\<close>

definition below :: "string \<Rightarrow> route list \<Rightarrow> route list" where
  "below pre rs = map (\<lambda>r. r\<lparr>ro_pattern := pre @ ro_pattern r\<rparr>) rs"

definition setupRoutes :: "config \<Rightarrow> route_group list" where
  "setupRoutes cfg = [
     \<lparr>rg_prefix = ''/api/v1'',
      rg_middlewares = AllowContentType ''application/json'' #
        (if qc_rate_limit_rps (cf_queue cfg) > 0 then [LimitClients (qc_rate_limit_rps (cf_queue cfg))] else []),
      rg_routes = below ''/tasks'' [
        on_method ''POST'' ''/'' TaskCreate,
        on_method ''GET'' ''/{taskID}'' TaskGet,
        on_method ''DELETE'' ''/{taskID}'' TaskCancel,
        on_method ''GET'' ''/'' TaskList]\<rparr>,
     \<lparr>rg_prefix = ''/admin'',
      rg_middlewares = [AllowContentType ''application/json''],
      rg_routes = [
        on_method ''GET'' ''/health'' AdminHealth,
        on_method ''GET'' ''/workers'' AdminListWorkers,
        on_method ''GET'' ''/workers/{workerID}'' AdminGetWorker,
        on_method ''POST'' ''/workers/{workerID}/pause'' AdminPauseWorker,
        on_method ''POST'' ''/workers/{workerID}/resume'' AdminResumeWorker,
        on_method ''GET'' ''/queues'' AdminGetQueues,
        on_method ''DELETE'' ''/queues/{priority}'' AdminPurgeQueue,
        on_method ''POST'' ''/tasks/{taskID}/retry'' AdminRetryTask,
        on_method ''GET'' ''/dlq'' AdminListDLQ,
        on_method ''POST'' ''/dlq/retry'' AdminRetryDLQ,
        on_method ''DELETE'' ''/dlq'' AdminClearDLQ]\<rparr>,
     \<lparr>rg_prefix = '''', rg_middlewares = [],
      rg_routes = on_method ''GET'' ''/ws'' WebSocket #
        (if mc_enabled (cf_metrics cfg)
         then [\<lparr>ro_method = None, ro_pattern = mc_path (cf_metrics cfg), ro_endpoint = PrometheusMetrics\<rparr>] else [])\<rparr>]"

datatype global_middleware = RequestID | RealIP | RequestLogger | Recoverer | HeartbeatAt string

definition setupMiddleware :: "global_middleware list" where
  "setupMiddleware = [RequestID, RealIP, RequestLogger, Recoverer, HeartbeatAt ''/health'']"

section \<open>The server\<close>

record 's server =
  srv_groups :: "route_group list"
  srv_middlewares :: "global_middleware list"
  srv_config :: config
  srv_taskHandler :: "'s task_handler"
  srv_adminHandler :: admin_handler
  srv_limiter :: client_limiter
  srv_wsHub :: hub

definition NewServer :: "'s env \<Rightarrow> config \<Rightarrow> redis_queue \<Rightarrow> bool \<Rightarrow> bool \<Rightarrow> 's server" where
  "NewServer E cfg q dlq publisher =
     \<lparr>srv_groups = setupRoutes cfg, srv_middlewares = setupMiddleware, srv_config = cfg,
      srv_taskHandler = NewTaskHandler q dlq (ScheduleTaskFunc E) (qc_max_queue_size (cf_queue cfg))
        (qc_retry_max_attempts (cf_queue cfg)) publisher,
      srv_adminHandler = NewAdminHandler q publisher,
      srv_limiter = NewClientRateLimiter (qc_rate_limit_rps (cf_queue cfg)),
      srv_wsHub = NewHub\<rparr>"

text \<open>\<^verbatim>\<open>Start\<close> runs the hub with the subscription it gets; \<^verbatim>\<open>Stop\<close> stops it.\<close>

definition Server_Start :: "subscription res \<Rightarrow> 's server \<Rightarrow> 's server" where
  "Server_Start subscribed srv = srv\<lparr>srv_wsHub := Run subscribed (srv_wsHub srv)\<rparr>"

definition Server_Stop :: "'s server \<Rightarrow> 's server progress" where
  "Server_Stop srv = (case Hub_Stop (srv_wsHub srv) of
     Goes h \<Rightarrow> Goes (srv\<lparr>srv_wsHub := h\<rparr>) | Waits \<Rightarrow> Waits | Crashes \<Rightarrow> Crashes)"

text \<open>
  What the code takes from \<^verbatim>\<open>chi\<close>, \<^verbatim>\<open>promhttp\<close> and the websocket library. A middleware of theirs
  changes the request or answers it; \<open>ch_group\<close> picks the group of a path and the rest of the path,
  \<open>ch_route\<close> the route of a group and the URL parameters.
\<close>

record chi =
  ch_RequestID :: "http_request \<Rightarrow> http_request"
  ch_RealIP :: "http_request \<Rightarrow> http_request"
  ch_Recoverer :: "reply \<Rightarrow> reply"
  ch_Heartbeat :: "string \<Rightarrow> http_request \<Rightarrow> reply option"
  ch_AllowContentType :: "string \<Rightarrow> http_request \<Rightarrow> reply option"
  ch_group :: "string list \<Rightarrow> string \<Rightarrow> (nat \<times> string) option"
  ch_route :: "(string option \<times> string) list \<Rightarrow> string \<Rightarrow> string \<Rightarrow> (nat \<times> (string \<Rightarrow> string)) option"
  ch_notFound :: "http_request \<Rightarrow> reply"
  ch_promhttp :: "http_request \<Rightarrow> reply"
  ch_Upgrade :: "http_request \<Rightarrow> reply \<times> string option"

text \<open>The handler of an endpoint, with the URL parameters by name.\<close>

definition run_endpoint :: "'s env \<Rightarrow> chi \<Rightarrow> endpoint \<Rightarrow> (string \<Rightarrow> string) \<Rightarrow> http_request \<Rightarrow> 's server \<Rightarrow>
    ('s, 's server \<times> reply) io" where
  "run_endpoint E C e par r srv =
     (let th = srv_taskHandler srv; ah = srv_adminHandler srv;
          plain = (\<lambda>m. do { rep \<leftarrow> m; ret (srv, rep) }) in
      case e of
        TaskCreate \<Rightarrow> plain (Create E th (hr_body r))
      | TaskGet \<Rightarrow> plain (Get E (par ''taskID''))
      | TaskCancel \<Rightarrow> plain (api_Cancel E th (par ''taskID''))
      | TaskList \<Rightarrow> plain (api_List E th)
      | AdminHealth \<Rightarrow> plain (HealthCheck E)
      | AdminListWorkers \<Rightarrow> plain (ListWorkers E)
      | AdminGetWorker \<Rightarrow> plain (GetWorker E (par ''workerID''))
      | AdminPauseWorker \<Rightarrow> plain (PauseWorker E ah (par ''workerID''))
      | AdminResumeWorker \<Rightarrow> plain (ResumeWorker E ah (par ''workerID''))
      | AdminGetQueues \<Rightarrow> plain (GetQueues E ah)
      | AdminPurgeQueue \<Rightarrow> plain (PurgeQueue E (par ''priority''))
      | AdminRetryTask \<Rightarrow> plain (RetryTask E ah (par ''taskID''))
      | AdminListDLQ \<Rightarrow> plain (ListDLQ E)
      | AdminRetryDLQ \<Rightarrow> plain (RetryDLQ E ah (hr_body r))
      | AdminClearDLQ \<Rightarrow> plain (ClearDLQ E)
      | WebSocket \<Rightarrow> (case ch_Upgrade C r of
            (rep, None) \<Rightarrow> ret (srv, rep)
          | (rep, Some uuid) \<Rightarrow> ret (srv\<lparr>srv_wsHub := ServeWS uuid (srv_wsHub srv)\<rparr>, rep))
      | PrometheusMetrics \<Rightarrow> ret (srv, ch_promhttp C r))"

text \<open>
  The middlewares of a group around a handler, the first one outermost. The limiter is the one
  object the closure of \<^verbatim>\<open>ClientRateLimit\<close> shares between requests.
\<close>

fun in_group :: "'s env \<Rightarrow> chi \<Rightarrow> group_middleware list \<Rightarrow> (http_request \<Rightarrow> 's server \<Rightarrow> ('s, 's server \<times> reply) io) \<Rightarrow>
    http_request \<Rightarrow> 's server \<Rightarrow> ('s, 's server \<times> reply) io" where
  "in_group E C [] handler r srv = handler r srv"
| "in_group E C (AllowContentType ty # ms) handler r srv = (case ch_AllowContentType C ty r of
     Some rep \<Rightarrow> ret (srv, rep)
   | None \<Rightarrow> in_group E C ms handler r srv)"
| "in_group E C (LimitClients rps # ms) handler r srv = do {
     (ok, crl) \<leftarrow> admit_client E (srv_limiter srv) r;
     let srv = srv\<lparr>srv_limiter := crl\<rparr>;
     if \<not> ok then ret (srv, too_many_requests) else in_group E C ms handler r srv
   }"

definition route_in :: "'s env \<Rightarrow> chi \<Rightarrow> route list \<Rightarrow> string \<Rightarrow> http_request \<Rightarrow> 's server \<Rightarrow> ('s, 's server \<times> reply) io" where
  "route_in E C rs rest r srv =
     (case ch_route C (map (\<lambda>x. (ro_method x, ro_pattern x)) rs) (hr_method r) rest of
        None \<Rightarrow> ret (srv, ch_notFound C r)
      | Some (i, par) \<Rightarrow> run_endpoint E C (ro_endpoint (rs ! i)) par r srv)"

definition dispatch :: "'s env \<Rightarrow> chi \<Rightarrow> http_request \<Rightarrow> 's server \<Rightarrow> ('s, 's server \<times> reply) io" where
  "dispatch E C r srv =
     (case ch_group C (map rg_prefix (srv_groups srv)) (hr_path r) of
        None \<Rightarrow> ret (srv, ch_notFound C r)
      | Some (g, rest) \<Rightarrow> in_group E C (rg_middlewares (srv_groups srv ! g))
          (route_in E C (rg_routes (srv_groups srv ! g)) rest) r srv)"

text \<open>The global middlewares around the dispatch; \<^verbatim>\<open>RequestLogger\<close> only logs.\<close>

fun through :: "chi \<Rightarrow> global_middleware list \<Rightarrow> (http_request \<Rightarrow> 's server \<Rightarrow> ('s, 's server \<times> reply) io) \<Rightarrow>
    http_request \<Rightarrow> 's server \<Rightarrow> ('s, 's server \<times> reply) io" where
  "through C [] handler r srv = handler r srv"
| "through C (RequestID # ms) handler r srv = through C ms handler (ch_RequestID C r) srv"
| "through C (RealIP # ms) handler r srv = through C ms handler (ch_RealIP C r) srv"
| "through C (RequestLogger # ms) handler r srv = through C ms handler r srv"
| "through C (Recoverer # ms) handler r srv = do {
     (srv, rep) \<leftarrow> through C ms handler r srv;
     ret (srv, ch_Recoverer C rep)
   }"
| "through C (HeartbeatAt path # ms) handler r srv = (case ch_Heartbeat C path r of
     Some rep \<Rightarrow> ret (srv, rep)
   | None \<Rightarrow> through C ms handler r srv)"

definition ServeHTTP :: "'s env \<Rightarrow> chi \<Rightarrow> http_request \<Rightarrow> 's server \<Rightarrow> ('s, 's server \<times> reply) io" where
  "ServeHTTP E C r srv = through C (srv_middlewares srv) (dispatch E C) r srv"
section \<open>The table of routes\<close>

definition all_routes :: "config \<Rightarrow> (group_middleware list \<times> string option \<times> string \<times> endpoint) list" where
  "all_routes cfg = concat (map (\<lambda>g. map (\<lambda>r. (rg_middlewares g, ro_method r, rg_prefix g @ ro_pattern r, ro_endpoint r))
     (rg_routes g)) (setupRoutes cfg))"

text \<open>
  The rate limit is on exactly the four task routes, when the configured limit is positive. No route
  has the authentication middleware, whatever the configuration says.
\<close>

lemma limited_routes:
  "(\<forall>(ms, meth, pattern, e) \<in> set (all_routes cfg). LimitClients n \<in> set ms \<longleftrightarrow>
      e \<in> {TaskCreate, TaskGet, TaskCancel, TaskList} \<and> 0 < n \<and> n = qc_rate_limit_rps (cf_queue cfg))"
  by (auto simp: all_routes_def setupRoutes_def below_def on_method_def)

text \<open>No two routes answer the same method on the same pattern, unless the metrics path is one of them.\<close>

lemma routes_distinct:
  "\<not> mc_enabled (cf_metrics cfg) \<Longrightarrow> distinct (map (\<lambda>(ms, meth, pattern, e). (meth, pattern)) (all_routes cfg))"
  by (simp add: all_routes_def setupRoutes_def below_def on_method_def)

section \<open>What a refused request does\<close>

text \<open>A program whose results all satisfy \<open>P\<close>, whatever the world does.\<close>

definition only :: "('a \<Rightarrow> bool) \<Rightarrow> ('s, 'a) io \<Rightarrow> bool" where
  "only P m \<longleftrightarrow> (\<forall>s. P (fst (run_state m s)))"

lemma only_ret [simp]: "only P (ret a) = P a"
  by (simp add: only_def)

lemma only_bind: "(\<And>a. only P (f a)) \<Longrightarrow> only P (m \<bind> f)"
  by (simp add: only_def run_state_bind split: prod.split)

lemmas reply_splits = option.split sum.split prod.split

lemma handlers_never_429:
  "only (\<lambda>r. reply_status r \<noteq> 429) (Create E h body)"
  "only (\<lambda>r. reply_status r \<noteq> 429) (Get E i)"
  "only (\<lambda>r. reply_status r \<noteq> 429) (api_Cancel E h i)"
  "only (\<lambda>r. reply_status r \<noteq> 429) (api_List E h)"
  "only (\<lambda>r. reply_status r \<noteq> 429) (HealthCheck E)"
  "only (\<lambda>r. reply_status r \<noteq> 429) (ListWorkers E)"
  "only (\<lambda>r. reply_status r \<noteq> 429) (GetWorker E i)"
  "only (\<lambda>r. reply_status r \<noteq> 429) (PauseWorker E ah i)"
  "only (\<lambda>r. reply_status r \<noteq> 429) (ResumeWorker E ah i)"
  "only (\<lambda>r. reply_status r \<noteq> 429) (GetQueues E ah)"
  "only (\<lambda>r. reply_status r \<noteq> 429) (PurgeQueue E i)"
  "only (\<lambda>r. reply_status r \<noteq> 429) (RetryTask E ah i)"
  "only (\<lambda>r. reply_status r \<noteq> 429) (ListDLQ E)"
  "only (\<lambda>r. reply_status r \<noteq> 429) (RetryDLQ E ah body)"
  "only (\<lambda>r. reply_status r \<noteq> 429) (ClearDLQ E)"
  by (auto simp: Create_def create_now_def create_scheduled_def Get_def api_Cancel_def api_List_def
      HealthCheck_def ListWorkers_def GetWorker_def PauseWorker_def ResumeWorker_def GetQueues_def PurgeQueue_def
      RetryTask_def ListDLQ_def RetryDLQ_def ClearDLQ_def Let_def split: reply_splits intro!: only_bind)

text \<open>
  What is asked of \<^verbatim>\<open>chi\<close> and the two libraries: no reply of theirs has the status 429, and the
  recovery from panics does not turn another status into it.
\<close>

definition chi_never_429 :: "chi \<Rightarrow> bool" where
  "chi_never_429 C \<longleftrightarrow> (\<forall>rep. reply_status rep \<noteq> 429 \<longrightarrow> reply_status (ch_Recoverer C rep) \<noteq> 429) \<and>
     (\<forall>p r rep. ch_Heartbeat C p r = Some rep \<longrightarrow> reply_status rep \<noteq> 429) \<and>
     (\<forall>ty r rep. ch_AllowContentType C ty r = Some rep \<longrightarrow> reply_status rep \<noteq> 429) \<and>
     (\<forall>r. reply_status (ch_notFound C r) \<noteq> 429) \<and> (\<forall>r. reply_status (ch_promhttp C r) \<noteq> 429) \<and>
     (\<forall>r. reply_status (fst (ch_Upgrade C r)) \<noteq> 429)"

lemma endpoint_never_429:
  assumes "chi_never_429 C"
  shows "only (\<lambda>(srv', rep). reply_status rep \<noteq> 429) (run_endpoint E C e par r srv)"
proof -
  have plain: "only (\<lambda>(srv', rep). reply_status rep \<noteq> 429) (do { rep \<leftarrow> m; ret (srv, rep) })"
    if "only (\<lambda>r. reply_status r \<noteq> 429) m" for m
    using that by (simp add: only_def run_state_bind split: prod.split) (metis fst_conv)
  have up: "reply_status rep \<noteq> 429" if "ch_Upgrade C r = (rep, x)" for rep x
    using assms that by (metis chi_never_429_def fst_conv)
  show ?thesis
    using assms by (cases e)
      (auto simp: run_endpoint_def Let_def chi_never_429_def plain handlers_never_429 up split: prod.split option.split)
qed

text \<open>A request answered 429 went no further than the limiter.\<close>

lemma in_group_429:
  assumes "redis E \<alpha>" "chi_never_429 C" "\<And>r srv. only (\<lambda>(srv', rep). reply_status rep \<noteq> 429) (handler r srv)"
  shows "wp (in_group E C ms handler r srv) (\<lambda>(srv', rep) s'. reply_status rep = 429 \<longrightarrow>
     rep = too_many_requests \<and> \<alpha> s' = \<alpha> s) s"
proof -
  have inner: "wp (handler r srv) (\<lambda>(srv', rep) s'. reply_status rep = 429 \<longrightarrow>
     rep = too_many_requests \<and> \<alpha> s' = \<alpha> s) u" for srv u
    using assms(3) [of r srv] by (auto simp: only_def wp_def split: prod.splits dest!: spec [of _ u])
  have "wp (in_group E C ms handler r srv) (\<lambda>(srv', rep) s'. reply_status rep = 429 \<longrightarrow>
     rep = too_many_requests \<and> \<alpha> s' = \<alpha> s) u" if "\<alpha> u = \<alpha> s" for u
    using that
  proof (induction ms arbitrary: srv u)
    case Nil
    show ?case by (simp add: inner)
  next
    case (Cons m ms)
    show ?case
    proof (cases m)
      case (AllowContentType ty)
      then show ?thesis using Cons assms(2) by (auto simp: wp_return chi_never_429_def split: option.split)
    next
      case (LimitClients n)
      then show ?thesis using Cons
        by (auto simp: wp_bind wp_eqs Let_def split: prod.split intro!: redis.admit_client_wp [OF assms(1)])
    qed
  qed
  then show ?thesis by simp
qed

text \<open>
  C24: A request that is answered 429 was refused by the rate limiter and has done nothing else: the
  reply is the limiter's, and the data in Redis is as it was. No handler ever answers 429.
\<close>

theorem too_many_requests_no_effect:
  assumes "redis E \<alpha>" "chi_never_429 C" "srv_middlewares srv = setupMiddleware"
    and "run_state (ServeHTTP E C r srv) s = ((srv', rep), s')" "reply_status rep = 429"
  shows "\<alpha> s' = \<alpha> s \<and> rep = ch_Recoverer C too_many_requests"
proof -
  have route: "only (\<lambda>(srv', rep). reply_status rep \<noteq> 429) (route_in E C rs rest r srv)" for rs rest r srv
    using assms(2) endpoint_never_429 [OF assms(2)]
    by (auto simp: route_in_def chi_never_429_def split: option.split)
  let ?Q = "\<lambda>(srv', rep) s'. reply_status rep = 429 \<longrightarrow> rep = too_many_requests \<and> \<alpha> s' = \<alpha> s"
  have "wp (dispatch E C r srv) ?Q s" for r srv
    using assms(2) in_group_429 [OF assms(1,2) route]
    by (auto simp: dispatch_def wp_return chi_never_429_def split: option.split)
  then have inner: "wp (through C [HeartbeatAt ''/health''] (dispatch E C) r srv) ?Q s" for r srv
    using assms(2) by (auto simp: wp_return chi_never_429_def split: option.split)
  have "wp (ServeHTTP E C r srv) (\<lambda>(srv', rep) s'. reply_status rep = 429 \<longrightarrow>
      \<alpha> s' = \<alpha> s \<and> rep = ch_Recoverer C too_many_requests) s"
    unfolding ServeHTTP_def assms(3) setupMiddleware_def through.simps(2-5) wp_bind
    by (rule wp_mono [OF inner]) (use assms(2) in \<open>auto simp: wp_return chi_never_429_def\<close>)
  from wp_runD [OF this assms(4)] show ?thesis using assms(5) by simp
qed

section \<open>A router to run the server with\<close>

text \<open>
  One instance of the parameter, for the closed witnesses: patterns are matched segment by segment,
  a segment in braces matches any, and a slash at the end makes no difference.
\<close>

fun segments :: "string \<Rightarrow> string list" where
  "segments [] = [[]]"
| "segments (c # cs) = (if c = CHR ''/'' then [] # segments cs
     else (case segments cs of s # ss \<Rightarrow> (c # s) # ss | [] \<Rightarrow> [[c]]))"

definition path_segments :: "string \<Rightarrow> string list" where
  "path_segments path = (let ss = segments path in if last ss = [] then butlast ss else ss)"

fun match_segments :: "string list \<Rightarrow> string list \<Rightarrow> (string \<times> string) list option" where
  "match_segments [] [] = Some []"
| "match_segments (p # ps) (s # ss) = (case match_segments ps ss of
     None \<Rightarrow> None
   | Some par \<Rightarrow> (if p \<noteq> [] \<and> hd p = CHR ''{'' then Some ((butlast (tl p), s) # par)
       else if p = s then Some par else None))"
| "match_segments _ _ = None"

fun first_route :: "nat \<Rightarrow> (string option \<times> string) list \<Rightarrow> string \<Rightarrow> string \<Rightarrow> (nat \<times> (string \<Rightarrow> string)) option" where
  "first_route n [] meth path = None"
| "first_route n ((m, p) # rs) meth path = (case match_segments (path_segments p) (path_segments path) of
     Some par \<Rightarrow> if m = None \<or> m = Some meth
       then Some (n, \<lambda>k. case map_of par k of None \<Rightarrow> '''' | Some v \<Rightarrow> v) else first_route (Suc n) rs meth path
   | None \<Rightarrow> first_route (Suc n) rs meth path)"

fun first_group :: "nat \<Rightarrow> string list \<Rightarrow> string \<Rightarrow> (nat \<times> string) option" where
  "first_group n [] path = None"
| "first_group n (p # ps) path = (if take (length p) path = p then Some (n, drop (length p) path)
     else first_group (Suc n) ps path)"

definition plain_chi :: chi where
  "plain_chi = \<lparr>ch_RequestID = (\<lambda>r. r), ch_RealIP = (\<lambda>r. r),
     ch_Recoverer = (\<lambda>rep. case rep of Panic \<Rightarrow> Reply 500 None | _ \<Rightarrow> rep),
     ch_Heartbeat = (\<lambda>path r. if hr_path r = path then Some (Reply 200 (Some (GStr ''.''))) else None),
     ch_AllowContentType = (\<lambda>ty r. if hr_body r = None \<or> hr_header r ''Content-Type'' = ty then None else Some (Reply 415 None)),
     ch_group = first_group 0, ch_route = first_route 0,
     ch_notFound = (\<lambda>r. Reply 404 (Some (GStr ''404 page not found''))),
     ch_promhttp = (\<lambda>r. Reply 200 None), ch_Upgrade = (\<lambda>r. (Reply 400 None, None))\<rparr>"

lemma plain_chi_never_429: "chi_never_429 plain_chi"
  by (auto simp: chi_never_429_def plain_chi_def split: reply.split if_splits)

text \<open>A server with a limit of one request per second, whose client has just used it up.\<close>

definition spent_server :: "mem server" where
  "spent_server = (NewServer mem_env (default_config\<lparr>cf_queue := (cf_queue default_config)\<lparr>qc_rate_limit_rps := 1\<rparr>\<rparr>)
     sample_queue True True)\<lparr>srv_limiter :=
       \<lparr>cr_heap = [\<lparr>rl_tokens = Fin 0, rl_maxTokens = Fin 1, rl_refillRate = Fin 1, rl_lastRefill = 1000 * 1000000000\<rparr>],
        cr_limiters = [''10.0.0.1'' \<mapsto> 0], cr_rps = 1, cr_cleanup = 5 * Minute\<rparr>\<rparr>"

definition list_request :: http_request where
  "list_request = \<lparr>hr_method = ''GET'', hr_path = ''/api/v1/tasks/'', hr_header = (\<lambda>_. ''''),
     hr_remote = ''10.0.0.1'', hr_body = None, hr_user = NoUser\<rparr>"

lemma spent_server_refuses:
  "run_state (ServeHTTP mem_env plain_chi list_request spent_server) (empty_mem []) =
     ((spent_server, too_many_requests), (empty_mem [])\<lparr>mem_clock := 1000 * 1000000000 + 1\<rparr>)"
proof -
  let ?rl = "\<lparr>rl_tokens = Fin 0, rl_maxTokens = Fin 1, rl_refillRate = Fin 1, rl_lastRefill = 1000 * 1000000000\<rparr>"
  have "allow_at (1000 * 1000000000) ?rl = (False, ?rl)"
    using refilled_still [of ?rl 0 1] by (simp add: allow_at_def)
  then have allow: "allow_through (1000 * 1000000000) 0 (srv_limiter spent_server) = (False, srv_limiter spent_server)"
    by (simp add: allow_through_def spent_server_def)
  have group: "ch_group plain_chi (map rg_prefix (srv_groups spent_server)) (hr_path list_request) = Some (0, ''/tasks/'')"
    by (simp add: plain_chi_def spent_server_def NewServer_def setupRoutes_def list_request_def)
  have mws: "rg_middlewares (srv_groups spent_server ! 0) = [AllowContentType ''application/json'', LimitClients 1]"
    by (simp add: spent_server_def NewServer_def setupRoutes_def default_config_def)
  have "run_state (admit_client mem_env (srv_limiter spent_server) list_request) (empty_mem []) =
      ((False, srv_limiter spent_server), (empty_mem [])\<lparr>mem_clock := 1000 * 1000000000 + 1\<rparr>)"
    using allow by (simp add: admit_client_def GetLimiter_def client_id_def list_request_def mem_env_def mem_now_def
        empty_mem_def spent_server_def)
  moreover have "spent_server\<lparr>srv_limiter := srv_limiter spent_server\<rparr> = spent_server" by simp
  moreover have "ch_AllowContentType plain_chi ty list_request = None" for ty
    by (simp add: plain_chi_def list_request_def)
  ultimately have "run_state (dispatch mem_env plain_chi list_request spent_server) (empty_mem []) =
      ((spent_server, too_many_requests), (empty_mem [])\<lparr>mem_clock := 1000 * 1000000000 + 1\<rparr>)"
    by (simp add: dispatch_def group mws)
  moreover have "srv_middlewares spent_server = setupMiddleware" by (simp add: spent_server_def NewServer_def)
  moreover have "ch_RequestID plain_chi r = r" "ch_RealIP plain_chi r = r" "ch_Heartbeat plain_chi ''/health'' list_request = None"
    "ch_Recoverer plain_chi too_many_requests = too_many_requests" for r
    by (simp_all add: plain_chi_def list_request_def too_many_requests_def)
  ultimately show ?thesis by (simp add: ServeHTTP_def setupMiddleware_def)
qed

theorem too_many_requests_no_effect_witness:
  "reply_status (snd (fst (run_state (ServeHTTP mem_env plain_chi list_request spent_server) (empty_mem [])))) = 429 \<and>
   mem_view (snd (run_state (ServeHTTP mem_env plain_chi list_request spent_server) (empty_mem []))) = mem_view (empty_mem [])"
proof -
  have "srv_middlewares spent_server = setupMiddleware" by (simp add: spent_server_def NewServer_def)
  moreover have "reply_status too_many_requests = 429" by (simp add: too_many_requests_def)
  ultimately show ?thesis
    using too_many_requests_no_effect [OF mem.redis_axioms plain_chi_never_429 _ spent_server_refuses]
    by (simp add: spent_server_refuses)
qed

end
