(* ===== verification/ClientTypes.thy ===== *)
theory ClientTypes
  imports Server
begin

text \<open>
  The documents of \<^verbatim>\<open>pkg/client/client_gen.go\<close>: the structs the client sends and reads, and the
  enumerations of their texts. Nearly all fields are pointers, options here.
\<close>

section \<open>Documents\<close>

text \<open>A field behind a pointer: nil when it is absent or \<^verbatim>\<open>null\<close>.\<close>

fun read_ptr :: "(gval option \<Rightarrow> 'a option) \<Rightarrow> gval option \<Rightarrow> 'a option option" where
  "read_ptr rd None = Some None"
| "read_ptr rd (Some GNull) = Some None"
| "read_ptr rd (Some v) = map_option Some (rd (Some v))"

fun read_fields :: "gval option \<Rightarrow> (string \<times> gval) list option" where
  "read_fields (Some (GObj fs)) = Some fs"
| "read_fields _ = None"

fun read_array :: "(gval \<Rightarrow> 'a option) \<Rightarrow> gval option \<Rightarrow> 'a list option" where
  "read_array rd (Some (GArr vs)) = those (map rd vs)"
| "read_array rd _ = None"

text \<open>Decoding into a struct: an object, or \<^verbatim>\<open>null\<close>, which leaves it empty.\<close>

fun struct_fields :: "gval \<Rightarrow> (string \<times> gval) list option" where
  "struct_fields (GObj fs) = Some fs"
| "struct_fields GNull = Some []"
| "struct_fields _ = None"

text \<open>
  The optional fields of a request are pointers. The maps behind the pointers may be nil, so these
  fields are options of options.
\<close>

record client_request =
  cq_MaxRetries :: "int option"
  cq_Metadata :: "(string \<times> string) list option option"
  cq_Payload :: "gmap option"
  cq_Priority :: "int option"
  cq_ScheduledAt :: "int option"
  cq_Timeout :: "int option"
  cq_Type :: string

definition omit_ptr :: "string \<Rightarrow> ('a \<Rightarrow> gval) \<Rightarrow> 'a option \<Rightarrow> (string \<times> gval) list" where
  "omit_ptr k doc x = (case x of None \<Rightarrow> [] | Some v \<Rightarrow> [(k, doc v)])"

definition smap_doc :: "(string \<times> string) list option \<Rightarrow> gval" where
  "smap_doc m = (case m of None \<Rightarrow> GNull | Some fs \<Rightarrow> GObj (map (\<lambda>(a, b). (a, GStr b)) fs))"

definition client_request_doc :: "client_request \<Rightarrow> gval" where
  "client_request_doc q = GObj (
     omit_ptr ''max_retries'' (\<lambda>n. GNum (of_int n)) (cq_MaxRetries q) @
     omit_ptr ''metadata'' smap_doc (cq_Metadata q) @
     omit_ptr ''payload'' gmap_doc (cq_Payload q) @
     omit_ptr ''priority'' (\<lambda>n. GNum (of_int n)) (cq_Priority q) @
     omit_ptr ''scheduled_at'' GTime (cq_ScheduledAt q) @
     omit_ptr ''timeout'' (\<lambda>n. GNum (of_int n)) (cq_Timeout q) @
     [(''type'', GStr (cq_Type q))])"

record client_task =
  ct_Attempts :: "int option"
  ct_CompletedAt :: "int option"
  ct_CreatedAt :: "int option"
  ct_Error :: "string option"
  ct_Id :: "string option"
  ct_MaxRetries :: "int option"
  ct_Metadata :: "(string \<times> string) list option"
  ct_NextRetryAt :: "int option"
  ct_Payload :: "(string \<times> gval) list option"
  ct_Priority :: "string option"
  ct_Result :: "(string \<times> gval) list option"
  ct_ScheduledAt :: "int option"
  ct_StartedAt :: "int option"
  ct_State :: "string option"
  ct_Type :: "string option"
  ct_UpdatedAt :: "int option"
  ct_WorkerId :: "string option"

text \<open>The parser of UUIDs is third-party: it gives the canonical text.\<close>

fun read_uuid :: "(string \<Rightarrow> string option) \<Rightarrow> gval option \<Rightarrow> string option" where
  "read_uuid parse (Some (GStr s)) = parse s"
| "read_uuid parse _ = None"

definition read_client_task :: "(string \<Rightarrow> string option) \<Rightarrow> gval \<Rightarrow> client_task option" where
  "read_client_task parse d = do {
     fs \<leftarrow> struct_fields d;
     at' \<leftarrow> read_ptr read_int (field fs ''attempts'');
     co \<leftarrow> read_ptr read_time (field fs ''completed_at'');
     cr \<leftarrow> read_ptr read_time (field fs ''created_at'');
     er \<leftarrow> read_ptr read_string (field fs ''error'');
     i \<leftarrow> read_ptr (read_uuid parse) (field fs ''id'');
     mr \<leftarrow> read_ptr read_int (field fs ''max_retries'');
     me \<leftarrow> read_smap (field fs ''metadata'');
     nr \<leftarrow> read_ptr read_time (field fs ''next_retry_at'');
     pl \<leftarrow> read_ptr read_fields (field fs ''payload'');
     pr \<leftarrow> read_ptr read_string (field fs ''priority'');
     re \<leftarrow> read_ptr read_fields (field fs ''result'');
     sc \<leftarrow> read_ptr read_time (field fs ''scheduled_at'');
     st \<leftarrow> read_ptr read_time (field fs ''started_at'');
     sta \<leftarrow> read_ptr read_string (field fs ''state'');
     ty \<leftarrow> read_ptr read_string (field fs ''type'');
     up \<leftarrow> read_ptr read_time (field fs ''updated_at'');
     wk \<leftarrow> read_ptr read_string (field fs ''worker_id'');
     Some \<lparr>ct_Attempts = at', ct_CompletedAt = co, ct_CreatedAt = cr, ct_Error = er, ct_Id = i, ct_MaxRetries = mr,
       ct_Metadata = me, ct_NextRetryAt = nr, ct_Payload = pl, ct_Priority = pr, ct_Result = re, ct_ScheduledAt = sc,
       ct_StartedAt = st, ct_State = sta, ct_Type = ty, ct_UpdatedAt = up, ct_WorkerId = wk\<rparr>
   }"

record error_response =
  er_Error :: "string option"
  er_Message :: "string option"

definition read_error_response :: "gval \<Rightarrow> error_response option" where
  "read_error_response d = do {
     fs \<leftarrow> struct_fields d;
     e \<leftarrow> read_ptr read_string (field fs ''error'');
     m \<leftarrow> read_ptr read_string (field fs ''message'');
     Some \<lparr>er_Error = e, er_Message = m\<rparr>
   }"

record health_response =
  hp_Error :: "string option"
  hp_Redis :: "string option"
  hp_Status :: "string option"

definition read_health :: "gval \<Rightarrow> health_response option" where
  "read_health d = do {
     fs \<leftarrow> struct_fields d;
     e \<leftarrow> read_ptr read_string (field fs ''error'');
     r \<leftarrow> read_ptr read_string (field fs ''redis'');
     s \<leftarrow> read_ptr read_string (field fs ''status'');
     Some \<lparr>hp_Error = e, hp_Redis = r, hp_Status = s\<rparr>
   }"

record client_worker =
  cw_ActiveTasks :: "int option"
  cw_Concurrency :: "int option"
  cw_Id :: "string option"
  cw_LastHeartbeat :: "int option"
  cw_StartedAt :: "int option"
  cw_State :: "string option"
  cw_Version :: "string option"

definition read_client_worker :: "gval \<Rightarrow> client_worker option" where
  "read_client_worker d = do {
     fs \<leftarrow> struct_fields d;
     a \<leftarrow> read_ptr read_int (field fs ''active_tasks'');
     c \<leftarrow> read_ptr read_int (field fs ''concurrency'');
     i \<leftarrow> read_ptr read_string (field fs ''id'');
     l \<leftarrow> read_ptr read_time (field fs ''last_heartbeat'');
     t \<leftarrow> read_ptr read_time (field fs ''started_at'');
     s \<leftarrow> read_ptr read_string (field fs ''state'');
     v \<leftarrow> read_ptr read_string (field fs ''version'');
     Some \<lparr>cw_ActiveTasks = a, cw_Concurrency = c, cw_Id = i, cw_LastHeartbeat = l, cw_StartedAt = t,
       cw_State = s, cw_Version = v\<rparr>
   }"

record worker_list =
  wl_Count :: "int option"
  wl_Workers :: "client_worker list option"

definition read_worker_list :: "gval \<Rightarrow> worker_list option" where
  "read_worker_list d = do {
     fs \<leftarrow> struct_fields d;
     c \<leftarrow> read_ptr read_int (field fs ''count'');
     w \<leftarrow> read_ptr (read_array read_client_worker) (field fs ''workers'');
     Some \<lparr>wl_Count = c, wl_Workers = w\<rparr>
   }"

record client_dlq_entry =
  cd_AddedAt :: "int option"
  cd_Reason :: "string option"
  cd_TaskId :: "string option"
  cd_TaskType :: "string option"

definition read_client_dlq_entry :: "gval \<Rightarrow> client_dlq_entry option" where
  "read_client_dlq_entry d = do {
     fs \<leftarrow> struct_fields d;
     a \<leftarrow> read_ptr read_time (field fs ''added_at'');
     r \<leftarrow> read_ptr read_string (field fs ''reason'');
     i \<leftarrow> read_ptr read_string (field fs ''task_id'');
     t \<leftarrow> read_ptr read_string (field fs ''task_type'');
     Some \<lparr>cd_AddedAt = a, cd_Reason = r, cd_TaskId = i, cd_TaskType = t\<rparr>
   }"

record dlq_list =
  dl_Entries :: "client_dlq_entry list option"
  dl_Size :: "int option"

definition read_dlq_list :: "gval \<Rightarrow> dlq_list option" where
  "read_dlq_list d = do {
     fs \<leftarrow> struct_fields d;
     e \<leftarrow> read_ptr (read_array read_client_dlq_entry) (field fs ''entries'');
     n \<leftarrow> read_ptr read_int (field fs ''size'');
     Some \<lparr>dl_Entries = e, dl_Size = n\<rparr>
   }"

record client_priority_stats =
  pr_PendingUnacked :: "int option"
  pr_Queued :: "int option"

definition read_priority_stats :: "gval \<Rightarrow> client_priority_stats option" where
  "read_priority_stats d = do {
     fs \<leftarrow> struct_fields d;
     p \<leftarrow> read_ptr read_int (field fs ''pending_unacked'');
     q \<leftarrow> read_ptr read_int (field fs ''queued'');
     Some \<lparr>pr_PendingUnacked = p, pr_Queued = q\<rparr>
   }"

record stats_totals =
  tt_Deferred :: "int option"
  tt_PendingUnacked :: "int option"
  tt_Queued :: "int option"

definition read_totals :: "gval \<Rightarrow> stats_totals option" where
  "read_totals d = do {
     fs \<leftarrow> struct_fields d;
     e \<leftarrow> read_ptr read_int (field fs ''deferred'');
     p \<leftarrow> read_ptr read_int (field fs ''pending_unacked'');
     q \<leftarrow> read_ptr read_int (field fs ''queued'');
     Some \<lparr>tt_Deferred = e, tt_PendingUnacked = p, tt_Queued = q\<rparr>
   }"

text \<open>A map of structs, and a struct behind a pointer.\<close>

fun read_entries :: "(gval \<Rightarrow> 'a option) \<Rightarrow> gval option \<Rightarrow> (string \<times> 'a) list option" where
  "read_entries rd (Some (GObj fs)) = those (map (\<lambda>(k, v). map_option (Pair k) (rd v)) fs)"
| "read_entries rd _ = None"

fun read_struct :: "(gval \<Rightarrow> 'a option) \<Rightarrow> gval option \<Rightarrow> 'a option" where
  "read_struct rd (Some v) = rd v"
| "read_struct rd None = None"

record client_stats =
  cs_DlqSize :: "int option"
  cs_Queues :: "(string \<times> client_priority_stats) list option"
  cs_ScheduledCount :: "int option"
  cs_Totals :: "stats_totals option"

definition read_client_stats :: "gval \<Rightarrow> client_stats option" where
  "read_client_stats d = do {
     fs \<leftarrow> struct_fields d;
     n \<leftarrow> read_ptr read_int (field fs ''dlq_size'');
     q \<leftarrow> read_ptr (read_entries read_priority_stats) (field fs ''queues'');
     s \<leftarrow> read_ptr read_int (field fs ''scheduled_count'');
     t \<leftarrow> read_ptr (read_struct read_totals) (field fs ''totals'');
     Some \<lparr>cs_DlqSize = n, cs_Queues = q, cs_ScheduledCount = s, cs_Totals = t\<rparr>
   }"

record dlq_request =
  dq_MessageId :: "string option"
  dq_RetryAll :: "bool option"
  dq_TaskId :: "string option"

definition dlq_request_doc :: "dlq_request \<Rightarrow> gval" where
  "dlq_request_doc q = GObj (omit_ptr ''message_id'' GStr (dq_MessageId q) @
     omit_ptr ''retry_all'' GBool (dq_RetryAll q) @ omit_ptr ''task_id'' GStr (dq_TaskId q))"

text \<open>The anonymous structs of the confirmations: a message, and for most of them one more text.\<close>

record confirmation =
  cf_Message :: "string option"
  cf_Subject :: "string option"

definition read_confirmation :: "string option \<Rightarrow> gval \<Rightarrow> confirmation option" where
  "read_confirmation key d = do {
     fs \<leftarrow> struct_fields d;
     m \<leftarrow> read_ptr read_string (field fs ''message'');
     x \<leftarrow> (case key of None \<Rightarrow> Some None | Some k \<Rightarrow> read_ptr read_string (field fs k));
     Some \<lparr>cf_Message = m, cf_Subject = x\<rparr>
   }"

text \<open>
  The retry of the dead letter queue has a union as its answer, decoded into a struct whose one
  field is not exported: any object will do, and nothing is kept of it.
\<close>

definition read_union :: "gval \<Rightarrow> unit option" where
  "read_union d = map_option (\<lambda>fs. ()) (struct_fields d)"

section \<open>The enumerations\<close>

definition HealthResponseRedis_Valid :: "string \<Rightarrow> bool" where
  "HealthResponseRedis_Valid e \<longleftrightarrow> e = ''connected'' \<or> e = ''disconnected''"

definition HealthResponseStatus_Valid :: "string \<Rightarrow> bool" where
  "HealthResponseStatus_Valid e \<longleftrightarrow> e = ''healthy'' \<or> e = ''unhealthy''"

definition TaskResponsePriority_Valid :: "string \<Rightarrow> bool" where
  "TaskResponsePriority_Valid e \<longleftrightarrow> e = ''critical'' \<or> e = ''high'' \<or> e = ''low'' \<or> e = ''normal''"

definition TaskResponseState_Valid :: "string \<Rightarrow> bool" where
  "TaskResponseState_Valid e \<longleftrightarrow> e = ''cancelled'' \<or> e = ''completed'' \<or> e = ''dead_letter'' \<or> e = ''failed'' \<or>
     e = ''pending'' \<or> e = ''retrying'' \<or> e = ''running'' \<or> e = ''scheduled''"

definition WorkerInfoState_Valid :: "string \<Rightarrow> bool" where
  "WorkerInfoState_Valid e \<longleftrightarrow> e = ''busy'' \<or> e = ''idle'' \<or> e = ''paused'' \<or> e = ''shutting_down''"

definition client_Priority_Valid :: "string \<Rightarrow> bool" where
  "client_Priority_Valid e \<longleftrightarrow> e = ''critical'' \<or> e = ''high'' \<or> e = ''low'' \<or> e = ''normal''"

definition PurgeQueueParamsPriority_Valid :: "string \<Rightarrow> bool" where
  "PurgeQueueParamsPriority_Valid e \<longleftrightarrow> e = ''critical'' \<or> e = ''high'' \<or> e = ''low'' \<or> e = ''normal''"

end
