(* ===== verification/ApiClient.thy ===== *)
theory ApiClient
  imports ClientTypes
begin

text \<open>
  The HTTP part of \<^verbatim>\<open>pkg/client\<close>: the requests and responses of \<^verbatim>\<open>client_gen.go\<close>, the options of
  \<^verbatim>\<open>options.go\<close> and the operations \<^verbatim>\<open>client.go\<close> puts on top of them.
\<close>

section \<open>Sending a request\<close>

text \<open>
  A response has a status, a content type and a body: what reading it gives, \<open>None\<close> when it is no
  JSON document. \<^verbatim>\<open>http.Client\<close> is used through its timeout and \<^verbatim>\<open>Do\<close>.
\<close>

record wire_response =
  rp_StatusCode :: int
  rp_ContentType :: string
  rp_Body :: "gval option res"

record http_client =
  ht_Timeout :: int

text \<open>
  What the client takes from elsewhere: \<open>nt_Resolve\<close> gives the path of the URL that a reference means
  on the server's URL (\<^verbatim>\<open>net/url\<close>), \<open>nt_StyleParam\<close> the text of a path parameter (the runtime of the
  generator), \<open>nt_ParseUUID\<close> the canonical text of a UUID, and \<open>nt_Do\<close> sends a request on the network.
\<close>

record 's net =
  nt_Resolve :: "string \<Rightarrow> string \<Rightarrow> string res"
  nt_StyleParam :: "string \<Rightarrow> string \<Rightarrow> string res"
  nt_ParseUUID :: "string \<Rightarrow> string res"
  nt_Do :: "http_client \<Rightarrow> http_request \<Rightarrow> ('s, wire_response res) io"

type_synonym request_editor = "http_request \<Rightarrow> http_request res"

text \<open>
  The \<^verbatim>\<open>Doer\<close> of a client: the interface may be nil, or hold a pointer that is nil.
\<close>

datatype doer = NoDoer | Doer "http_client option"

record api_client =
  ac_Server :: string
  ac_Client :: doer
  ac_RequestEditors :: "request_editor list"

type_synonym client_option = "api_client \<Rightarrow> api_client res"

fun apply_options :: "client_option list \<Rightarrow> api_client \<Rightarrow> api_client res" where
  "apply_options [] c = Inr c"
| "apply_options (opt # opts) c = (case opt c of Inl err \<Rightarrow> Inl err | Inr c \<Rightarrow> apply_options opts c)"

definition with_slash :: "string \<Rightarrow> string" where
  "with_slash s = (if s \<noteq> [] \<and> last s = CHR ''/'' then s else s @ ''/'')"

definition gen_NewClient :: "string \<Rightarrow> client_option list \<Rightarrow> api_client res" where
  "gen_NewClient server opts =
     (case apply_options opts \<lparr>ac_Server = server, ac_Client = NoDoer, ac_RequestEditors = []\<rparr> of
        Inl err \<Rightarrow> Inl err
      | Inr c \<Rightarrow>
          let c = c\<lparr>ac_Server := with_slash (ac_Server c)\<rparr> in
          Inr (case ac_Client c of NoDoer \<Rightarrow> c\<lparr>ac_Client := Doer (Some \<lparr>ht_Timeout = 0\<rparr>)\<rparr> | Doer _ \<Rightarrow> c))"

definition WithHTTPClient :: "http_client option \<Rightarrow> client_option" where
  "WithHTTPClient doer c = Inr (c\<lparr>ac_Client := Doer doer\<rparr>)"

definition WithRequestEditorFn :: "request_editor \<Rightarrow> client_option" where
  "WithRequestEditorFn fn c = Inr (c\<lparr>ac_RequestEditors := ac_RequestEditors c @ [fn]\<rparr>)"

text \<open>The URL here is the text \<^verbatim>\<open>String\<close> gives for the parsed one; \<open>parse\<close> is that of \<^verbatim>\<open>net/url\<close>.\<close>

definition WithBaseURL :: "(string \<Rightarrow> string res) \<Rightarrow> string \<Rightarrow> client_option" where
  "WithBaseURL parse baseURL c = (case parse baseURL of
     Inl err \<Rightarrow> Inl err | Inr url \<Rightarrow> Inr (c\<lparr>ac_Server := url\<rparr>))"

fun run_editors :: "request_editor list \<Rightarrow> http_request \<Rightarrow> http_request res" where
  "run_editors [] req = Inr req"
| "run_editors (r # rs) req = (case r req of Inl err \<Rightarrow> Inl err | Inr req \<Rightarrow> run_editors rs req)"

definition applyEditors :: " api_client \<Rightarrow> http_request \<Rightarrow> request_editor list \<Rightarrow> http_request res" where
  "applyEditors c req additional = (case run_editors (ac_RequestEditors c) req of
     Inl err \<Rightarrow> Inl err | Inr req \<Rightarrow> run_editors additional req)"

fun do_request :: "'s net \<Rightarrow> doer \<Rightarrow> http_request \<Rightarrow> ('s, wire_response res) io" where
  "do_request N (Doer (Some h)) req = nt_Do N h req"
| "do_request N _ req = ret (Inl NilDereference)"

text \<open>The common body of the operations: build the request, edit it, send it.\<close>

definition send :: "'s net \<Rightarrow> api_client \<Rightarrow> request_editor list \<Rightarrow> http_request res \<Rightarrow> ('s, wire_response res) io" where
  "send N c eds built = (case built of
     Inl err \<Rightarrow> ret (Inl err)
   | Inr req \<Rightarrow> (case applyEditors c req eds of
       Inl err \<Rightarrow> ret (Inl err)
     | Inr req \<Rightarrow> do_request N (ac_Client c) req))"

section \<open>Requests\<close>

text \<open>
  A fresh request of \<^verbatim>\<open>http.NewRequest\<close>. The leading slash of the operation's path becomes a dot and
  a slash, so that it is resolved below the server's URL.
\<close>

definition set_header :: "string \<Rightarrow> string \<Rightarrow> http_request \<Rightarrow> http_request" where
  "set_header k v req = req\<lparr>hr_header := (hr_header req)(k := v)\<rparr>"

definition new_request :: "'s net \<Rightarrow> string \<Rightarrow> string \<Rightarrow> string \<Rightarrow> gval option \<Rightarrow> http_request res" where
  "new_request N server meth operationPath body =
     (let operationPath = (if operationPath \<noteq> [] \<and> hd operationPath = CHR ''/''
        then CHR ''.'' # operationPath else operationPath) in
      case nt_Resolve N server operationPath of
        Inl err \<Rightarrow> Inl err
      | Inr path \<Rightarrow> Inr \<lparr>hr_method = meth, hr_path = path, hr_header = (\<lambda>_. ''''), hr_remote = '''',
          hr_body = body, hr_user = NoUser\<rparr>)"

text \<open>\<^verbatim>\<open>Header.Add\<close> on the fresh request, which has no value under the key.\<close>

definition with_body :: "'s net \<Rightarrow> string \<Rightarrow> string \<Rightarrow> string \<Rightarrow> gval option \<Rightarrow> http_request res" where
  "with_body N server path contentType body = (case new_request N server ''POST'' path body of
     Inl err \<Rightarrow> Inl err | Inr req \<Rightarrow> Inr (set_header ''Content-Type'' contentType req))"

definition NewClearDLQRequest :: "'s net \<Rightarrow> string \<Rightarrow> http_request res" where
  "NewClearDLQRequest N server = new_request N server ''DELETE'' ''/admin/dlq'' None"

definition NewListDLQRequest :: "'s net \<Rightarrow> string \<Rightarrow> http_request res" where
  "NewListDLQRequest N server = new_request N server ''GET'' ''/admin/dlq'' None"

definition NewRetryDLQRequestWithBody :: "'s net \<Rightarrow> string \<Rightarrow> string \<Rightarrow> gval option \<Rightarrow> http_request res" where
  "NewRetryDLQRequestWithBody N server contentType body = with_body N server ''/admin/dlq/retry'' contentType body"

definition NewRetryDLQRequest :: "'s net \<Rightarrow> string \<Rightarrow> dlq_request \<Rightarrow> http_request res" where
  "NewRetryDLQRequest N server body = (if \<not> marshalable (dlq_request_doc body) then Inl ErrJSON
     else NewRetryDLQRequestWithBody N server ''application/json'' (Some (dlq_request_doc body)))"

definition NewHealthCheckRequest :: "'s net \<Rightarrow> string \<Rightarrow> http_request res" where
  "NewHealthCheckRequest N server = new_request N server ''GET'' ''/admin/health'' None"

definition NewGetQueuesRequest :: "'s net \<Rightarrow> string \<Rightarrow> http_request res" where
  "NewGetQueuesRequest N server = new_request N server ''GET'' ''/admin/queues'' None"

definition NewPurgeQueueRequest :: "'s net \<Rightarrow> string \<Rightarrow> string \<Rightarrow> http_request res" where
  "NewPurgeQueueRequest N server priority = (case nt_StyleParam N ''priority'' priority of
     Inl err \<Rightarrow> Inl err | Inr p \<Rightarrow> new_request N server ''DELETE'' (''/admin/queues/'' @ p) None)"

definition NewRetryTaskRequest :: "'s net \<Rightarrow> string \<Rightarrow> string \<Rightarrow> http_request res" where
  "NewRetryTaskRequest N server taskId = (case nt_StyleParam N ''taskId'' taskId of
     Inl err \<Rightarrow> Inl err | Inr p \<Rightarrow> new_request N server ''POST'' (''/admin/tasks/'' @ p @ ''/retry'') None)"

definition NewListWorkersRequest :: "'s net \<Rightarrow> string \<Rightarrow> http_request res" where
  "NewListWorkersRequest N server = new_request N server ''GET'' ''/admin/workers'' None"

definition NewGetWorkerRequest :: "'s net \<Rightarrow> string \<Rightarrow> string \<Rightarrow> http_request res" where
  "NewGetWorkerRequest N server workerId = (case nt_StyleParam N ''workerId'' workerId of
     Inl err \<Rightarrow> Inl err | Inr p \<Rightarrow> new_request N server ''GET'' (''/admin/workers/'' @ p) None)"

definition NewPauseWorkerRequest :: "'s net \<Rightarrow> string \<Rightarrow> string \<Rightarrow> http_request res" where
  "NewPauseWorkerRequest N server workerId = (case nt_StyleParam N ''workerId'' workerId of
     Inl err \<Rightarrow> Inl err | Inr p \<Rightarrow> new_request N server ''POST'' (''/admin/workers/'' @ p @ ''/pause'') None)"

definition NewResumeWorkerRequest :: "'s net \<Rightarrow> string \<Rightarrow> string \<Rightarrow> http_request res" where
  "NewResumeWorkerRequest N server workerId = (case nt_StyleParam N ''workerId'' workerId of
     Inl err \<Rightarrow> Inl err | Inr p \<Rightarrow> new_request N server ''POST'' (''/admin/workers/'' @ p @ ''/resume'') None)"

definition NewListTasksRequest :: "'s net \<Rightarrow> string \<Rightarrow> http_request res" where
  "NewListTasksRequest N server = new_request N server ''GET'' ''/api/v1/tasks'' None"

definition NewCreateTaskRequestWithBody :: "'s net \<Rightarrow> string \<Rightarrow> string \<Rightarrow> gval option \<Rightarrow> http_request res" where
  "NewCreateTaskRequestWithBody N server contentType body = with_body N server ''/api/v1/tasks'' contentType body"

definition NewCreateTaskRequest :: "'s net \<Rightarrow> string \<Rightarrow> client_request \<Rightarrow> http_request res" where
  "NewCreateTaskRequest N server body = (if \<not> marshalable (client_request_doc body) then Inl ErrJSON
     else NewCreateTaskRequestWithBody N server ''application/json'' (Some (client_request_doc body)))"

definition NewCancelTaskRequest :: "'s net \<Rightarrow> string \<Rightarrow> string \<Rightarrow> http_request res" where
  "NewCancelTaskRequest N server taskId = (case nt_StyleParam N ''taskId'' taskId of
     Inl err \<Rightarrow> Inl err | Inr p \<Rightarrow> new_request N server ''DELETE'' (''/api/v1/tasks/'' @ p) None)"

definition NewGetTaskRequest :: "'s net \<Rightarrow> string \<Rightarrow> string \<Rightarrow> http_request res" where
  "NewGetTaskRequest N server taskId = (case nt_StyleParam N ''taskId'' taskId of
     Inl err \<Rightarrow> Inl err | Inr p \<Rightarrow> new_request N server ''GET'' (''/api/v1/tasks/'' @ p) None)"

definition NewGetMetricsRequest :: "'s net \<Rightarrow> string \<Rightarrow> http_request res" where
  "NewGetMetricsRequest N server = new_request N server ''GET'' ''/metrics'' None"

definition NewWebsocketConnectRequest :: "'s net \<Rightarrow> string \<Rightarrow> http_request res" where
  "NewWebsocketConnectRequest N server = new_request N server ''GET'' ''/ws'' None"

section \<open>Responses\<close>

text \<open>
  The response structs of the generator have one pointer per documented status, of which at most one
  is set: here the documented statuses of a response are told apart by the status itself.
  \<open>ar_doc\<close> holds the decoded document of the operation, \<open>ar_err\<close> an error document.
\<close>

record 'a api_response =
  ar_HTTPResponse :: wire_response
  ar_doc :: "'a option"
  ar_err :: "error_response option"

definition StatusCode :: "'a api_response \<Rightarrow> int" where
  "StatusCode r = rp_StatusCode (ar_HTTPResponse r)"

definition JSON :: "int \<Rightarrow> 'a api_response \<Rightarrow> 'a option" where
  "JSON c r = (if StatusCode r = c then ar_doc r else None)"

definition JSONError :: "int \<Rightarrow> 'a api_response \<Rightarrow> error_response option" where
  "JSONError c r = (if StatusCode r = c then ar_err r else None)"

text \<open>\<^verbatim>\<open>strings.Contains\<close>, and the decoding of a body.\<close>

fun contains :: "string \<Rightarrow> string \<Rightarrow> bool" where
  "contains sub [] = (sub = [])"
| "contains sub (c # cs) = (take (length sub) (c # cs) = sub \<or> contains sub cs)"

definition unmarshal :: "(gval \<Rightarrow> 'a option) \<Rightarrow> gval option \<Rightarrow> 'a res" where
  "unmarshal rd body = (case Option.bind body rd of None \<Rightarrow> Inl ErrJSON | Some x \<Rightarrow> Inr x)"

text \<open>
  The body of the parsers: \<open>docs\<close> are the statuses whose document \<open>rd\<close> decodes, \<open>errs\<close> those with an
  error document.
\<close>

definition parse_response :: "int list \<Rightarrow> (gval \<Rightarrow> 'a option) \<Rightarrow> int list \<Rightarrow> wire_response \<Rightarrow> 'a api_response res" where
  "parse_response docs rd errs rsp = (case rp_Body rsp of
     Inl err \<Rightarrow> Inl err
   | Inr body \<Rightarrow>
       let r = \<lparr>ar_HTTPResponse = rsp, ar_doc = None, ar_err = None\<rparr> in
       if contains ''json'' (rp_ContentType rsp) \<and> rp_StatusCode rsp \<in> set docs
       then (case unmarshal rd body of Inl err \<Rightarrow> Inl err | Inr x \<Rightarrow> Inr (r\<lparr>ar_doc := Some x\<rparr>))
       else if contains ''json'' (rp_ContentType rsp) \<and> rp_StatusCode rsp \<in> set errs
       then (case unmarshal read_error_response body of Inl err \<Rightarrow> Inl err | Inr x \<Rightarrow> Inr (r\<lparr>ar_err := Some x\<rparr>))
       else Inr r)"

definition ParseClearDLQResponse :: "wire_response \<Rightarrow> confirmation api_response res" where
  "ParseClearDLQResponse rsp = parse_response [200] (read_confirmation None) [] rsp"

definition ParseListDLQResponse :: "wire_response \<Rightarrow> dlq_list api_response res" where
  "ParseListDLQResponse rsp = parse_response [200] read_dlq_list [] rsp"

definition ParseRetryDLQResponse :: "wire_response \<Rightarrow> unit api_response res" where
  "ParseRetryDLQResponse rsp = parse_response [200] read_union [400, 404] rsp"

definition ParseHealthCheckResponse :: "wire_response \<Rightarrow> health_response api_response res" where
  "ParseHealthCheckResponse rsp = parse_response [200, 503] read_health [] rsp"

definition ParseGetQueuesResponse :: "wire_response \<Rightarrow> client_stats api_response res" where
  "ParseGetQueuesResponse rsp = parse_response [200] read_client_stats [] rsp"

definition ParsePurgeQueueResponse :: "wire_response \<Rightarrow> confirmation api_response res" where
  "ParsePurgeQueueResponse rsp = parse_response [200] (read_confirmation (Some ''priority'')) [400] rsp"

definition ParseRetryTaskResponse :: "wire_response \<Rightarrow> confirmation api_response res" where
  "ParseRetryTaskResponse rsp = parse_response [200] (read_confirmation (Some ''task_id'')) [404, 409] rsp"

definition ParseListWorkersResponse :: "wire_response \<Rightarrow> worker_list api_response res" where
  "ParseListWorkersResponse rsp = parse_response [200] read_worker_list [] rsp"

definition ParseGetWorkerResponse :: "wire_response \<Rightarrow> client_worker api_response res" where
  "ParseGetWorkerResponse rsp = parse_response [200] read_client_worker [404] rsp"

definition ParsePauseWorkerResponse :: "wire_response \<Rightarrow> confirmation api_response res" where
  "ParsePauseWorkerResponse rsp = parse_response [200] (read_confirmation (Some ''worker_id'')) [404] rsp"

definition ParseResumeWorkerResponse :: "wire_response \<Rightarrow> confirmation api_response res" where
  "ParseResumeWorkerResponse rsp = parse_response [200] (read_confirmation (Some ''worker_id'')) [404] rsp"

definition ParseListTasksResponse :: "wire_response \<Rightarrow> client_stats api_response res" where
  "ParseListTasksResponse rsp = parse_response [200] read_client_stats [] rsp"

text \<open>A UUID in a document is decoded by the library's parser.\<close>

definition parse_uuid :: "'s net \<Rightarrow> string \<Rightarrow> string option" where
  "parse_uuid N s = (case nt_ParseUUID N s of Inl err \<Rightarrow> None | Inr u \<Rightarrow> Some u)"

definition ParseCreateTaskResponse :: "'s net \<Rightarrow> wire_response \<Rightarrow> client_task api_response res" where
  "ParseCreateTaskResponse N rsp = parse_response [201] (read_client_task (parse_uuid N)) [400, 429, 503] rsp"

definition ParseCancelTaskResponse :: "'s net \<Rightarrow> wire_response \<Rightarrow> client_task api_response res" where
  "ParseCancelTaskResponse N rsp = parse_response [200] (read_client_task (parse_uuid N)) [404, 409] rsp"

definition ParseGetTaskResponse :: "'s net \<Rightarrow> wire_response \<Rightarrow> client_task api_response res" where
  "ParseGetTaskResponse N rsp = parse_response [200] (read_client_task (parse_uuid N)) [404] rsp"

definition ParseGetMetricsResponse :: "wire_response \<Rightarrow> unit api_response res" where
  "ParseGetMetricsResponse rsp = parse_response [] (\<lambda>d. None) [] rsp"

definition ParseWebsocketConnectResponse :: "wire_response \<Rightarrow> unit api_response res" where
  "ParseWebsocketConnectResponse rsp = parse_response [] (\<lambda>d. None) [] rsp"

section \<open>Operations\<close>

text \<open>Each operation builds its request and sends it; with a response, it parses the answer too.\<close>

definition then_parse :: "(wire_response \<Rightarrow> 'a res) \<Rightarrow> ('s, wire_response res) io \<Rightarrow> ('s, 'a res) io" where
  "then_parse parse m = do {
     rsp \<leftarrow> m;
     ret (case rsp of Inl err \<Rightarrow> Inl err | Inr rsp \<Rightarrow> parse rsp)
   }"

definition Client_ClearDLQ :: "'s net \<Rightarrow> api_client \<Rightarrow> request_editor list \<Rightarrow> ('s, wire_response res) io" where
  "Client_ClearDLQ N c eds = send N c eds (NewClearDLQRequest N (ac_Server c))"

definition ClearDLQWithResponse :: "'s net \<Rightarrow> api_client \<Rightarrow> request_editor list \<Rightarrow> ('s, confirmation api_response res) io" where
  "ClearDLQWithResponse N c eds = then_parse ParseClearDLQResponse (Client_ClearDLQ N c eds)"

definition Client_ListDLQ :: "'s net \<Rightarrow> api_client \<Rightarrow> request_editor list \<Rightarrow> ('s, wire_response res) io" where
  "Client_ListDLQ N c eds = send N c eds (NewListDLQRequest N (ac_Server c))"

definition ListDLQWithResponse :: "'s net \<Rightarrow> api_client \<Rightarrow> request_editor list \<Rightarrow> ('s, dlq_list api_response res) io" where
  "ListDLQWithResponse N c eds = then_parse ParseListDLQResponse (Client_ListDLQ N c eds)"

definition Client_RetryDLQWithBody :: "'s net \<Rightarrow> api_client \<Rightarrow> string \<Rightarrow> gval option \<Rightarrow> request_editor list \<Rightarrow>
    ('s, wire_response res) io" where
  "Client_RetryDLQWithBody N c contentType body eds = send N c eds (NewRetryDLQRequestWithBody N (ac_Server c) contentType body)"

definition RetryDLQWithBodyWithResponse :: "'s net \<Rightarrow> api_client \<Rightarrow> string \<Rightarrow> gval option \<Rightarrow> request_editor list \<Rightarrow>
    ('s, unit api_response res) io" where
  "RetryDLQWithBodyWithResponse N c contentType body eds = then_parse ParseRetryDLQResponse (Client_RetryDLQWithBody N c contentType body eds)"

definition Client_RetryDLQ :: "'s net \<Rightarrow> api_client \<Rightarrow> dlq_request \<Rightarrow> request_editor list \<Rightarrow> ('s, wire_response res) io" where
  "Client_RetryDLQ N c body eds = send N c eds (NewRetryDLQRequest N (ac_Server c) body)"

definition RetryDLQWithResponse :: "'s net \<Rightarrow> api_client \<Rightarrow> dlq_request \<Rightarrow> request_editor list \<Rightarrow> ('s, unit api_response res) io" where
  "RetryDLQWithResponse N c body eds = then_parse ParseRetryDLQResponse (Client_RetryDLQ N c body eds)"

definition Client_HealthCheck :: "'s net \<Rightarrow> api_client \<Rightarrow> request_editor list \<Rightarrow> ('s, wire_response res) io" where
  "Client_HealthCheck N c eds = send N c eds (NewHealthCheckRequest N (ac_Server c))"

definition HealthCheckWithResponse :: "'s net \<Rightarrow> api_client \<Rightarrow> request_editor list \<Rightarrow> ('s, health_response api_response res) io" where
  "HealthCheckWithResponse N c eds = then_parse ParseHealthCheckResponse (Client_HealthCheck N c eds)"

definition Client_GetQueues :: "'s net \<Rightarrow> api_client \<Rightarrow> request_editor list \<Rightarrow> ('s, wire_response res) io" where
  "Client_GetQueues N c eds = send N c eds (NewGetQueuesRequest N (ac_Server c))"

definition GetQueuesWithResponse :: "'s net \<Rightarrow> api_client \<Rightarrow> request_editor list \<Rightarrow> ('s, client_stats api_response res) io" where
  "GetQueuesWithResponse N c eds = then_parse ParseGetQueuesResponse (Client_GetQueues N c eds)"

definition Client_PurgeQueue :: "'s net \<Rightarrow> api_client \<Rightarrow> string \<Rightarrow> request_editor list \<Rightarrow> ('s, wire_response res) io" where
  "Client_PurgeQueue N c priority eds = send N c eds (NewPurgeQueueRequest N (ac_Server c) priority)"

definition PurgeQueueWithResponse :: "'s net \<Rightarrow> api_client \<Rightarrow> string \<Rightarrow> request_editor list \<Rightarrow> ('s, confirmation api_response res) io" where
  "PurgeQueueWithResponse N c priority eds = then_parse ParsePurgeQueueResponse (Client_PurgeQueue N c priority eds)"

definition Client_RetryTask :: "'s net \<Rightarrow> api_client \<Rightarrow> string \<Rightarrow> request_editor list \<Rightarrow> ('s, wire_response res) io" where
  "Client_RetryTask N c taskId eds = send N c eds (NewRetryTaskRequest N (ac_Server c) taskId)"

definition RetryTaskWithResponse :: "'s net \<Rightarrow> api_client \<Rightarrow> string \<Rightarrow> request_editor list \<Rightarrow> ('s, confirmation api_response res) io" where
  "RetryTaskWithResponse N c taskId eds = then_parse ParseRetryTaskResponse (Client_RetryTask N c taskId eds)"

definition Client_ListWorkers :: "'s net \<Rightarrow> api_client \<Rightarrow> request_editor list \<Rightarrow> ('s, wire_response res) io" where
  "Client_ListWorkers N c eds = send N c eds (NewListWorkersRequest N (ac_Server c))"

definition ListWorkersWithResponse :: "'s net \<Rightarrow> api_client \<Rightarrow> request_editor list \<Rightarrow> ('s, worker_list api_response res) io" where
  "ListWorkersWithResponse N c eds = then_parse ParseListWorkersResponse (Client_ListWorkers N c eds)"

definition Client_GetWorker :: "'s net \<Rightarrow> api_client \<Rightarrow> string \<Rightarrow> request_editor list \<Rightarrow> ('s, wire_response res) io" where
  "Client_GetWorker N c workerId eds = send N c eds (NewGetWorkerRequest N (ac_Server c) workerId)"

definition GetWorkerWithResponse :: "'s net \<Rightarrow> api_client \<Rightarrow> string \<Rightarrow> request_editor list \<Rightarrow> ('s, client_worker api_response res) io" where
  "GetWorkerWithResponse N c workerId eds = then_parse ParseGetWorkerResponse (Client_GetWorker N c workerId eds)"

definition Client_PauseWorker :: "'s net \<Rightarrow> api_client \<Rightarrow> string \<Rightarrow> request_editor list \<Rightarrow> ('s, wire_response res) io" where
  "Client_PauseWorker N c workerId eds = send N c eds (NewPauseWorkerRequest N (ac_Server c) workerId)"

definition PauseWorkerWithResponse :: "'s net \<Rightarrow> api_client \<Rightarrow> string \<Rightarrow> request_editor list \<Rightarrow> ('s, confirmation api_response res) io" where
  "PauseWorkerWithResponse N c workerId eds = then_parse ParsePauseWorkerResponse (Client_PauseWorker N c workerId eds)"

definition Client_ResumeWorker :: "'s net \<Rightarrow> api_client \<Rightarrow> string \<Rightarrow> request_editor list \<Rightarrow> ('s, wire_response res) io" where
  "Client_ResumeWorker N c workerId eds = send N c eds (NewResumeWorkerRequest N (ac_Server c) workerId)"

definition ResumeWorkerWithResponse :: "'s net \<Rightarrow> api_client \<Rightarrow> string \<Rightarrow> request_editor list \<Rightarrow> ('s, confirmation api_response res) io" where
  "ResumeWorkerWithResponse N c workerId eds = then_parse ParseResumeWorkerResponse (Client_ResumeWorker N c workerId eds)"

definition Client_ListTasks :: "'s net \<Rightarrow> api_client \<Rightarrow> request_editor list \<Rightarrow> ('s, wire_response res) io" where
  "Client_ListTasks N c eds = send N c eds (NewListTasksRequest N (ac_Server c))"

definition ListTasksWithResponse :: "'s net \<Rightarrow> api_client \<Rightarrow> request_editor list \<Rightarrow> ('s, client_stats api_response res) io" where
  "ListTasksWithResponse N c eds = then_parse ParseListTasksResponse (Client_ListTasks N c eds)"

definition Client_CreateTaskWithBody :: "'s net \<Rightarrow> api_client \<Rightarrow> string \<Rightarrow> gval option \<Rightarrow> request_editor list \<Rightarrow>
    ('s, wire_response res) io" where
  "Client_CreateTaskWithBody N c contentType body eds = send N c eds (NewCreateTaskRequestWithBody N (ac_Server c) contentType body)"

definition CreateTaskWithBodyWithResponse :: "'s net \<Rightarrow> api_client \<Rightarrow> string \<Rightarrow> gval option \<Rightarrow> request_editor list \<Rightarrow>
    ('s, client_task api_response res) io" where
  "CreateTaskWithBodyWithResponse N c contentType body eds = then_parse (ParseCreateTaskResponse N) (Client_CreateTaskWithBody N c contentType body eds)"

definition Client_CreateTask :: "'s net \<Rightarrow> api_client \<Rightarrow> client_request \<Rightarrow> request_editor list \<Rightarrow> ('s, wire_response res) io" where
  "Client_CreateTask N c body eds = send N c eds (NewCreateTaskRequest N (ac_Server c) body)"

definition CreateTaskWithResponse :: "'s net \<Rightarrow> api_client \<Rightarrow> client_request \<Rightarrow> request_editor list \<Rightarrow> ('s, client_task api_response res) io" where
  "CreateTaskWithResponse N c body eds = then_parse (ParseCreateTaskResponse N) (Client_CreateTask N c body eds)"

definition Client_CancelTask :: "'s net \<Rightarrow> api_client \<Rightarrow> string \<Rightarrow> request_editor list \<Rightarrow> ('s, wire_response res) io" where
  "Client_CancelTask N c taskId eds = send N c eds (NewCancelTaskRequest N (ac_Server c) taskId)"

definition CancelTaskWithResponse :: "'s net \<Rightarrow> api_client \<Rightarrow> string \<Rightarrow> request_editor list \<Rightarrow> ('s, client_task api_response res) io" where
  "CancelTaskWithResponse N c taskId eds = then_parse (ParseCancelTaskResponse N) (Client_CancelTask N c taskId eds)"

definition Client_GetTask :: "'s net \<Rightarrow> api_client \<Rightarrow> string \<Rightarrow> request_editor list \<Rightarrow> ('s, wire_response res) io" where
  "Client_GetTask N c taskId eds = send N c eds (NewGetTaskRequest N (ac_Server c) taskId)"

definition GetTaskWithResponse :: "'s net \<Rightarrow> api_client \<Rightarrow> string \<Rightarrow> request_editor list \<Rightarrow> ('s, client_task api_response res) io" where
  "GetTaskWithResponse N c taskId eds = then_parse (ParseGetTaskResponse N) (Client_GetTask N c taskId eds)"

definition Client_GetMetrics :: "'s net \<Rightarrow> api_client \<Rightarrow> request_editor list \<Rightarrow> ('s, wire_response res) io" where
  "Client_GetMetrics N c eds = send N c eds (NewGetMetricsRequest N (ac_Server c))"

definition GetMetricsWithResponse :: "'s net \<Rightarrow> api_client \<Rightarrow> request_editor list \<Rightarrow> ('s, unit api_response res) io" where
  "GetMetricsWithResponse N c eds = then_parse ParseGetMetricsResponse (Client_GetMetrics N c eds)"

definition Client_WebsocketConnect :: "'s net \<Rightarrow> api_client \<Rightarrow> request_editor list \<Rightarrow> ('s, wire_response res) io" where
  "Client_WebsocketConnect N c eds = send N c eds (NewWebsocketConnectRequest N (ac_Server c))"

definition WebsocketConnectWithResponse :: "'s net \<Rightarrow> api_client \<Rightarrow> request_editor list \<Rightarrow> ('s, unit api_response res) io" where
  "WebsocketConnectWithResponse N c eds = then_parse ParseWebsocketConnectResponse (Client_WebsocketConnect N c eds)"

end
