(* ===== verification/WsClient.thy ===== *)
theory WsClient
  imports Hub
begin

text \<open>
  \<^verbatim>\<open>pkg/client/websocket.go\<close>: the stream of events on the client's side. The reading goroutine, the
  consumer of the channel, the network and the callers are interleaved step by step, as in \<open>Hub\<close>.
\<close>

section \<open>State\<close>

text \<open>
  A connection: the frames that have arrived and are not read yet, what was written to it, and whether
  this side has closed it. A frame is the sequence of the JSON documents its text consists of.
\<close>

record connection =
  cn_frames :: "gval list list"
  cn_sent :: "gval list"
  cn_open :: bool

text \<open>
  Where a reading goroutine is: at the first \<^verbatim>\<open>select\<close>, in \<^verbatim>\<open>ReadMessage\<close>, at the \<^verbatim>\<open>select\<close> that
  offers an event, at the two statements for a full channel, and at the two of the deferred function.
\<close>

datatype reader_pc = RdPoll | RdRead | RdOffer event | RdDrop event | RdSend event | RdLeave | RdClose | RdGone

text \<open>
  \<open>sc_doneClosed\<close> and \<open>sc_eventsClosed\<close> say that the channel is closed, \<open>sc_once\<close> that \<^verbatim>\<open>closeOnce\<close>
  has run. Every successful \<^verbatim>\<open>Connect\<close> starts a goroutine.
\<close>

record stream_client =
  sc_conn :: "connection option"
  sc_baseURL :: string
  sc_events :: "event list"
  sc_eventsClosed :: bool
  sc_doneClosed :: bool
  sc_once :: bool
  sc_connected :: bool
  sc_apiKey :: string
  sc_readers :: "reader_pc list"

definition eventsCap :: nat where
  "eventsCap = 100"

definition newWebSocketClient :: "string \<Rightarrow> string \<Rightarrow> stream_client" where
  "newWebSocketClient baseURL apiKey = \<lparr>sc_conn = None, sc_baseURL = baseURL, sc_events = [], sc_eventsClosed = False,
     sc_doneClosed = False, sc_once = False, sc_connected = False, sc_apiKey = apiKey, sc_readers = []\<rparr>"

section \<open>Connecting and closing\<close>

text \<open>
  The parts of a URL the code changes, and the rest. Parsing a URL and dialing are the business of
  \<^verbatim>\<open>net/url\<close> and of the websocket library.
\<close>

record url =
  url_Scheme :: string
  url_Rest :: string
  url_Path :: string

definition websocket_url :: "url \<Rightarrow> url" where
  "websocket_url u = (let u = (if url_Scheme u = ''http'' then u\<lparr>url_Scheme := ''ws''\<rparr>
       else if url_Scheme u = ''https'' then u\<lparr>url_Scheme := ''wss''\<rparr> else u)
     in u\<lparr>url_Path := ''/ws''\<rparr>)"

definition Connect :: "(string \<Rightarrow> url res) \<Rightarrow> (url \<Rightarrow> (string \<times> string) list \<Rightarrow> unit res) \<Rightarrow> stream_client \<Rightarrow>
    stream_client \<times> error option" where
  "Connect parse dial sc =
     (if sc_connected sc then (sc, None)
      else (case parse (sc_baseURL sc) of
        Inl err \<Rightarrow> (sc, Some (Wrapf ''invalid base URL'' err))
      | Inr u \<Rightarrow>
          (case dial (websocket_url u)
              (if sc_apiKey sc \<noteq> '''' then [(''Authorization'', ''Bearer '' @ sc_apiKey sc)] else []) of
             Inl err \<Rightarrow> (sc, Some (Wrapf ''websocket dial failed'' err))
           | Inr _ \<Rightarrow> (sc\<lparr>sc_conn := Some \<lparr>cn_frames = [], cn_sent = [], cn_open = True\<rparr>, sc_connected := True,
               sc_doneClosed := False, sc_readers := sc_readers sc @ [RdPoll]\<rparr>, None))))"

text \<open>\<open>write\<close> is the outcome of writing the close message.\<close>

definition Close :: "error option \<Rightarrow> stream_client \<Rightarrow> stream_client \<times> error option" where
  "Close write sc =
     (if sc_once sc then (sc, None)
      else
        let sc = sc\<lparr>sc_once := True, sc_doneClosed := True\<rparr> in
        (case sc_conn sc of
           None \<Rightarrow> (sc, None)
         | Some cn \<Rightarrow> (sc\<lparr>sc_conn := Some (cn\<lparr>cn_open := False\<rparr>)\<rparr>, write)))"

definition IsConnected :: "stream_client \<Rightarrow> bool" where
  "IsConnected sc = sc_connected sc"

text \<open>The two messages about event types; \<open>write\<close> is the outcome of writing one.\<close>

definition subscription_message :: "string \<Rightarrow> string list \<Rightarrow> gval" where
  "subscription_message action eventTypes =
     GObj [(''action'', GStr action), (''events'', GArr (map GStr eventTypes))]"

definition write_JSON :: "error option \<Rightarrow> gval \<Rightarrow> stream_client \<Rightarrow> stream_client \<times> error option" where
  "write_JSON write msg sc = (case (sc_connected sc, sc_conn sc) of
     (True, Some cn) \<Rightarrow> (if write = None then sc\<lparr>sc_conn := Some (cn\<lparr>cn_sent := cn_sent cn @ [msg]\<rparr>)\<rparr> else sc, write)
   | _ \<Rightarrow> (sc, Some (Errorf ''not connected'')))"

definition stream_Subscribe :: "error option \<Rightarrow> string list \<Rightarrow> stream_client \<Rightarrow> stream_client \<times> error option" where
  "stream_Subscribe write eventTypes = write_JSON write (subscription_message ''subscribe'' eventTypes)"

definition stream_Unsubscribe :: "error option \<Rightarrow> string list \<Rightarrow> stream_client \<Rightarrow> stream_client \<times> error option" where
  "stream_Unsubscribe write eventTypes = write_JSON write (subscription_message ''unsubscribe'' eventTypes)"

section \<open>The reading goroutine\<close>

text \<open>
  Decoding a frame: \<^verbatim>\<open>json.Unmarshal\<close> takes exactly one document, and refuses a text in which another
  follows.
\<close>

fun frame_event :: "gval list \<Rightarrow> event option" where
  "frame_event [d] = (case Event_FromJSON d of Inl err \<Rightarrow> None | Inr e \<Rightarrow> Some e)"
| "frame_event _ = None"

datatype reader_choice = PollDone | PollDefault | ReadFails | ReadMessage | OfferSend | OfferDone | OfferFull
  | DropOldest | DropNothing | SendNow | Leave | CloseEvents

text \<open>
  One statement of a reader, which is at \<open>pc\<close>. Where a \<^verbatim>\<open>select\<close> has several ways to go, the choice names
  one. Reading can fail at any time.
\<close>

fun take_frame :: "stream_client \<Rightarrow> (gval list \<times> stream_client) option" where
  "take_frame sc = (case sc_conn sc of
     Some cn \<Rightarrow> (case (cn_open cn, cn_frames cn) of
        (True, f # fs) \<Rightarrow> Some (f, sc\<lparr>sc_conn := Some (cn\<lparr>cn_frames := fs\<rparr>)\<rparr>)
      | _ \<Rightarrow> None)
   | None \<Rightarrow> None)"

definition push_event :: "event \<Rightarrow> stream_client \<Rightarrow> (reader_pc \<times> stream_client) progress" where
  "push_event e sc = (if sc_eventsClosed sc then Crashes
     else if length (sc_events sc) < eventsCap then Goes (RdPoll, sc\<lparr>sc_events := sc_events sc @ [e]\<rparr>) else Waits)"

fun readLoop :: "reader_choice \<Rightarrow> reader_pc \<Rightarrow> stream_client \<Rightarrow> (reader_pc \<times> stream_client) progress" where
  "readLoop ch RdPoll sc = (case ch of
     PollDone \<Rightarrow> if sc_doneClosed sc then Goes (RdLeave, sc) else Waits
   | PollDefault \<Rightarrow> if sc_doneClosed sc then Waits else Goes (RdRead, sc)
   | _ \<Rightarrow> Waits)"
| "readLoop ch RdRead sc = (case ch of
     ReadFails \<Rightarrow> Goes (RdLeave, sc)
   | ReadMessage \<Rightarrow> (case take_frame sc of
         None \<Rightarrow> Waits
       | Some (f, sc) \<Rightarrow> Goes (case frame_event f of None \<Rightarrow> RdPoll | Some e \<Rightarrow> RdOffer e, sc))
   | _ \<Rightarrow> Waits)"
| "readLoop ch (RdOffer e) sc = (case ch of
     OfferSend \<Rightarrow> push_event e sc
   | OfferDone \<Rightarrow> if sc_doneClosed sc then Goes (RdLeave, sc) else Waits
   | OfferFull \<Rightarrow> if \<not> sc_eventsClosed sc \<and> \<not> sc_doneClosed sc \<and> eventsCap \<le> length (sc_events sc)
       then Goes (RdDrop e, sc) else Waits
   | _ \<Rightarrow> Waits)"
| "readLoop ch (RdDrop e) sc = (case (ch, sc_events sc) of
     (DropOldest, x # xs) \<Rightarrow> Goes (RdSend e, sc\<lparr>sc_events := xs\<rparr>)
   | (DropOldest, []) \<Rightarrow> if sc_eventsClosed sc then Goes (RdSend e, sc) else Waits
   | (DropNothing, []) \<Rightarrow> if sc_eventsClosed sc then Waits else Goes (RdSend e, sc)
   | _ \<Rightarrow> Waits)"
| "readLoop ch (RdSend e) sc = (if ch = SendNow then push_event e sc else Waits)"
| "readLoop ch RdLeave sc = (if ch = Leave then Goes (RdClose, sc\<lparr>sc_connected := False\<rparr>) else Waits)"
| "readLoop ch RdClose sc = (if ch \<noteq> CloseEvents then Waits
     else if sc_eventsClosed sc then Crashes else Goes (RdGone, sc\<lparr>sc_eventsClosed := True\<rparr>))"
| "readLoop ch RdGone sc = Waits"

lemmas readLoop_splits = if_splits list.splits option.splits bool.splits reader_choice.splits

definition reader_step :: "nat \<Rightarrow> reader_choice \<Rightarrow> stream_client \<Rightarrow> stream_client progress" where
  "reader_step i ch sc = (if i < length (sc_readers sc)
     then (case readLoop ch (sc_readers sc ! i) sc of
             Goes (pc, sc) \<Rightarrow> Goes (sc\<lparr>sc_readers := (sc_readers sc)[i := pc]\<rparr>) | Waits \<Rightarrow> Waits | Crashes \<Rightarrow> Crashes)
     else Waits)"

section \<open>The whole\<close>

text \<open>
  A frame arrives from the network, the consumer takes an event from the channel, a reader moves, or
  someone calls a method. Taking from a closed empty channel gives nil and changes nothing.
\<close>

datatype stream_action =
    Arrive "gval list"
  | Receive event
  | Reader nat reader_choice
  | CallClose "error option"
  | CallStreamSubscribe "error option" "string list"
  | CallStreamUnsubscribe "error option" "string list"

fun stream_step :: "stream_action \<Rightarrow> stream_client \<Rightarrow> stream_client progress" where
  "stream_step (Arrive f) sc = (case sc_conn sc of
     Some cn \<Rightarrow> if cn_open cn then Goes (sc\<lparr>sc_conn := Some (cn\<lparr>cn_frames := cn_frames cn @ [f]\<rparr>)\<rparr>) else Waits
   | None \<Rightarrow> Waits)"
| "stream_step (Receive e) sc = (case sc_events sc of
     x # xs \<Rightarrow> if x = e then Goes (sc\<lparr>sc_events := xs\<rparr>) else Waits
   | [] \<Rightarrow> Waits)"
| "stream_step (Reader i ch) sc = reader_step i ch sc"
| "stream_step (CallClose w) sc = Goes (fst (Close w sc))"
| "stream_step (CallStreamSubscribe w ts) sc = Goes (fst (stream_Subscribe w ts sc))"
| "stream_step (CallStreamUnsubscribe w ts) sc = Goes (fst (stream_Unsubscribe w ts sc))"

fun stream_steps :: "stream_action list \<Rightarrow> stream_client \<Rightarrow> stream_client progress" where
  "stream_steps [] sc = Goes sc"
| "stream_steps (a # as) sc = (case stream_step a sc of
     Goes sc \<Rightarrow> stream_steps as sc | Waits \<Rightarrow> Waits | Crashes \<Rightarrow> Crashes)"


section \<open>What the reader keeps\<close>

text \<open>
  The invariant of a client that was connected at most once. Its reader is the only one, closes the
  channel last, and finds room for the event in its hands once it has dropped the oldest.
\<close>

fun reader_ok :: "reader_pc \<Rightarrow> stream_client \<Rightarrow> bool" where
  "reader_ok RdGone sc = (sc_eventsClosed sc \<and> \<not> sc_connected sc)"
| "reader_ok RdClose sc = (\<not> sc_eventsClosed sc \<and> \<not> sc_connected sc)"
| "reader_ok (RdSend e) sc = (\<not> sc_eventsClosed sc \<and> sc_connected sc \<and> length (sc_events sc) < eventsCap)"
| "reader_ok pc sc = (\<not> sc_eventsClosed sc \<and> sc_connected sc)"

definition stream_inv :: "stream_client \<Rightarrow> bool" where
  "stream_inv sc \<longleftrightarrow> length (sc_events sc) \<le> eventsCap \<and>
     (sc_readers sc = [] \<and> \<not> sc_connected sc \<and> \<not> sc_eventsClosed sc \<or>
      (\<exists>pc. sc_readers sc = [pc] \<and> sc_conn sc \<noteq> None \<and> reader_ok pc sc))"

lemma stream_inv_new [simp]: "stream_inv (newWebSocketClient b k)"
  by (simp add: stream_inv_def newWebSocketClient_def)

lemma reader_ok_frame:
  assumes "sc_eventsClosed sc' = sc_eventsClosed sc" "sc_connected sc' = sc_connected sc"
    "length (sc_events sc') \<le> length (sc_events sc)"
  shows "reader_ok pc sc \<Longrightarrow> reader_ok pc sc'"
  using assms by (cases pc) auto

lemma stream_inv_connected:
  assumes "stream_inv sc"
  shows "sc_connected sc \<Longrightarrow> \<exists>pc. sc_readers sc = [pc]"
  using assms by (auto simp: stream_inv_def)

lemma stream_inv_reader: "stream_inv sc \<Longrightarrow> i < length (sc_readers sc) \<Longrightarrow> i = 0 \<and>
    (\<exists>pc. sc_readers sc = [pc] \<and> sc_conn sc \<noteq> None \<and> reader_ok pc sc)"
  by (auto simp: stream_inv_def)

lemma Connect_new_inv: "stream_inv (fst (Connect parse dial (newWebSocketClient b k)))"
  by (auto simp: Connect_def newWebSocketClient_def stream_inv_def split: sum.split)

lemma readLoop_inv:
  assumes "reader_ok pc sc" "sc_conn sc \<noteq> None" "length (sc_events sc) \<le> eventsCap"
    and "readLoop ch pc sc = Goes (pc', sc')"
  shows "reader_ok pc' sc' \<and> sc_conn sc' \<noteq> None \<and> length (sc_events sc') \<le> eventsCap"
  using assms
  by (cases pc)
    (auto simp: push_event_def eventsCap_def split: readLoop_splits)

lemma readLoop_no_crash: "reader_ok pc sc \<Longrightarrow> readLoop ch pc sc \<noteq> Crashes"
  by (cases pc)
    (auto simp: push_event_def split: readLoop_splits)

lemma readLoop_readers: "readLoop ch pc sc = Goes (pc', u) \<Longrightarrow> sc_readers u = sc_readers sc"
  by (cases pc) (auto simp: push_event_def split: readLoop_splits)

text \<open>A step of the one reader.\<close>

lemma reader_stepE:
  assumes "stream_inv sc" "reader_step i ch sc = Goes sc'"
  obtains pc pc' u where "sc_readers sc = [pc]" "sc_conn sc \<noteq> None" "reader_ok pc sc"
    "readLoop ch pc sc = Goes (pc', u)" "sc' = u\<lparr>sc_readers := [pc']\<rparr>"
proof -
  have i: "i < length (sc_readers sc)" using assms(2) by (auto simp: reader_step_def split: if_splits)
  from stream_inv_reader [OF assms(1) i] obtain pc where pc: "i = 0" "sc_readers sc = [pc]" "sc_conn sc \<noteq> None"
    "reader_ok pc sc" by blast
  then obtain pc' u where u: "readLoop ch pc sc = Goes (pc', u)" "sc' = u\<lparr>sc_readers := (sc_readers u)[i := pc']\<rparr>"
    using assms(2) by (auto simp: reader_step_def split: progress.splits)
  moreover have "(sc_readers u)[i := pc'] = [pc']" using readLoop_readers [OF u(1)] pc(1,2) by simp
  ultimately show ?thesis using pc that by simp
qed

lemma stream_step_inv:
  assumes "stream_inv sc" "stream_step a sc = Goes sc'"
  shows "stream_inv sc'"
proof (cases a)
  case (Reader i ch)
  then have "reader_step i ch sc = Goes sc'" using assms(2) by simp
  from reader_stepE [OF assms(1) this] obtain pc pc' u where pc: "sc_readers sc = [pc]" "sc_conn sc \<noteq> None"
    "reader_ok pc sc" and u: "readLoop ch pc sc = Goes (pc', u)" "sc' = u\<lparr>sc_readers := [pc']\<rparr>" .
  have "reader_ok pc' u \<and> sc_conn u \<noteq> None \<and> length (sc_events u) \<le> eventsCap"
    by (rule readLoop_inv [OF pc(3,2) _ u(1)]) (use assms(1) in \<open>simp add: stream_inv_def\<close>)
  then show ?thesis using u(2) reader_ok_frame [of sc' u pc'] by (auto simp: stream_inv_def)
next
  case (Receive e)
  then obtain xs where "sc_events sc = e # xs" "sc' = sc\<lparr>sc_events := xs\<rparr>"
    using assms(2) by (auto split: list.splits if_splits)
  then show ?thesis using assms(1) reader_ok_frame [of sc' sc] by (auto simp: stream_inv_def)
qed (use assms reader_ok_frame [of sc' sc] in
    \<open>auto simp: stream_inv_def Close_def Let_def write_JSON_def stream_Subscribe_def stream_Unsubscribe_def
      split: option.splits if_splits bool.splits\<close>)

lemma stream_step_no_crash: "stream_inv sc \<Longrightarrow> stream_step a sc \<noteq> Crashes"
proof (cases a)
  case (Reader i ch)
  then show "stream_inv sc \<Longrightarrow> ?thesis"
    using stream_inv_reader [of sc i] readLoop_no_crash
    by (auto simp: reader_step_def split: progress.splits)
qed (auto split: option.splits list.splits)


text \<open>
  A client that connects once, and what may happen to it afterwards.
\<close>

definition connected_client :: "(string \<Rightarrow> url res) \<Rightarrow> (url \<Rightarrow> (string \<times> string) list \<Rightarrow> unit res) \<Rightarrow> string \<Rightarrow> string \<Rightarrow>
    stream_client" where
  "connected_client parse dial b k = fst (Connect parse dial (newWebSocketClient b k))"

lemma stream_steps_inv: "stream_inv sc \<Longrightarrow> stream_steps as sc = Goes sc' \<Longrightarrow> stream_inv sc'"
  by (induction as arbitrary: sc) (auto split: progress.splits intro: stream_step_inv)

lemma stream_steps_no_crash: "stream_inv sc \<Longrightarrow> stream_steps as sc \<noteq> Crashes"
  by (induction as arbitrary: sc) (auto split: progress.splits simp: stream_step_no_crash dest: stream_step_inv)

text \<open>Between its waits for the network the reader always has a way to go.\<close>

lemma readLoop_goes:
  assumes "reader_ok pc sc" "pc \<noteq> RdRead" "pc \<noteq> RdGone"
  shows "\<exists>ch r. readLoop ch pc sc = Goes r"
proof (cases pc)
  case RdPoll
  then show ?thesis
    by (cases "sc_doneClosed sc") (auto intro: exI [of _ PollDone] exI [of _ PollDefault])
next
  case (RdOffer e)
  show ?thesis
  proof (cases "length (sc_events sc) < eventsCap")
    case True
    then show ?thesis using RdOffer assms(1) by (auto simp: push_event_def intro: exI [of _ OfferSend])
  next
    case False
    then show ?thesis using RdOffer assms(1)
      by (cases "sc_doneClosed sc") (auto intro: exI [of _ OfferDone] exI [of _ OfferFull])
  qed
next
  case (RdDrop e)
  then show ?thesis using assms(1)
    by (cases "sc_events sc") (auto intro: exI [of _ DropOldest] exI [of _ DropNothing])
next
  case (RdSend e)
  then show ?thesis using assms(1) by (auto simp: push_event_def intro: exI [of _ SendNow])
next
  case RdLeave
  then show ?thesis by (auto intro: exI [of _ Leave])
next
  case RdClose
  then show ?thesis using assms(1) by (auto intro: exI [of _ CloseEvents])
qed (use assms in auto)

lemma stream_inv_bound: "stream_inv sc \<Longrightarrow> length (sc_events sc) \<le> 100"
  by (simp add: stream_inv_def eventsCap_def)

lemma stream_inv_reader_goes:
  assumes "stream_inv sc" "i < length (sc_readers sc)"
  shows "sc_readers sc ! i \<in> {RdRead, RdGone} \<or> (\<exists>ch sc'. reader_step i ch sc = Goes sc')"
proof (cases "sc_readers sc ! i \<in> {RdRead, RdGone}")
  case False
  then have "\<exists>ch r. readLoop ch (sc_readers sc ! i) sc = Goes r"
    by (intro readLoop_goes) (use stream_inv_reader [OF assms] in auto)
  then obtain ch r where "readLoop ch (sc_readers sc ! i) sc = Goes r" by blast
  then show ?thesis using assms(2) by (cases r) (auto simp: reader_step_def intro!: exI [of _ ch])
qed simp

text \<open>A client to which three frames arrive, the second of two documents.\<close>

definition plain_dial :: "url \<Rightarrow> (string \<times> string) list \<Rightarrow> unit res" where
  "plain_dial u hs = Inr ()"

definition plain_parse :: "string \<Rightarrow> url res" where
  "plain_parse s = Inr \<lparr>url_Scheme = ''http'', url_Rest = s, url_Path = ''''\<rparr>"

definition numbered :: "nat \<Rightarrow> event" where
  "numbered n = \<lparr>ev_type = ''queue.depth'', ev_timestamp = 0, ev_data = Some [(''n'', GNum (of_nat n))]\<rparr>"

definition take_in :: "nat \<Rightarrow> stream_action list" where
  "take_in n = [Arrive [event_doc (numbered n)], Reader 0 PollDefault, Reader 0 ReadMessage, Reader 0 OfferSend]"

definition three_frames :: "stream_action list" where
  "three_frames = take_in 1 @ [Arrive [event_doc (numbered 2), event_doc (numbered 3)], Reader 0 PollDefault,
     Reader 0 ReadMessage] @ take_in 4 @ [Receive (numbered 1)]"

lemma three_frames_run:
  "(case stream_steps three_frames (connected_client plain_parse plain_dial ''localhost:8080'' '''') of
      Goes sc \<Rightarrow> sc_events sc = [numbered 4] \<and> sc_readers sc = [RdPoll] \<and> \<not> sc_once sc \<and> \<not> sc_eventsClosed sc | _ \<Rightarrow> False)"
  by code_simp

section \<open>Order and completeness\<close>

text \<open>The events that are on their way to the consumer, oldest first.\<close>

fun in_hand :: "reader_pc \<Rightarrow> event list" where
  "in_hand (RdOffer e) = [e]"
| "in_hand (RdDrop e) = [e]"
| "in_hand (RdSend e) = [e]"
| "in_hand _ = []"

definition decoded :: "gval list list \<Rightarrow> event list" where
  "decoded fs = concat (map (\<lambda>f. case frame_event f of None \<Rightarrow> [] | Some e \<Rightarrow> [e]) fs)"

definition under_way :: "stream_client \<Rightarrow> event list" where
  "under_way sc = sc_events sc @ concat (map in_hand (sc_readers sc)) @
     (case sc_conn sc of None \<Rightarrow> [] | Some cn \<Rightarrow> decoded (cn_frames cn))"

fun arrivals :: "stream_action list \<Rightarrow> gval list list" where
  "arrivals [] = []"
| "arrivals (Arrive f # as) = f # arrivals as"
| "arrivals (_ # as) = arrivals as"

fun received :: "stream_action list \<Rightarrow> event list" where
  "received [] = []"
| "received (Receive e # as) = e # received as"
| "received (_ # as) = received as"

text \<open>The actions that lose an event: the channel is full, or the reader gives up.\<close>

fun losing :: "stream_action \<Rightarrow> bool" where
  "losing (Reader i OfferFull) = True"
| "losing (Reader i OfferDone) = True"
| "losing _ = False"

lemma decoded_simps [simp]:
  "decoded [] = []" "decoded (f # fs) = (case frame_event f of None \<Rightarrow> [] | Some e \<Rightarrow> [e]) @ decoded fs"
  "decoded (fs @ gs) = decoded fs @ decoded gs"
  by (simp_all add: decoded_def)

lemma subseq_drop_mid: "subseq (xs @ zs) (xs @ ys @ zs)" "subseq (xs @ zs) (xs @ y # zs)"
  by (simp_all add: subseq_append' list_emb_append2 list_emb_Cons)

lemma readLoop_under_way:
  assumes "readLoop ch pc sc = Goes (pc', u)" "sc_readers sc = [pc]"
  shows "subseq (under_way (u\<lparr>sc_readers := [pc']\<rparr>)) (under_way sc) \<and>
    (\<not> losing (Reader i ch) \<and> (\<forall>e. pc \<noteq> RdDrop e) \<longrightarrow> under_way (u\<lparr>sc_readers := [pc']\<rparr>) = under_way sc)"
  using assms
  by (cases pc)
    (auto simp: push_event_def under_way_def subseq_drop_mid
      split: readLoop_splits)


definition dropping :: "stream_client \<Rightarrow> bool" where
  "dropping sc \<longleftrightarrow> (\<exists>e. RdDrop e \<in> set (sc_readers sc))"

lemma readLoop_dropping:
  "readLoop ch pc sc = Goes (pc', u) \<Longrightarrow> pc' = RdDrop e \<Longrightarrow> ch = OfferFull"
  by (cases pc)
    (auto simp: push_event_def split: readLoop_splits)

lemma step_under_way:
  assumes "stream_inv sc" "stream_step a sc = Goes sc'"
  shows "subseq (received [a] @ under_way sc') (under_way sc @ decoded (arrivals [a]))"
    "\<not> losing a \<Longrightarrow> \<not> dropping sc \<Longrightarrow>
       received [a] @ under_way sc' = under_way sc @ decoded (arrivals [a]) \<and> \<not> dropping sc'"
proof -
  have "subseq (received [a] @ under_way sc') (under_way sc @ decoded (arrivals [a])) \<and>
    (\<not> losing a \<and> \<not> dropping sc \<longrightarrow>
       received [a] @ under_way sc' = under_way sc @ decoded (arrivals [a]) \<and> \<not> dropping sc')"
  proof (cases a)
    case (Reader i ch)
    then have "reader_step i ch sc = Goes sc'" using assms(2) by simp
    from reader_stepE [OF assms(1) this] obtain pc pc' u where pc: "sc_readers sc = [pc]"
      and u: "readLoop ch pc sc = Goes (pc', u)" "sc' = u\<lparr>sc_readers := [pc']\<rparr>" .
    have "\<not> losing a \<Longrightarrow> \<not> dropping sc'"
      using readLoop_dropping [OF u(1)] Reader u(2) by (auto simp: dropping_def)
    moreover have "\<not> dropping sc \<Longrightarrow> pc \<noteq> RdDrop e" for e using pc by (auto simp: dropping_def)
    ultimately show ?thesis
      using readLoop_under_way [OF u(1) pc, of i] Reader u(2) by (simp add: dropping_def)
  next
    case (Receive e)
    then obtain xs where "sc_events sc = e # xs" "sc' = sc\<lparr>sc_events := xs\<rparr>"
      using assms(2) by (auto split: list.splits if_splits)
    then show ?thesis using Receive by (simp add: under_way_def dropping_def)
  qed (use assms(2) in \<open>auto simp: under_way_def dropping_def Close_def Let_def write_JSON_def stream_Subscribe_def
      stream_Unsubscribe_def split: option.splits if_splits bool.splits\<close>)
  then show "subseq (received [a] @ under_way sc') (under_way sc @ decoded (arrivals [a]))"
    and "\<not> losing a \<Longrightarrow> \<not> dropping sc \<Longrightarrow>
       received [a] @ under_way sc' = under_way sc @ decoded (arrivals [a]) \<and> \<not> dropping sc'" by blast+
qed

lemma received_Cons: "received (a # as) = received [a] @ received as"
  by (cases a) simp_all

lemma arrivals_Cons: "arrivals (a # as) = arrivals [a] @ arrivals as"
  by (cases a) simp_all

lemma steps_under_way:
  assumes "stream_inv sc" "stream_steps as sc = Goes sc'"
  shows "subseq (received as @ under_way sc') (under_way sc @ decoded (arrivals as))"
    "\<forall>a \<in> set as. \<not> losing a \<Longrightarrow> \<not> dropping sc \<Longrightarrow>
       received as @ under_way sc' = under_way sc @ decoded (arrivals as)"
  using assms
proof (induction as arbitrary: sc)
  case (Cons a as)
  case 1
  then obtain u where u: "stream_step a sc = Goes u" "stream_steps as u = Goes sc'" by (auto split: progress.splits)
  from Cons.IH(1) [OF stream_step_inv [OF 1(1) u(1)] u(2)]
  have "subseq (received [a] @ received as @ under_way sc') (received [a] @ under_way u @ decoded (arrivals as))"
    by (simp add: subseq_append')
  also have "subseq (received [a] @ under_way u @ decoded (arrivals as))
      (under_way sc @ decoded (arrivals [a]) @ decoded (arrivals as))"
    using step_under_way(1) [OF 1(1) u(1)] list_emb_append_mono [of "(=)" _ _ "decoded (arrivals as)"] by fastforce
  finally show ?case by (subst received_Cons, subst arrivals_Cons) simp
next
  case (Cons a as)
  case 2
  then obtain u where u: "stream_step a sc = Goes u" "stream_steps as u = Goes sc'" by (auto split: progress.splits)
  have "received [a] @ under_way u = under_way sc @ decoded (arrivals [a]) \<and> \<not> dropping u"
    using step_under_way(2) [OF 2(3) u(1)] 2 by simp
  moreover have "received as @ under_way sc' = under_way u @ decoded (arrivals as)" if "\<not> dropping u"
    using Cons.IH(2) [OF _ that stream_step_inv [OF 2(3) u(1)] u(2)] 2 by simp
  ultimately show ?case by (subst received_Cons, subst arrivals_Cons) simp
qed (simp_all)



section \<open>Closing ends the reader\<close>

fun reader_steps_left :: "reader_pc \<Rightarrow> nat" where
  "reader_steps_left RdGone = 0"
| "reader_steps_left RdClose = 1"
| "reader_steps_left RdLeave = 2"
| "reader_steps_left RdRead = 3"
| "reader_steps_left RdPoll = 3"
| "reader_steps_left (RdSend e) = 4"
| "reader_steps_left (RdDrop e) = 5"
| "reader_steps_left (RdOffer e) = 6"

lemma reader_steps_left_le: "reader_steps_left pc \<le> 6"
  by (cases pc) simp_all

definition shut :: "stream_client \<Rightarrow> bool" where
  "shut sc \<longleftrightarrow> sc_once sc \<and> sc_doneClosed sc \<and> (case sc_conn sc of None \<Rightarrow> True | Some cn \<Rightarrow> \<not> cn_open cn)"

lemma readLoop_shut:
  assumes "shut sc" "readLoop ch pc sc = Goes (pc', u)"
  shows "shut u \<and> reader_steps_left pc' < reader_steps_left pc \<and> sc_readers u = sc_readers sc"
  using assms
  by (cases pc)
    (auto simp: push_event_def shut_def split: readLoop_splits)

lemma Close_shut: "\<not> sc_once sc \<Longrightarrow> shut (fst (Close w sc))"
  by (auto simp: Close_def shut_def Let_def split: option.split)

text \<open>What the reader of a closed client can still do, as a number that its steps lower.\<close>

lemma reader_step_shut:
  assumes "stream_inv sc" "shut sc" "reader_step i ch sc = Goes sc'"
  shows "shut sc' \<and> sum_list (map reader_steps_left (sc_readers sc')) < sum_list (map reader_steps_left (sc_readers sc))"
proof -
  from reader_stepE [OF assms(1,3)] obtain pc pc' u where "sc_readers sc = [pc]"
    "readLoop ch pc sc = Goes (pc', u)" "sc' = u\<lparr>sc_readers := [pc']\<rparr>" .
  then show ?thesis using readLoop_shut [OF assms(2)] by (auto simp: shut_def)
qed


fun of_reader :: "stream_action \<Rightarrow> bool" where
  "of_reader (Reader i ch) = True"
| "of_reader _ = False"

lemma shut_step:
  assumes "stream_inv sc" "shut sc" "stream_step a sc = Goes sc'"
  shows "shut sc' \<and> sum_list (map reader_steps_left (sc_readers sc')) + (if of_reader a then 1 else 0)
    \<le> sum_list (map reader_steps_left (sc_readers sc))"
proof (cases a)
  case (Reader i ch)
  then show ?thesis using reader_step_shut [OF assms(1,2)] assms(3) by fastforce
qed (use assms(2,3) in \<open>auto simp: shut_def Close_def write_JSON_def stream_Subscribe_def stream_Unsubscribe_def
    split: option.splits if_splits bool.splits list.splits\<close>)

lemma shut_steps:
  assumes "stream_inv sc" "shut sc" "stream_steps as sc = Goes sc'"
  shows "length (filter of_reader as) \<le> sum_list (map reader_steps_left (sc_readers sc))"
  using assms
proof (induction as arbitrary: sc)
  case (Cons a as)
  then obtain u where u: "stream_step a sc = Goes u" "stream_steps as u = Goes sc'" by (auto split: progress.splits)
  from Cons.IH [OF stream_step_inv [OF Cons.prems(1) u(1)] _ u(2)] shut_step [OF Cons.prems(1,2) u(1)]
  show ?case by auto
qed simp

text \<open>
  C26: Closing a client ends its reader: after the first call of Close the reader takes at most six more
  steps, whatever else happens, and when it can take none it has returned and closed the channel, so
  that a consumer that ranges over the events stops too.
\<close>

theorem close_ends_reader:
  assumes "stream_steps as (connected_client parse dial b k) = Goes sc" "\<not> sc_once sc"
    and "stream_steps (CallClose w # bs) sc = Goes sc'"
  shows "length (filter of_reader bs) \<le> 6 \<and>
    ((\<forall>i ch u. reader_step i ch sc' \<noteq> Goes u) \<longrightarrow>
       (\<forall>pc \<in> set (sc_readers sc'). pc = RdGone \<and> sc_eventsClosed sc' \<and> \<not> sc_connected sc'))"
proof -
  have inv: "stream_inv sc"
    by (rule stream_steps_inv [OF _ assms(1)]) (simp add: connected_client_def Connect_new_inv)
  let ?c = "fst (Close w sc)"
  have c: "stream_inv ?c" "shut ?c" "stream_steps bs ?c = Goes sc'"
    using stream_step_inv [OF inv, of "CallClose w"] Close_shut [OF assms(2)] assms(3) by simp_all
  have "sum_list (map reader_steps_left (sc_readers ?c)) \<le> 6"
    using c(1) reader_steps_left_le by (auto simp: stream_inv_def)
  then have "length (filter of_reader bs) \<le> 6" using shut_steps [OF c] by linarith
  moreover have "pc = RdGone \<and> sc_eventsClosed sc' \<and> \<not> sc_connected sc'"
    if stuck: "\<forall>i ch u. reader_step i ch sc' \<noteq> Goes u" and pc: "pc \<in> set (sc_readers sc')" for pc
  proof -
    have inv': "stream_inv sc'" by (rule stream_steps_inv [OF c(1,3)])
    then have pc': "sc_readers sc' = [pc]" "reader_ok pc sc'" using pc by (auto simp: stream_inv_def)
    have "readLoop ch pc sc' \<noteq> Goes r" for ch r
    proof
      assume "readLoop ch pc sc' = Goes r"
      then show False using stuck [rule_format, of 0 ch] pc'(1) by (cases r) (auto simp: reader_step_def)
    qed
    moreover have "\<exists>r. readLoop ReadFails RdRead sc' = Goes r" by simp
    ultimately have "pc = RdGone" using readLoop_goes [OF pc'(2)] by metis
    then show ?thesis using pc'(2) by simp
  qed
  ultimately show ?thesis by blast
qed

theorem close_ends_reader_witness:
  "\<exists>sc sc'. stream_steps three_frames (connected_client plain_parse plain_dial ''localhost:8080'' '''') = Goes sc \<and>
     stream_steps [CallClose None, Reader 0 PollDone, Reader 0 Leave, Reader 0 CloseEvents] sc = Goes sc' \<and>
     sc_readers sc' = [RdGone] \<and> sc_eventsClosed sc'"
proof -
  obtain sc where sc: "stream_steps three_frames (connected_client plain_parse plain_dial ''localhost:8080'' '''') = Goes sc"
    "\<not> sc_once sc" "sc_readers sc = [RdPoll]" "\<not> sc_eventsClosed sc"
    using three_frames_run by (auto split: progress.splits)
  obtain sc' where sc': "stream_steps [CallClose None, Reader 0 PollDone, Reader 0 Leave, Reader 0 CloseEvents] sc = Goes sc'"
    "sc_readers sc' = [RdGone]"
    using sc(2-) by (cases "sc_conn sc") (auto simp: Close_def reader_step_def)
  moreover have "reader_step i ch sc' \<noteq> Goes u" for i ch u using sc'(2) by (auto simp: reader_step_def)
  ultimately show ?thesis using sc close_ends_reader [OF sc(1,2) sc'(1)] by fastforce
qed

end
