(* ===== verification/ClientLib.thy ===== *)
theory ClientLib
  imports ApiClient WsClient "HOL-Library.AList"
begin

text \<open>
  \<^verbatim>\<open>pkg/client/client.go\<close> and \<^verbatim>\<open>options.go\<close>: the client a program uses, made of the generated client,
  its options and the websocket clients it has made.
\<close>

section \<open>Options\<close>

text \<open>
  The headers are a map, an association list here. An HTTP client given by the caller is changed by
  \<^verbatim>\<open>client_WithTimeout\<close> through its pointer; what else the caller does with it is outside the model.
\<close>

record client_options =
  op_apiKey :: string
  op_httpClient :: "http_client option"
  op_timeout :: int
  op_headers :: "(string \<times> string) list"

type_synonym lib_option = "client_options \<Rightarrow> client_options"

definition defaultOptions :: client_options where
  "defaultOptions = \<lparr>op_apiKey = '''', op_httpClient = Some \<lparr>ht_Timeout = 30 * Second\<rparr>, op_timeout = 30 * Second,
     op_headers = []\<rparr>"

definition WithAPIKey :: "string \<Rightarrow> lib_option" where
  "WithAPIKey key o' = o'\<lparr>op_apiKey := key\<rparr>"

definition WithHTTPClientOpt :: "http_client option \<Rightarrow> lib_option" where
  "WithHTTPClientOpt cl o' = o'\<lparr>op_httpClient := cl\<rparr>"

definition client_WithTimeout :: "int \<Rightarrow> lib_option" where
  "client_WithTimeout d o' = (let o' = o'\<lparr>op_timeout := d\<rparr> in
     case op_httpClient o' of None \<Rightarrow> o' | Some h \<Rightarrow> o'\<lparr>op_httpClient := Some (h\<lparr>ht_Timeout := d\<rparr>)\<rparr>)"

definition WithHeader :: "string \<Rightarrow> string \<Rightarrow> lib_option" where
  "WithHeader key value o' = o'\<lparr>op_headers := AList.update key value (op_headers o')\<rparr>"

text \<open>
  \<^verbatim>\<open>Header.Set\<close> first brings its key into the canonical form: a capital at the start and after each
  hyphen, small letters elsewhere; a key with a byte that no token has stays as it is.
\<close>

definition in_range :: "nat \<Rightarrow> nat \<Rightarrow> char \<Rightarrow> bool" where
  "in_range lo hi c \<longleftrightarrow> lo \<le> of_char c \<and> of_char c \<le> hi"

definition is_upper :: "char \<Rightarrow> bool" where "is_upper = in_range 65 90"
definition is_lower :: "char \<Rightarrow> bool" where "is_lower = in_range 97 122"

definition is_token :: "char \<Rightarrow> bool" where
  "is_token c \<longleftrightarrow> is_upper c \<or> is_lower c \<or> in_range 48 57 c \<or> c \<in> set ''!#$%&*+-.^_`|~'' \<or> c = CHR 0x27"

fun canonical_from :: "bool \<Rightarrow> string \<Rightarrow> string" where
  "canonical_from upper [] = []"
| "canonical_from upper (c # cs) =
     (if upper \<and> is_lower c then char_of (of_char c - (32 :: nat))
      else if \<not> upper \<and> is_upper c then char_of (of_char c + (32 :: nat)) else c)
     # canonical_from (c = CHR ''-'') cs"

definition CanonicalHeaderKey :: "string \<Rightarrow> string" where
  "CanonicalHeaderKey k = (if list_all is_token k then canonical_from True k else k)"

definition Header_Set :: "string \<Rightarrow> string \<Rightarrow> http_request \<Rightarrow> http_request" where
  "Header_Set k v req = set_header (CanonicalHeaderKey k) v req"

definition applyHeaders :: "client_options \<Rightarrow> request_editor" where
  "applyHeaders o' req =
     (let req = (if op_apiKey o' \<noteq> '''' then Header_Set ''Authorization'' (''Bearer '' @ op_apiKey o') req else req)
      in Inr (fold (\<lambda>(k, v). Header_Set k v) (op_headers o') req))"

section \<open>The client\<close>

text \<open>
  The websocket clients made so far are kept in a list, and \<open>tq_ws\<close> points to the current one.
\<close>

record task_queue_client =
  tq_gen :: api_client
  tq_baseURL :: string
  tq_opts :: client_options
  tq_ws :: "nat option"
  tq_streams :: "stream_client list"

definition trim_slash :: "string \<Rightarrow> string" where
  "trim_slash s = (if s \<noteq> [] \<and> last s = CHR ''/'' then butlast s else s)"

definition client_New :: "string \<Rightarrow> lib_option list \<Rightarrow> task_queue_client res" where
  "client_New baseURL opts =
     (let baseURL = trim_slash baseURL; o' = fold (\<lambda>opt. opt) opts defaultOptions in
      case gen_NewClient baseURL [WithHTTPClient (op_httpClient o'), WithRequestEditorFn (applyHeaders o')] of
        Inl err \<Rightarrow> Inl (Wrapf ''failed to create client'' err)
      | Inr gen \<Rightarrow> Inr \<lparr>tq_gen = gen, tq_baseURL = baseURL, tq_opts = o', tq_ws = None, tq_streams = []\<rparr>)"

definition safeString :: "string option \<Rightarrow> string" where
  "safeString s = (case s of None \<Rightarrow> '''' | Some t \<Rightarrow> t)"

definition failed :: "string \<Rightarrow> error_response \<Rightarrow> error" where
  "failed what e = Errorf (what @ '': '' @ safeString (er_Message e))"

definition unexpected :: "'a api_response \<Rightarrow> error" where
  "unexpected resp = Errorf (''unexpected status: '' @ int_text (StatusCode resp))"

text \<open>The methods; an operation is called without further editors.\<close>

definition SubmitTask :: "'s net \<Rightarrow> task_queue_client \<Rightarrow> client_request \<Rightarrow> ('s, client_task res) io" where
  "SubmitTask N c req = do {
     r \<leftarrow> CreateTaskWithResponse N (tq_gen c) req [];
     ret (case r of Inl err \<Rightarrow> Inl err | Inr resp \<Rightarrow>
       (case JSON 201 resp of Some t \<Rightarrow> Inr t | None \<Rightarrow>
       (case JSONError 400 resp of Some e \<Rightarrow> Inl (failed ''bad request'' e) | None \<Rightarrow>
       (case JSONError 429 resp of Some e \<Rightarrow> Inl (failed ''rate limited'' e) | None \<Rightarrow>
       (case JSONError 503 resp of Some e \<Rightarrow> Inl (failed ''service unavailable'' e) | None \<Rightarrow>
        Inl (unexpected resp))))))
   }"

definition GetTaskByID :: "'s net \<Rightarrow> task_queue_client \<Rightarrow> string \<Rightarrow> ('s, client_task res) io" where
  "GetTaskByID N c taskID = (case nt_ParseUUID N taskID of
     Inl err \<Rightarrow> ret (Inl (Wrapf ''invalid task ID'' err))
   | Inr id' \<Rightarrow> do {
       r \<leftarrow> GetTaskWithResponse N (tq_gen c) id' [];
       ret (case r of Inl err \<Rightarrow> Inl err | Inr resp \<Rightarrow>
         (case JSON 200 resp of Some t \<Rightarrow> Inr t | None \<Rightarrow>
         (case JSONError 404 resp of Some e \<Rightarrow> Inl (failed ''task not found'' e) | None \<Rightarrow>
          Inl (unexpected resp))))
     })"

definition CancelTaskByID :: "'s net \<Rightarrow> task_queue_client \<Rightarrow> string \<Rightarrow> ('s, client_task res) io" where
  "CancelTaskByID N c taskID = (case nt_ParseUUID N taskID of
     Inl err \<Rightarrow> ret (Inl (Wrapf ''invalid task ID'' err))
   | Inr id' \<Rightarrow> do {
       r \<leftarrow> CancelTaskWithResponse N (tq_gen c) id' [];
       ret (case r of Inl err \<Rightarrow> Inl err | Inr resp \<Rightarrow>
         (case JSON 200 resp of Some t \<Rightarrow> Inr t | None \<Rightarrow>
         (case JSONError 404 resp of Some e \<Rightarrow> Inl (failed ''task not found'' e) | None \<Rightarrow>
         (case JSONError 409 resp of Some e \<Rightarrow> Inl (failed ''cannot cancel task'' e) | None \<Rightarrow>
          Inl (unexpected resp)))))
     })"

definition GetQueueStatistics :: "'s net \<Rightarrow> task_queue_client \<Rightarrow> ('s, client_stats res) io" where
  "GetQueueStatistics N c = do {
     r \<leftarrow> ListTasksWithResponse N (tq_gen c) [];
     ret (case r of Inl err \<Rightarrow> Inl err | Inr resp \<Rightarrow>
       (case JSON 200 resp of Some d \<Rightarrow> Inr d | None \<Rightarrow> Inl (unexpected resp)))
   }"

definition CheckHealth :: "'s net \<Rightarrow> task_queue_client \<Rightarrow> ('s, health_response res) io" where
  "CheckHealth N c = do {
     r \<leftarrow> HealthCheckWithResponse N (tq_gen c) [];
     ret (case r of Inl err \<Rightarrow> Inl err | Inr resp \<Rightarrow>
       (case JSON 200 resp of Some d \<Rightarrow> Inr d | None \<Rightarrow>
       (case JSON 503 resp of Some d \<Rightarrow> Inr d | None \<Rightarrow> Inl (unexpected resp))))
   }"

definition ListAllWorkers :: "'s net \<Rightarrow> task_queue_client \<Rightarrow> ('s, worker_list res) io" where
  "ListAllWorkers N c = do {
     r \<leftarrow> ListWorkersWithResponse N (tq_gen c) [];
     ret (case r of Inl err \<Rightarrow> Inl err | Inr resp \<Rightarrow>
       (case JSON 200 resp of Some d \<Rightarrow> Inr d | None \<Rightarrow> Inl (unexpected resp)))
   }"

definition PauseWorkerByID :: "'s net \<Rightarrow> task_queue_client \<Rightarrow> string \<Rightarrow> ('s, error option) io" where
  "PauseWorkerByID N c workerID = do {
     r \<leftarrow> PauseWorkerWithResponse N (tq_gen c) workerID [];
     ret (case r of Inl err \<Rightarrow> Some err | Inr resp \<Rightarrow>
       (case JSON 200 resp of Some _ \<Rightarrow> None | None \<Rightarrow>
       (case JSONError 404 resp of Some e \<Rightarrow> Some (failed ''worker not found'' e) | None \<Rightarrow> Some (unexpected resp))))
   }"

definition ResumeWorkerByID :: "'s net \<Rightarrow> task_queue_client \<Rightarrow> string \<Rightarrow> ('s, error option) io" where
  "ResumeWorkerByID N c workerID = do {
     r \<leftarrow> ResumeWorkerWithResponse N (tq_gen c) workerID [];
     ret (case r of Inl err \<Rightarrow> Some err | Inr resp \<Rightarrow>
       (case JSON 200 resp of Some _ \<Rightarrow> None | None \<Rightarrow>
       (case JSONError 404 resp of Some e \<Rightarrow> Some (failed ''worker not found'' e) | None \<Rightarrow> Some (unexpected resp))))
   }"

definition GetDLQEntries :: "'s net \<Rightarrow> task_queue_client \<Rightarrow> ('s, dlq_list res) io" where
  "GetDLQEntries N c = do {
     r \<leftarrow> ListDLQWithResponse N (tq_gen c) [];
     ret (case r of Inl err \<Rightarrow> Inl err | Inr resp \<Rightarrow>
       (case JSON 200 resp of Some d \<Rightarrow> Inr d | None \<Rightarrow> Inl (unexpected resp)))
   }"

definition RetryDLQTask :: "'s net \<Rightarrow> task_queue_client \<Rightarrow> string \<Rightarrow> ('s, error option) io" where
  "RetryDLQTask N c taskID = do {
     r \<leftarrow> RetryDLQWithResponse N (tq_gen c) \<lparr>dq_MessageId = None, dq_RetryAll = None, dq_TaskId = Some taskID\<rparr> [];
     ret (case r of Inl err \<Rightarrow> Some err | Inr resp \<Rightarrow>
       if StatusCode resp = 200 then None
       else (case JSONError 404 resp of Some e \<Rightarrow> Some (failed ''task not found in DLQ'' e) | None \<Rightarrow>
            (case JSONError 400 resp of Some e \<Rightarrow> Some (failed ''bad request'' e) | None \<Rightarrow> Some (unexpected resp))))
   }"

text \<open>The count is 0 in every case; the body of a response read to its end is never nil.\<close>

definition RetryAllDLQTasks :: "'s net \<Rightarrow> task_queue_client \<Rightarrow> ('s, int \<times> error option) io" where
  "RetryAllDLQTasks N c = do {
     r \<leftarrow> RetryDLQWithResponse N (tq_gen c) \<lparr>dq_MessageId = None, dq_RetryAll = Some True, dq_TaskId = None\<rparr> [];
     ret (case r of Inl err \<Rightarrow> (0, Some err) | Inr resp \<Rightarrow>
       if StatusCode resp = 200 then (0, None)
       else (case JSONError 400 resp of Some e \<Rightarrow> (0, Some (failed ''bad request'' e)) | None \<Rightarrow>
             (0, Some (unexpected resp))))
   }"

definition ClearDLQAll :: "'s net \<Rightarrow> task_queue_client \<Rightarrow> ('s, error option) io" where
  "ClearDLQAll N c = do {
     r \<leftarrow> ClearDLQWithResponse N (tq_gen c) [];
     ret (case r of Inl err \<Rightarrow> Some err | Inr resp \<Rightarrow>
       (case JSON 200 resp of Some _ \<Rightarrow> None | None \<Rightarrow> Some (unexpected resp)))
   }"

section \<open>The websocket client\<close>

definition current_stream :: "task_queue_client \<Rightarrow> stream_client option" where
  "current_stream c = (case tq_ws c of None \<Rightarrow> None | Some i \<Rightarrow> Some (tq_streams c ! i))"

definition on_stream :: "nat \<Rightarrow> stream_client \<Rightarrow> task_queue_client \<Rightarrow> task_queue_client" where
  "on_stream i sc c = c\<lparr>tq_streams := (tq_streams c)[i := sc]\<rparr>"

definition ConnectWebSocket :: "(string \<Rightarrow> url res) \<Rightarrow> (url \<Rightarrow> (string \<times> string) list \<Rightarrow> unit res) \<Rightarrow>
    task_queue_client \<Rightarrow> task_queue_client \<times> error option" where
  "ConnectWebSocket parse dial c =
     (if (case current_stream c of None \<Rightarrow> False | Some sc \<Rightarrow> IsConnected sc) then (c, None)
      else
        let (sc, err) = Connect parse dial (newWebSocketClient (tq_baseURL c) (op_apiKey (tq_opts c))) in
        (c\<lparr>tq_ws := Some (length (tq_streams c)), tq_streams := tq_streams c @ [sc]\<rparr>, err))"

text \<open>The channel of events: a closed one without events when there is no websocket client.\<close>

definition client_Events :: "task_queue_client \<Rightarrow> event list \<times> bool" where
  "client_Events c = (case current_stream c of None \<Rightarrow> ([], True) | Some sc \<Rightarrow> (sc_events sc, sc_eventsClosed sc))"

definition CloseWebSocket :: "error option \<Rightarrow> task_queue_client \<Rightarrow> task_queue_client \<times> error option" where
  "CloseWebSocket write c = (case tq_ws c of
     None \<Rightarrow> (c, None)
   | Some i \<Rightarrow> (case Close write (tq_streams c ! i) of (sc, err) \<Rightarrow> (on_stream i sc c, err)))"

definition SubscribeEvents :: "error option \<Rightarrow> string list \<Rightarrow> task_queue_client \<Rightarrow> task_queue_client \<times> error option" where
  "SubscribeEvents write eventTypes c = (case tq_ws c of
     None \<Rightarrow> (c, Some (Errorf ''websocket not connected''))
   | Some i \<Rightarrow> (case stream_Subscribe write eventTypes (tq_streams c ! i) of (sc, err) \<Rightarrow> (on_stream i sc c, err)))"


section \<open>A client and its streams\<close>

text \<open>
  What a program can do with the websocket side, and what happens to its streams meanwhile.
\<close>

datatype lib_action =
    CallConnectWebSocket "string \<Rightarrow> url res" "url \<Rightarrow> (string \<times> string) list \<Rightarrow> unit res"
  | CallCloseWebSocket "error option"
  | CallSubscribeEvents "error option" "string list"
  | OnStream nat stream_action

fun lib_step :: "lib_action \<Rightarrow> task_queue_client \<Rightarrow> task_queue_client progress" where
  "lib_step (CallConnectWebSocket parse dial) c = Goes (fst (ConnectWebSocket parse dial c))"
| "lib_step (CallCloseWebSocket w) c = Goes (fst (CloseWebSocket w c))"
| "lib_step (CallSubscribeEvents w ts) c = Goes (fst (SubscribeEvents w ts c))"
| "lib_step (OnStream i a) c = (if i < length (tq_streams c)
     then (case stream_step a (tq_streams c ! i) of Goes sc \<Rightarrow> Goes (on_stream i sc c) | Waits \<Rightarrow> Waits | Crashes \<Rightarrow> Crashes)
     else Waits)"

fun lib_steps :: "lib_action list \<Rightarrow> task_queue_client \<Rightarrow> task_queue_client progress" where
  "lib_steps [] c = Goes c"
| "lib_steps (a # as) c = (case lib_step a c of Goes c \<Rightarrow> lib_steps as c | Waits \<Rightarrow> Waits | Crashes \<Rightarrow> Crashes)"

definition lib_inv :: "task_queue_client \<Rightarrow> bool" where
  "lib_inv c \<longleftrightarrow> (\<forall>sc \<in> set (tq_streams c). stream_inv sc) \<and>
     (\<forall>i. tq_ws c = Some i \<longrightarrow> i < length (tq_streams c))"

lemma on_stream_inv: "lib_inv c \<Longrightarrow> stream_inv sc \<Longrightarrow> lib_inv (on_stream i sc c)"
  by (auto simp: lib_inv_def on_stream_def dest: set_update_subset_insert [THEN subsetD])

lemma client_New_inv: "client_New url opts = Inr c \<Longrightarrow> lib_inv c"
  by (auto simp: client_New_def lib_inv_def Let_def split: sum.splits)

lemma lib_inv_stream: "lib_inv c \<Longrightarrow> i < length (tq_streams c) \<Longrightarrow> stream_inv (tq_streams c ! i)"
  by (simp add: lib_inv_def)

lemma lib_inv_ws: "lib_inv c \<Longrightarrow> tq_ws c = Some i \<Longrightarrow> i < length (tq_streams c)"
  by (simp add: lib_inv_def)

lemma call_inv:
  "stream_inv sc \<Longrightarrow> Close w sc = (sc', e) \<Longrightarrow> stream_inv sc'"
  "stream_inv sc \<Longrightarrow> stream_Subscribe w ts sc = (sc', e) \<Longrightarrow> stream_inv sc'"
  using stream_step_inv [of sc "CallClose w" sc'] stream_step_inv [of sc "CallStreamSubscribe w ts" sc'] by simp_all

lemma lib_step_inv:
  assumes "lib_inv c" "lib_step a c = Goes c'"
  shows "lib_inv c'"
proof (cases a)
  case (CallConnectWebSocket parse dial)
  have "stream_inv sc" if "Connect parse dial (newWebSocketClient b k) = (sc, e)" for b k sc e
    using Connect_new_inv [of parse dial b k] that by simp
  then show ?thesis using assms CallConnectWebSocket
    by (auto simp: ConnectWebSocket_def Let_def lib_inv_def split: if_splits prod.splits)
next
  case (CallCloseWebSocket w)
  show ?thesis
  proof (cases "tq_ws c")
    case (Some i)
    then have "stream_inv (fst (Close w (tq_streams c ! i)))"
      using call_inv(1) lib_inv_stream [OF assms(1)] lib_inv_ws [OF assms(1)] by (metis prod.collapse)
    then show ?thesis using assms CallCloseWebSocket Some
      by (auto simp: CloseWebSocket_def split: prod.splits intro!: on_stream_inv)
  qed (use assms CallCloseWebSocket in \<open>simp add: CloseWebSocket_def\<close>)
next
  case (CallSubscribeEvents w ts)
  show ?thesis
  proof (cases "tq_ws c")
    case (Some i)
    then have "stream_inv (fst (stream_Subscribe w ts (tq_streams c ! i)))"
      using call_inv(2) lib_inv_stream [OF assms(1)] lib_inv_ws [OF assms(1)] by (metis prod.collapse)
    then show ?thesis using assms CallSubscribeEvents Some
      by (auto simp: SubscribeEvents_def split: prod.splits intro!: on_stream_inv)
  qed (use assms CallSubscribeEvents in \<open>simp add: SubscribeEvents_def\<close>)
next
  case (OnStream i b)
  then show ?thesis using assms stream_step_inv lib_inv_stream [OF assms(1), of i]
    by (auto split: if_splits progress.splits intro!: on_stream_inv)
qed

lemma lib_steps_inv: "lib_inv c \<Longrightarrow> lib_steps as c = Goes c' \<Longrightarrow> lib_inv c'"
  by (induction as arbitrary: c) (auto split: progress.splits intro: lib_step_inv)



definition sample_client :: task_queue_client where
  "sample_client = projr (client_New ''http://localhost:8080/'' [WithAPIKey ''secret'', client_WithTimeout (10 * Second)])"

lemma sample_client_New:
  "client_New ''http://localhost:8080/'' [WithAPIKey ''secret'', client_WithTimeout (10 * Second)] = Inr sample_client"
  by (simp add: sample_client_def client_New_def gen_NewClient_def Let_def WithHTTPClient_def WithRequestEditorFn_def)

text \<open>A client connects, gets an event, closes, and connects again.\<close>

definition reconnecting :: "lib_action list" where
  "reconnecting = CallConnectWebSocket plain_parse plain_dial # map (OnStream 0) (take_in 1) @
     CallCloseWebSocket None # map (OnStream 0) [Reader 0 PollDone, Reader 0 Leave] @
     [CallConnectWebSocket plain_parse plain_dial]"


end
