(* ===== verification/EndToEnd.thy ===== *)
theory EndToEnd
  imports Server ClientLib
begin

text \<open>
  The client of \<open>ClientLib\<close> and the server of \<open>Server\<close> together: what a client sends is what the server
  reads, and the other way round, over the network and over the websocket.
\<close>

section \<open>Documents, from one side to the other\<close>

lemma field_omit_ptr: "field (omit_ptr k doc x) k' = (if k = k' then map_option doc x else None)"
  by (auto simp: omit_ptr_def field_Cons split: option.split)

lemma field_omits:
  "field (omit_string k s) k' = (if k = k' \<and> s \<noteq> '''' then Some (GStr s) else None)"
  "field (omit_time k t) k' = (if k = k' then map_option GTime t else None)"
  "field (omit_gmap k m) k' = (if k = k' \<and> m \<noteq> None \<and> m \<noteq> Some [] then Some (gmap_doc m) else None)"
  "field (omit_smap k sm) k' = (if k = k' \<and> sm \<noteq> None \<and> sm \<noteq> Some [] then Some (smap_doc sm) else None)"
  by (auto simp: omit_string_def omit_time_def omit_gmap_def omit_smap_def gmap_doc_def smap_doc_def field_Cons
      split: option.split)

text \<open>The request as the server decodes it: an absent field is a zero value.\<close>

definition server_view :: "client_request \<Rightarrow> create_request" where
  "server_view q =
     (let num = (\<lambda>x :: int option. case x of None \<Rightarrow> 0 | Some n \<Rightarrow> n) in
      \<lparr>rq_type = cq_Type q, rq_payload = Option.bind (cq_Payload q) (\<lambda>m. m), rq_priority = num (cq_Priority q),
       rq_max_retries = num (cq_MaxRetries q), rq_timeout = num (cq_Timeout q), rq_scheduled_at = cq_ScheduledAt q,
       rq_metadata = Option.bind (cq_Metadata q) (\<lambda>m. m)\<rparr>)"

lemma read_gmap_doc: "read_gmap (map_option gmap_doc x) = Some (Option.bind x (\<lambda>m. m))"
  by (cases x) (auto simp: gmap_doc_def split: option.split)

lemma read_smap_doc: "read_smap (map_option smap_doc x) = Some (Option.bind x (\<lambda>m. m))"
  by (cases x) (auto simp: smap_doc_def split: option.split)

lemma read_int_ptr:
  "read_int (map_option (\<lambda>n. GNum (of_int n)) x) =
     (case x of None \<Rightarrow> Some 0 | Some n \<Rightarrow> if in_int64 n then Some n else None)"
  by (auto split: option.split)

lemma read_time_ptr_map: "read_time_ptr (map_option GTime x) = Some x"
  by (cases x) simp_all

lemma client_request_fields:
  "field (case client_request_doc q of GObj fs \<Rightarrow> fs) ''type'' = Some (GStr (cq_Type q))"
  "field (case client_request_doc q of GObj fs \<Rightarrow> fs) ''payload'' = map_option gmap_doc (cq_Payload q)"
  "field (case client_request_doc q of GObj fs \<Rightarrow> fs) ''priority'' = map_option (\<lambda>n. GNum (of_int n)) (cq_Priority q)"
  "field (case client_request_doc q of GObj fs \<Rightarrow> fs) ''max_retries'' = map_option (\<lambda>n. GNum (of_int n)) (cq_MaxRetries q)"
  "field (case client_request_doc q of GObj fs \<Rightarrow> fs) ''timeout'' = map_option (\<lambda>n. GNum (of_int n)) (cq_Timeout q)"
  "field (case client_request_doc q of GObj fs \<Rightarrow> fs) ''scheduled_at'' = map_option GTime (cq_ScheduledAt q)"
  "field (case client_request_doc q of GObj fs \<Rightarrow> fs) ''metadata'' = map_option smap_doc (cq_Metadata q)"
  by (simp_all add: client_request_doc_def field_append field_omit_ptr field_Cons)

definition request_ints_ok :: "client_request \<Rightarrow> bool" where
  "request_ints_ok q \<longleftrightarrow> (\<forall>x \<in> {cq_Priority q, cq_MaxRetries q, cq_Timeout q}. \<forall>n. x = Some n \<longrightarrow> in_int64 n)"

lemma decode_client_request:
  "decode_create_request (Some (client_request_doc q)) = (if request_ints_ok q then Some (server_view q) else None)"
proof -
  obtain fs where fs: "client_request_doc q = GObj fs" by (simp add: client_request_doc_def)
  show ?thesis using client_request_fields [of q]
    by (auto simp: fs read_create_request_def server_view_def request_ints_ok_def Let_def read_int_ptr read_gmap_doc
        read_smap_doc read_time_ptr_map split: option.split)
qed

text \<open>
  What the client sends is what the server reads: for a request with integers of 64 bits the
  document of the client is decoded to the same type, payload, metadata and time, and to the same numbers,
  with 0 and nothing for the fields that are absent.
\<close>

theorem request_roundtrip:
  assumes "request_ints_ok q"
  shows "decode_create_request (Some (client_request_doc q)) = Some (server_view q)"
  by (simp add: decode_client_request assms)

definition sample_submission :: client_request where
  "sample_submission = \<lparr>cq_MaxRetries = Some 5, cq_Metadata = Some (Some [(''k'', ''v'')]), cq_Payload = Some (Some [(''n'', GNum 1)]),
     cq_Priority = Some 3, cq_ScheduledAt = None, cq_Timeout = None, cq_Type = ''echo''\<rparr>"

theorem request_roundtrip_witness:
  "decode_create_request (Some (client_request_doc sample_submission)) = Some (server_view sample_submission) \<and>
   rq_priority (server_view sample_submission) = 3"
  using request_roundtrip [of sample_submission]
  by (simp add: sample_submission_def request_ints_ok_def in_int64_def server_view_def)

text \<open>The response as the client reads it, \<open>i\<close> being what the parser of UUIDs makes of the ID.\<close>

definition some_string :: "string \<Rightarrow> string option" where
  "some_string s = (if s = '''' then None else Some s)"

definition client_view :: "string \<Rightarrow> task_response \<Rightarrow> client_task" where
  "client_view i r = \<lparr>ct_Attempts = Some (rs_attempts r), ct_CompletedAt = rs_completed_at r,
     ct_CreatedAt = Some (rs_created_at r), ct_Error = some_string (rs_error r), ct_Id = Some i,
     ct_MaxRetries = Some (rs_max_retries r), ct_Metadata = (if rs_metadata r = Some [] then None else rs_metadata r),
     ct_NextRetryAt = rs_next_retry_at r, ct_Payload = rs_payload r, ct_Priority = Some (rs_priority r),
     ct_Result = (if rs_result r = Some [] then None else rs_result r), ct_ScheduledAt = rs_scheduled_at r,
     ct_StartedAt = rs_started_at r, ct_State = Some (rs_state r), ct_Type = Some (rs_type r),
     ct_UpdatedAt = Some (rs_updated_at r), ct_WorkerId = some_string (rs_worker_id r)\<rparr>"

lemma read_ptr_doc:
  "read_ptr rd (map_option f x) = (case x of None \<Rightarrow> Some None | Some v \<Rightarrow> read_ptr rd (Some (f v)))"
  by (cases x) simp_all

lemma read_ptr_gmap: "read_ptr read_fields (Some (gmap_doc m)) = Some m"
  by (cases m) (simp_all add: gmap_doc_def)

lemma read_smap_some: "read_smap (Some (smap_doc m)) = Some m"
  by (cases m) (simp_all add: smap_doc_def)

lemma response_fields:
  assumes "response_doc r = GObj fs"
  shows "field fs ''id'' = Some (GStr (rs_id r))" "field fs ''type'' = Some (GStr (rs_type r))"
    "field fs ''payload'' = Some (gmap_doc (rs_payload r))" "field fs ''priority'' = Some (GStr (rs_priority r))"
    "field fs ''state'' = Some (GStr (rs_state r))" "field fs ''attempts'' = Some (GNum (of_int (rs_attempts r)))"
    "field fs ''max_retries'' = Some (GNum (of_int (rs_max_retries r)))"
    "field fs ''error'' = (if rs_error r = '''' then None else Some (GStr (rs_error r)))"
    "field fs ''result'' = (if rs_result r = None \<or> rs_result r = Some [] then None else Some (gmap_doc (rs_result r)))"
    "field fs ''worker_id'' = (if rs_worker_id r = '''' then None else Some (GStr (rs_worker_id r)))"
    "field fs ''created_at'' = Some (GTime (rs_created_at r))" "field fs ''updated_at'' = Some (GTime (rs_updated_at r))"
    "field fs ''started_at'' = map_option GTime (rs_started_at r)"
    "field fs ''completed_at'' = map_option GTime (rs_completed_at r)"
    "field fs ''scheduled_at'' = map_option GTime (rs_scheduled_at r)"
    "field fs ''next_retry_at'' = map_option GTime (rs_next_retry_at r)"
    "field fs ''metadata'' = (if rs_metadata r = None \<or> rs_metadata r = Some [] then None else Some (smap_doc (rs_metadata r)))"
  using assms by (auto simp: response_doc_def field_append field_omits field_Cons)

lemma read_response:
  "read_client_task parse (response_doc r) =
     (if in_int64 (rs_attempts r) \<and> in_int64 (rs_max_retries r)
      then map_option (\<lambda>i. client_view i r) (parse (rs_id r)) else None)"
proof -
  obtain fs where fs: "response_doc r = GObj fs" by (simp add: response_doc_def)
  have t: "read_ptr read_time (map_option GTime x) = Some x" for x by (cases x) simp_all
  show ?thesis
    by (cases "parse (rs_id r)")
      (auto simp: fs read_client_task_def response_fields [OF fs] client_view_def some_string_def read_ptr_gmap
        read_smap_some t split: option.split)
qed

lemma ToResponse_sel:
  "rs_id (ToResponse t) = t_id t" "rs_attempts (ToResponse t) = t_attempts t"
  "rs_max_retries (ToResponse t) = t_max_retries t" "rs_payload (ToResponse t) = t_payload t"
  "rs_result (ToResponse t) = t_result t"
  by (simp_all add: ToResponse_def Let_def)

text \<open>
  C18: What the server answers about a task is what the client gets: every field of the response arrives,
  the empty error, result, worker and metadata as absent ones.
\<close>

theorem response_roundtrip:
  assumes "in_int64 (t_attempts t)" "in_int64 (t_max_retries t)" "parse (t_id t) = Some i"
  shows "read_client_task parse (response_doc (ToResponse t)) = Some (client_view i (ToResponse t))"
  using assms by (simp add: read_response ToResponse_sel)

theorem response_roundtrip_witness:
  "read_client_task Some (response_doc (ToResponse (sample_task ''a'' PriorityHigh StateRetrying))) =
     Some (client_view ''a'' (ToResponse (sample_task ''a'' PriorityHigh StateRetrying)))"
  by (rule response_roundtrip) (simp_all add: sample_task_def in_int64_def)


section \<open>Over the network\<close>

text \<open>
  What a reply is on the wire: the handlers answer JSON, the texts of \<^verbatim>\<open>http.Error\<close> and of the router
  are plain. The connection is closed on a panic that nothing recovers from.
\<close>

fun wire :: "reply \<Rightarrow> wire_response res" where
  "wire (Reply c (Some (GStr m))) = Inr \<lparr>rp_StatusCode = c, rp_ContentType = ''text/plain; charset=utf-8'', rp_Body = Inr None\<rparr>"
| "wire (Reply c d) = Inr \<lparr>rp_StatusCode = c, rp_ContentType = ''application/json'', rp_Body = Inr d\<rparr>"
| "wire Panic = Inl (Errorf ''EOF'')"

text \<open>
  A request may get lost, and so may the answer to a request that was served. The server sees the
  address the request comes from.
\<close>

datatype fate = Answered | RequestLost error | AnswerLost error

definition network :: "'s env \<Rightarrow> chi \<Rightarrow> string \<Rightarrow> fate \<Rightarrow> http_client \<Rightarrow> http_request \<Rightarrow>
    ('s \<times> 's server, wire_response res) io" where
  "network E C addr fate h req = State (\<lambda>(s, srv). case fate of
     RequestLost err \<Rightarrow> (Inl (Wrapf ''Post'' err), (s, srv))
   | Answered \<Rightarrow> (case run_state (ServeHTTP E C (req\<lparr>hr_remote := addr\<rparr>) srv) s of
       ((srv', rep), s') \<Rightarrow> (case wire rep of Inl err \<Rightarrow> Inl (Wrapf ''Post'' err) | Inr rsp \<Rightarrow> Inr rsp, (s', srv')))
   | AnswerLost err \<Rightarrow> (case run_state (ServeHTTP E C (req\<lparr>hr_remote := addr\<rparr>) srv) s of
       ((srv', rep), s') \<Rightarrow> (Inl (Wrapf ''Post'' err), (s', srv'))))"

text \<open>
  What \<^verbatim>\<open>chi\<close> documents and the server relies on: the request ID and the real address change neither
  method, path, body nor content type; the recovery passes replies on and answers a panic with 500; the
  heartbeat answers on its own path only; the check of the content type refuses with 415; and the routes
  below \<^verbatim>\<open>/api/v1\<close> are found.
\<close>

definition same_request :: "http_request \<Rightarrow> http_request \<Rightarrow> bool" where
  "same_request r r' \<longleftrightarrow> hr_method r' = hr_method r \<and> hr_path r' = hr_path r \<and> hr_body r' = hr_body r \<and>
     hr_header r' ''Content-Type'' = hr_header r ''Content-Type''"

definition chi_documented :: "chi \<Rightarrow> config \<Rightarrow> bool" where
  "chi_documented C cfg \<longleftrightarrow>
     (\<forall>r. same_request r (ch_RequestID C r)) \<and> (\<forall>r. same_request r (ch_RealIP C r)) \<and>
     (\<forall>c d. ch_Recoverer C (Reply c d) = Reply c d) \<and> reply_status (ch_Recoverer C Panic) = 500 \<and>
     (\<forall>p r. hr_path r \<noteq> p \<longrightarrow> ch_Heartbeat C p r = None) \<and>
     (\<forall>ty r rep. ch_AllowContentType C ty r = Some rep \<longrightarrow> reply_status rep = 415) \<and>
     (\<exists>par. ch_group C (map rg_prefix (setupRoutes cfg)) ''/api/v1/tasks'' = Some (0, ''/tasks'') \<and>
        ch_route C (map (\<lambda>x. (ro_method x, ro_pattern x)) (rg_routes (setupRoutes cfg ! 0))) ''POST'' ''/tasks'' = Some (0, par))"

definition serving :: "'s env \<Rightarrow> config \<Rightarrow> 's server \<Rightarrow> bool" where
  "serving E cfg srv \<longleftrightarrow> srv_groups srv = setupRoutes cfg \<and> srv_middlewares srv = setupMiddleware \<and>
     queue_ok (th_queue (srv_taskHandler srv)) \<and> th_scheduleTask (srv_taskHandler srv) = ScheduleTaskFunc E \<and>
     in_int64 (th_defaultMaxRetries (srv_taskHandler srv))"

lemma NewServer_serving:
  "queue_ok q \<Longrightarrow> in_int64 (qc_retry_max_attempts (cf_queue cfg)) \<Longrightarrow> serving E cfg (NewServer E cfg q dlq publisher)"
  by (simp add: serving_def NewServer_def NewTaskHandler_def)

text \<open>What a creation over HTTP answers, and has done by then.\<close>

definition post_answer :: "('s \<Rightarrow> view) \<Rightarrow> redis_queue \<Rightarrow> gval option \<Rightarrow> view \<Rightarrow> reply \<Rightarrow> 's \<Rightarrow> bool" where
  "post_answer \<alpha> q body v rep s' \<longleftrightarrow>
     (\<exists>t req. rep = respondJSON 201 (response_doc (ToResponse t)) \<and> accepted_task q (\<alpha> s') t \<and> storable t \<and>
        decode_create_request body = Some req \<and> made_from req t) \<or>
     reply_status rep \<in> {400, 429, 503} \<and> \<alpha> s' = v \<or> reply_status rep \<notin> {201, 400, 429, 503}"

lemma post_over_http:
  assumes "redis E \<alpha>" "chi_documented C cfg" "serving E cfg srv"
    and "hr_method r = ''POST''" "hr_path r = ''/api/v1/tasks''"
  shows "wp (ServeHTTP E C r srv) (\<lambda>(srv', rep). post_answer \<alpha> (th_queue (srv_taskHandler srv)) (hr_body r) (\<alpha> s) rep) s"
proof -
  let ?h = "srv_taskHandler srv"
  let ?Q = "\<lambda>(srv', rep). post_answer \<alpha> (th_queue ?h) (hr_body r) (\<alpha> s) rep"
  have h: "queue_ok (th_queue ?h)" "th_scheduleTask ?h = ScheduleTaskFunc E" "in_int64 (th_defaultMaxRetries ?h)"
    "srv_groups srv = setupRoutes cfg" "srv_middlewares srv = setupMiddleware"
    using assms(3) by (simp_all add: serving_def)
  have recover: "post_answer \<alpha> q b v (ch_Recoverer C rep) u" if "post_answer \<alpha> q b v rep u" for q b v rep u
    using that assms(2) by (cases rep) (auto simp: chi_documented_def post_answer_def)
  obtain par where route: "ch_group C (map rg_prefix (setupRoutes cfg)) ''/api/v1/tasks'' = Some (0, ''/tasks'')"
    "ch_route C (map (\<lambda>x. (ro_method x, ro_pattern x)) (rg_routes (setupRoutes cfg ! 0))) ''POST'' ''/tasks'' = Some (0, par)"
    using assms(2) by (auto simp: chi_documented_def)
  have first: "ro_endpoint (rg_routes (setupRoutes cfg ! 0) ! 0) = TaskCreate"
    by (simp add: setupRoutes_def below_def on_method_def)
  have create: "wp (route_in E C (rg_routes (setupRoutes cfg ! 0)) ''/tasks'' r' sv) ?Q u"
    if "same_request r r'" "\<alpha> u = \<alpha> s" "srv_taskHandler sv = ?h" for r' sv u
  proof -
    have "hr_method r' = ''POST''" "hr_body r' = hr_body r" using that(1) assms(4) by (simp_all add: same_request_def)
    then show ?thesis using redis.Create_wp [OF assms(1) h(1-3), of "hr_body r" u] that(2,3)
      by (auto simp: route_in_def route first run_endpoint_def Let_def wp_bind wp_return post_answer_def
          redis.create_post_def [OF assms(1)] elim!: wp_mono)
  qed
  have "wp (in_group E C ms (route_in E C (rg_routes (setupRoutes cfg ! 0)) ''/tasks'') r' sv) ?Q u"
    if "same_request r r'" "\<alpha> u = \<alpha> s" "srv_taskHandler sv = ?h" for ms r' sv u
    using that(2,3)
  proof (induction ms arbitrary: sv u)
    case Nil
    then show ?case using create that(1) by simp
  next
    case (Cons m ms)
    show ?case
    proof (cases m)
      case (AllowContentType ty)
      then show ?thesis using Cons assms(2)
        by (auto simp: wp_return chi_documented_def post_answer_def split: option.split)
    next
      case (LimitClients n)
      then show ?thesis using Cons
        by (auto simp: wp_bind wp_eqs Let_def post_answer_def too_many_requests_def split: prod.split
            intro!: redis.admit_client_wp [OF assms(1)])
    qed
  qed
  then have "wp (dispatch E C r' srv) ?Q s" if "same_request r r'" for r'
    using that assms(5) by (simp add: dispatch_def h route same_request_def)
  moreover have "same_request r (ch_RealIP C (ch_RequestID C r))" "ch_Heartbeat C ''/health'' (ch_RealIP C (ch_RequestID C r)) = None"
    using assms(2,5) by (simp_all add: chi_documented_def same_request_def)
  ultimately have inner: "wp (through C [HeartbeatAt ''/health''] (dispatch E C) (ch_RealIP C (ch_RequestID C r)) srv) ?Q s"
    by simp
  show ?thesis unfolding ServeHTTP_def h(5) setupMiddleware_def through.simps(2-5) wp_bind
    by (rule wp_mono [OF inner]) (auto simp: wp_return recover)
qed


section \<open>Submitting a task\<close>

lemma storable_answer:
  assumes "storable t"
  shows "respondJSON 201 (response_doc (ToResponse t)) = Reply 201 (Some (response_doc (ToResponse t)))"
    "in_int64 (t_attempts t)" "in_int64 (t_max_retries t)"
proof -
  have "list_all (\<lambda>(k, v). marshalable v) (omit_gmap k m)" if "gmap_ok m" for k m
    using that by (auto simp: omit_gmap_def gmap_ok_def gmap_doc_def split: option.split)
  then show "respondJSON 201 (response_doc (ToResponse t)) = Reply 201 (Some (response_doc (ToResponse t)))"
    using assms by (simp add: respondJSON_def storable_def response_doc_def ToResponse_sel gmap_ok_def)
qed (use assms in \<open>simp_all add: storable_def\<close>)

text \<open>The errors that say the server refused the request.\<close>

definition refusal :: "error \<Rightarrow> bool" where
  "refusal err \<longleftrightarrow> (\<exists>what m. what \<in> {''bad request'', ''rate limited'', ''service unavailable''} \<and>
     err = Errorf (what @ '': '' @ m))"

text \<open>How the client turns the answer to a creation into its result.\<close>

definition submit_result :: "'s net \<Rightarrow> wire_response res \<Rightarrow> client_task res" where
  "submit_result N rsp = (case (case rsp of Inl err \<Rightarrow> Inl err | Inr rsp \<Rightarrow> ParseCreateTaskResponse N rsp) of
     Inl err \<Rightarrow> Inl err | Inr resp \<Rightarrow>
       (case JSON 201 resp of Some t \<Rightarrow> Inr t | None \<Rightarrow>
       (case JSONError 400 resp of Some e \<Rightarrow> Inl (failed ''bad request'' e) | None \<Rightarrow>
       (case JSONError 429 resp of Some e \<Rightarrow> Inl (failed ''rate limited'' e) | None \<Rightarrow>
       (case JSONError 503 resp of Some e \<Rightarrow> Inl (failed ''service unavailable'' e) | None \<Rightarrow>
        Inl (unexpected resp))))))"

lemma SubmitTask_run:
  "run_state (SubmitTask N c q) w = (case run_state (Client_CreateTask N (tq_gen c) q []) w of
     (rsp, w') \<Rightarrow> (submit_result N rsp, w'))"
  by (simp add: SubmitTask_def CreateTaskWithResponse_def then_parse_def submit_result_def run_state_bind split: prod.split)

lemma unexpected_no_refusal: "\<not> refusal (unexpected r)" "\<not> refusal ErrJSON" "\<not> refusal (Wrapf m e)"
  by (auto simp: refusal_def unexpected_def)

lemma submit_result_cases:
  "submit_result N rsp = Inr ct \<Longrightarrow> \<exists>d. rsp = Inr d \<and> rp_StatusCode d = 201 \<and>
     (\<exists>doc. rp_Body d = Inr (Some doc) \<and> read_client_task (parse_uuid N) doc = Some ct)"
  "submit_result N rsp = Inl err \<Longrightarrow> refusal err \<Longrightarrow> (\<exists>d. rsp = Inr d \<and> rp_StatusCode d \<in> {400, 429, 503}) \<or>
     rsp = Inl err \<or> (\<exists>d. rsp = Inr d \<and> rp_Body d = Inl err)"
  by (auto simp: submit_result_def ParseCreateTaskResponse_def parse_response_def unmarshal_def Let_def JSON_def
      JSONError_def StatusCode_def unexpected_no_refusal bind_eq_Some_conv split: sum.splits option.splits if_splits)


lemma applyHeaders_keeps:
  "\<exists>req'. applyHeaders o' req = Inr req' \<and> hr_method req' = hr_method req \<and> hr_path req' = hr_path req \<and>
     hr_body req' = hr_body req"
proof -
  have set: "hr_method (Header_Set k v r) = hr_method r" "hr_path (Header_Set k v r) = hr_path r"
    "hr_body (Header_Set k v r) = hr_body r" for k v r by (simp_all add: Header_Set_def set_header_def)
  have "hr_method (fold (\<lambda>(k, v). Header_Set k v) hs r) = hr_method r \<and>
     hr_path (fold (\<lambda>(k, v). Header_Set k v) hs r) = hr_path r \<and>
     hr_body (fold (\<lambda>(k, v). Header_Set k v) hs r) = hr_body r" for hs r
    by (induction hs arbitrary: r) (auto simp: set)
  then show ?thesis by (simp add: applyHeaders_def Let_def set)
qed

lemma client_New_gen:
  assumes "client_New url opts = Inr c"
  obtains o' where "ac_RequestEditors (tq_gen c) = [applyHeaders o']" "ac_Client (tq_gen c) = Doer (op_httpClient o')"
  using assms by (auto simp: client_New_def gen_NewClient_def WithHTTPClient_def WithRequestEditorFn_def Let_def)

text \<open>A creation either fails on the client's side, or posts the document of the request.\<close>

lemma create_request_sent:
  assumes "client_New url opts = Inr c"
    and "nt_Resolve N (ac_Server (tq_gen c)) ''./api/v1/tasks'' = Inr ''/api/v1/tasks''"
  shows "(\<exists>err. \<not> refusal err \<and> Client_CreateTask N (tq_gen c) q [] = ret (Inl err)) \<or>
    (\<exists>h req. Client_CreateTask N (tq_gen c) q [] = nt_Do N h req \<and> hr_method req = ''POST'' \<and>
       hr_path req = ''/api/v1/tasks'' \<and> hr_body req = Some (client_request_doc q))"
proof (cases "marshalable (client_request_doc q)")
  case True
  obtain o' where o': "ac_RequestEditors (tq_gen c) = [applyHeaders o']" "ac_Client (tq_gen c) = Doer (op_httpClient o')"
    using client_New_gen [OF assms(1)] .
  obtain req where req: "NewCreateTaskRequest N (ac_Server (tq_gen c)) q = Inr req" "hr_method req = ''POST''"
    "hr_path req = ''/api/v1/tasks''" "hr_body req = Some (client_request_doc q)"
    using True assms(2)
    by (simp add: NewCreateTaskRequest_def NewCreateTaskRequestWithBody_def with_body_def new_request_def set_header_def)
  obtain req' where "applyHeaders o' req = Inr req'" "hr_method req' = ''POST''" "hr_path req' = ''/api/v1/tasks''"
    "hr_body req' = Some (client_request_doc q)"
    using applyHeaders_keeps [of o' req] req by auto
  then have "Client_CreateTask N (tq_gen c) q [] = do_request N (Doer (op_httpClient o')) req'"
    by (simp add: Client_CreateTask_def send_def req(1) applyEditors_def o')
  then show ?thesis
    by (cases "op_httpClient o'") (use \<open>hr_method req' = _\<close> \<open>hr_path req' = _\<close> \<open>hr_body req' = _\<close> in
        \<open>auto simp: refusal_def\<close>)
next
  case False
  then have "Client_CreateTask N (tq_gen c) q [] = ret (Inl ErrJSON)"
    by (simp add: Client_CreateTask_def send_def NewCreateTaskRequest_def)
  then show ?thesis using unexpected_no_refusal(2) by blast
qed

text \<open>The answers to a creation on the wire.\<close>

lemma wire_answer:
  assumes "wire rep = Inr d"
  shows "rp_StatusCode d = reply_status rep" "\<exists>b. rp_Body d = Inr b"
    "rp_Body d = Inr (Some doc) \<Longrightarrow> rep = Reply (rp_StatusCode d) (Some doc)"
  using assms by (cases rep rule: wire.cases; auto)+



text \<open>A network with the router of \<open>Server\<close>, and a server without a rate limit.\<close>

definition open_config :: config where
  "open_config = default_config\<lparr>cf_queue := (cf_queue default_config)\<lparr>qc_rate_limit_rps := 0\<rparr>\<rparr>"

definition open_server :: "mem server" where
  "open_server = NewServer mem_env open_config sample_queue True True"

definition plain_net :: "(mem \<times> mem server) net" where
  "plain_net = \<lparr>nt_Resolve = (\<lambda>server ref. Inr (tl ref)), nt_StyleParam = (\<lambda>name v. Inr v), nt_ParseUUID = Inr,
     nt_Do = network mem_env plain_chi ''10.0.0.2'' Answered\<rparr>"

lemma plain_chi_documented: "chi_documented plain_chi cfg"
  by (auto simp: chi_documented_def same_request_def plain_chi_def setupRoutes_def below_def on_method_def path_segments_def
      split: if_splits)

lemma open_server_serving: "serving mem_env open_config open_server"
  unfolding open_server_def
  by (rule NewServer_serving) (simp_all add: queue_ok_def sample_queue_def open_config_def default_config_def in_int64_def)

lemma open_server_creates:
  assumes "hr_method r = ''POST''" "hr_path r = ''/api/v1/tasks''" "hr_header r ''Content-Type'' = ''application/json''"
  shows "ServeHTTP mem_env plain_chi r open_server = do {
     rep \<leftarrow> Create mem_env (srv_taskHandler open_server) (hr_body r);
     ret (open_server, case rep of Panic \<Rightarrow> Reply 500 None | _ \<Rightarrow> rep) }"
proof -
  have group: "ch_group plain_chi (map rg_prefix (srv_groups open_server)) (hr_path r) = Some (0, ''/tasks'')"
    by (simp add: plain_chi_def open_server_def NewServer_def setupRoutes_def assms)
  have mws: "rg_middlewares (srv_groups open_server ! 0) = [AllowContentType ''application/json'']"
    "srv_middlewares open_server = setupMiddleware"
    by (simp_all add: open_server_def NewServer_def setupRoutes_def open_config_def)
  obtain par where route: "ch_route plain_chi (map (\<lambda>x. (ro_method x, ro_pattern x)) (rg_routes (srv_groups open_server ! 0)))
      (hr_method r) ''/tasks'' = Some (0, par)" "ro_endpoint (rg_routes (srv_groups open_server ! 0) ! 0) = TaskCreate"
    by (simp add: plain_chi_def open_server_def NewServer_def setupRoutes_def below_def on_method_def path_segments_def assms)
  have chi: "ch_RequestID plain_chi r = r" "ch_RealIP plain_chi r = r" "ch_Heartbeat plain_chi ''/health'' r = None"
    "ch_AllowContentType plain_chi ''application/json'' r = None"
    "ch_Recoverer plain_chi = (\<lambda>rep. case rep of Panic \<Rightarrow> Reply 500 None | _ \<Rightarrow> rep)"
    by (simp_all add: plain_chi_def assms)
  show ?thesis
    by (simp add: ServeHTTP_def mws setupMiddleware_def chi dispatch_def group route_in_def route run_endpoint_def Let_def)
qed

lemma open_server_handler:
  "srv_taskHandler open_server = NewTaskHandler sample_queue True (ScheduleTaskFunc mem_env) 1000000 3 True"
  by (simp add: open_server_def NewServer_def open_config_def default_config_def)

lemma sample_submission_answer:
  "case fst (run_state (Create mem_env (srv_taskHandler open_server) (Some (client_request_doc sample_submission))) sample_mem) of
     Reply c (Some (GObj fs)) \<Rightarrow> c = 201 \<and> read_client_task Some (GObj fs) \<noteq> None | _ \<Rightarrow> False"
  unfolding open_server_handler by code_simp

lemma sample_submission_run:
  "run_state (Client_CreateTask plain_net (tq_gen sample_client) sample_submission []) (sample_mem, open_server) =
     (case run_state (Create mem_env (srv_taskHandler open_server) (Some (client_request_doc sample_submission))) sample_mem of
        (rep, s') \<Rightarrow> (wire (case rep of Panic \<Rightarrow> Reply 500 None | _ \<Rightarrow> rep), (s', open_server)))"
proof -
  have "marshalable (client_request_doc sample_submission)" by code_simp
  moreover have "CanonicalHeaderKey ''Authorization'' = ''Authorization''" by code_simp
  ultimately obtain h req where "Client_CreateTask plain_net (tq_gen sample_client) sample_submission [] = nt_Do plain_net h req"
    "hr_method req = ''POST''" "hr_path req = ''/api/v1/tasks''" "hr_header req ''Content-Type'' = ''application/json''"
    "hr_body req = Some (client_request_doc sample_submission)"
    by (simp add: Client_CreateTask_def send_def NewCreateTaskRequest_def NewCreateTaskRequestWithBody_def with_body_def
        new_request_def plain_net_def sample_client_def client_New_def gen_NewClient_def WithHTTPClient_def
        WithRequestEditorFn_def applyEditors_def applyHeaders_def WithAPIKey_def client_WithTimeout_def defaultOptions_def
        Header_Set_def set_header_def Let_def)
  then show ?thesis
    using open_server_creates [of "req\<lparr>hr_remote := ''10.0.0.2''\<rparr>"]
    by (auto simp: plain_net_def network_def run_state_bind split: prod.split reply.split sum.split elim!: wire.elims)
qed



section \<open>Over the websocket\<close>

text \<open>
  The writing goroutine of the server sends all that has queued up as one frame, document after
  document. The client decodes a frame as one document.
\<close>

fun write_steps :: "write_event list \<Rightarrow> ws_client \<Rightarrow> ws_client progress" where
  "write_steps [] w = Goes w"
| "write_steps (ev # evs) w = (case write_step ev w of
     Goes w \<Rightarrow> write_steps evs w | Waits \<Rightarrow> Waits | Crashes \<Rightarrow> Crashes)"

lemma write_steps_append: "write_steps (as @ bs) w = (case write_steps as w of
    Goes w \<Rightarrow> write_steps bs w | Waits \<Rightarrow> Waits | Crashes \<Rightarrow> Crashes)"
  by (induction as arbitrary: w) (auto split: progress.split)

lemma drain_queue:
  "wc_write w = Draining (length (wc_send w)) \<Longrightarrow> write_steps (replicate (length (wc_send w)) TakeMore) w =
     Goes (w\<lparr>wc_write := Draining 0, wc_send := [], wc_frame := wc_frame w @ wc_send w\<rparr>)"
proof (induction "wc_send w" arbitrary: w)
  case (Cons m ms)
  let ?w = "w\<lparr>wc_send := ms, wc_frame := wc_frame w @ [m], wc_write := Draining (length ms)\<rparr>"
  have "write_step TakeMore w = Goes ?w" using Cons.hyps(2) [symmetric] Cons.prems by simp
  then show ?case using Cons.hyps(1) [of ?w] Cons.hyps(2) [symmetric] by simp
qed simp

definition send_batch :: "nat \<Rightarrow> write_event list" where
  "send_batch n = TakeMessage True # replicate n TakeMore @ [Flush True]"

lemma send_batch_effect:
  assumes "wc_write w = WriteSelect" "wc_conn w" "wc_send w = m # ms"
  shows "\<exists>w'. write_steps (send_batch (length ms)) w = Goes w' \<and> wc_out w' = wc_out w @ [m # ms] \<and> wc_send w' = []"
proof -
  let ?w = "w\<lparr>wc_send := ms, wc_frame := [m], wc_write := Draining (length ms)\<rparr>"
  have "write_step (TakeMessage True) w = Goes ?w" using assms by simp
  moreover have "write_steps (replicate (length ms) TakeMore) ?w =
      Goes (?w\<lparr>wc_write := Draining 0, wc_send := [], wc_frame := m # ms\<rparr>)"
    using drain_queue [of ?w] by simp
  ultimately show ?thesis using assms(2) by (simp add: send_batch_def write_steps_append)
qed

lemma read_batch:
  assumes "sc_readers sc = [RdRead]" "sc_conn sc = Some cn" "cn_open cn" "cn_frames cn = []"
  shows "\<exists>sc'. stream_steps [Arrive f, Reader 0 ReadMessage] sc = Goes sc' \<and> sc_events sc' = sc_events sc \<and>
    sc_readers sc' = [case frame_event f of None \<Rightarrow> RdPoll | Some e \<Rightarrow> RdOffer e]"
  using assms by (simp add: reader_step_def)

text \<open>
  C30: Events that queue up at the server are lost to the client: when two or more wait for the writing
  goroutine it sends them as one frame and drops them from its buffer, and the reader of the client, which
  reads that frame, goes on without offering any of them. An event that waits alone is offered.
\<close>

theorem batched_events_lost:
  assumes "wc_write w = WriteSelect" "wc_conn w" "wc_send w = m # ms"
    and "sc_readers sc = [RdRead]" "sc_conn sc = Some cn" "cn_open cn" "cn_frames cn = []"
  shows "\<exists>w' sc'. write_steps (send_batch (length ms)) w = Goes w' \<and> wc_out w' = wc_out w @ [m # ms] \<and> wc_send w' = [] \<and>
    stream_steps [Arrive (m # ms), Reader 0 ReadMessage] sc = Goes sc' \<and> sc_events sc' = sc_events sc \<and>
    (ms \<noteq> [] \<longrightarrow> sc_readers sc' = [RdPoll]) \<and>
    (\<forall>e. ms = [] \<longrightarrow> Event_FromJSON m = Inr e \<longrightarrow> sc_readers sc' = [RdOffer e])"
proof -
  obtain w' where "write_steps (send_batch (length ms)) w = Goes w'" "wc_out w' = wc_out w @ [m # ms]" "wc_send w' = []"
    using send_batch_effect [OF assms(1-3)] by blast
  moreover obtain sc' where "stream_steps [Arrive (m # ms), Reader 0 ReadMessage] sc = Goes sc'"
    "sc_events sc' = sc_events sc" "sc_readers sc' = [case frame_event (m # ms) of None \<Rightarrow> RdPoll | Some e \<Rightarrow> RdOffer e]"
    using read_batch [OF assms(4-7)] by blast
  ultimately show ?thesis by (cases ms) auto
qed

definition busy_writer :: ws_client where
  "busy_writer = (NewClient ''0123456789'')\<lparr>wc_write := WriteSelect, wc_conn := True,
     wc_send := [event_doc (numbered 1), event_doc (numbered 2)]\<rparr>"

definition idle_reader :: stream_client where
  "idle_reader = (connected_client plain_parse plain_dial ''localhost:8080'' '''')\<lparr>sc_readers := [RdRead]\<rparr>"

theorem batched_events_lost_witness:
  "\<exists>w' sc'. write_steps (send_batch 1) busy_writer = Goes w' \<and> wc_send w' = [] \<and>
     stream_steps [Arrive [event_doc (numbered 1), event_doc (numbered 2)], Reader 0 ReadMessage] idle_reader = Goes sc' \<and>
     sc_events sc' = [] \<and> sc_readers sc' = [RdPoll]"
proof -
  have "wc_write busy_writer = WriteSelect" "wc_conn busy_writer"
    "wc_send busy_writer = event_doc (numbered 1) # [event_doc (numbered 2)]"
    by (simp_all add: busy_writer_def)
  moreover have "sc_readers idle_reader = [RdRead]" "sc_events idle_reader = []"
    "sc_conn idle_reader = Some \<lparr>cn_frames = [], cn_sent = [], cn_open = True\<rparr>"
    by (simp_all add: idle_reader_def connected_client_def Connect_def newWebSocketClient_def plain_parse_def plain_dial_def)
  ultimately show ?thesis
    using batched_events_lost [of busy_writer "event_doc (numbered 1)" "[event_doc (numbered 2)]" idle_reader
      "\<lparr>cn_frames = [], cn_sent = [], cn_open = True\<rparr>"] by auto
qed

section \<open>Where the two sides disagree\<close>

text \<open>
  The state of a canceled task is no state to the client, which spells it with two \<^verbatim>\<open>l\<close>; all other names
  of states and priorities are.
\<close>

lemma client_states:
  "TaskResponseState_Valid (State_String s) \<longleftrightarrow> known_state s \<and> s \<noteq> StateCanceled"
  "known_priority p \<Longrightarrow> TaskResponsePriority_Valid (Priority_String p)"
  by (cases s; simp add: TaskResponseState_Valid_def) (cases p; simp add: TaskResponsePriority_Valid_def)

text \<open>
  The entries of the dead letter queue come from the server with the whole task; the client looks for an
  ID and a type beside it, and never finds them.
\<close>

lemma client_dlq_entry_anonymous:
  "read_client_dlq_entry (dlq_entry_doc e) =
     Some \<lparr>cd_AddedAt = Some (de_added_at e), cd_Reason = Some (de_reason e), cd_TaskId = None, cd_TaskType = None\<rparr>"
  by (simp add: read_client_dlq_entry_def dlq_entry_doc_def field_Cons)

text \<open>
  The API key of the client's options travels as a bearer token, which the authentication takes for a
  JSON web token: its list of API keys plays no part.
\<close>

lemma client_key_is_no_api_key:
  assumes "applyHeaders o' req = Inr r" "op_headers o' = []" "hr_header req ''X-API-Key'' = ''''"
  shows "Auth parse cfg next_handler r = Auth parse (cfg\<lparr>au_APIKeys := Map.empty\<rparr>) next_handler r"
proof -
  have "CanonicalHeaderKey ''Authorization'' = ''Authorization''" by code_simp
  then have "hr_header r ''X-API-Key'' = ''''"
    using assms by (auto simp: applyHeaders_def Let_def Header_Set_def set_header_def)
  then show ?thesis by (simp add: Auth_def Let_def cong: if_cong)
qed

text \<open>A message about subscriptions changes nothing at the server.\<close>

lemma subscription_ignored: "handleMessage msg w = w"
  by (simp add: handleMessage_def)

end
