(* ===== verification/PollRace.thy ===== *)
theory PollRace
  imports Scheduler MemRedis
begin

text \<open>
  Several schedulers at once: every API server runs one, and they poll the same sorted set under a lock
  in Redis that expires. Here one step is one call to Redis, and the calls of different schedulers
  interleave.
\<close>

section \<open>A poll, call by call\<close>

text \<open>
  Where a poll stands: before taking the lock, before reading the due entries, at an entry before
  reading, updating and adding its task and before removing the entry, before releasing the lock, and
  after.
\<close>

datatype poll_pc =
    PollLock
  | PollDue
  | PollGet string "string list"
  | PollUpdate string task "string list"
  | PollAdd string task "string list"
  | PollRemove string "string list"
  | PollUnlock
  | PollDone

fun next_entry :: "string list \<Rightarrow> poll_pc" where
  "next_entry [] = PollUnlock"
| "next_entry (i # ids) = PollGet i ids"

fun poll_step :: "'s env \<Rightarrow> redis_queue \<Rightarrow> poll_pc \<Rightarrow> ('s, poll_pc) io" where
  "poll_step E q PollLock = do {
     locked \<leftarrow> r_setnx E schedulerLockKey (GStr ''1'') schedulerLockTTL;
     ret (case locked of Inl _ \<Rightarrow> PollDone | Inr b \<Rightarrow> if b then PollDue else PollDone)
   }"
| "poll_step E q PollDue = do {
     now \<leftarrow> e_now E;
     taskIDs \<leftarrow> r_zrangebyscore E scheduledSetKey (Unix now);
     ret (case taskIDs of Inl _ \<Rightarrow> PollUnlock | Inr ids \<Rightarrow> next_entry ids)
   }"
| "poll_step E q (PollGet i ids) = do {
     r \<leftarrow> GetTask E i;
     case r of
       Inl _ \<Rightarrow> ret (PollRemove i ids)
     | Inr t \<Rightarrow>
         if t_state t \<noteq> StateScheduled \<and> t_state t \<noteq> StateRetrying then ret (PollRemove i ids)
         else do {
           (t, err) \<leftarrow> Transition E t StatePending;
           ret (case err of Some _ \<Rightarrow> next_entry ids | None \<Rightarrow> PollUpdate i t ids)
         }
   }"
| "poll_step E q (PollUpdate i t ids) = do {
     err \<leftarrow> UpdateTask E q t;
     ret (case err of Some _ \<Rightarrow> next_entry ids | None \<Rightarrow> PollAdd i t ids)
   }"
| "poll_step E q (PollAdd i t ids) = do {
     r \<leftarrow> r_xadd E (stream_of q (t_priority t)) (task_ref t);
     ret (case r of Inl _ \<Rightarrow> next_entry ids | Inr _ \<Rightarrow> PollRemove i ids)
   }"
| "poll_step E q (PollRemove i ids) = do {
     _ \<leftarrow> r_zrem E scheduledSetKey i;
     ret (next_entry ids)
   }"
| "poll_step E q PollUnlock = do { _ \<leftarrow> r_del E [schedulerLockKey]; ret PollDone }"
| "poll_step E q PollDone = ret PollDone"

text \<open>What is left of a poll as one program, in the words of \<open>Scheduler\<close>.\<close>

definition poll_rest :: "'s env \<Rightarrow> redis_queue \<Rightarrow> string list \<Rightarrow> ('s, unit) io" where
  "poll_rest E q ids = do {
     _ \<leftarrow> for_each ids (\<lambda>i. do { _ \<leftarrow> activateTask E q i; ret () });
     _ \<leftarrow> r_del E [schedulerLockKey];
     ret ()
   }"

fun poll_finish :: "'s env \<Rightarrow> redis_queue \<Rightarrow> poll_pc \<Rightarrow> ('s, unit) io" where
  "poll_finish E q PollLock = processDueTasks E q"
| "poll_finish E q PollDue = do { _ \<leftarrow> activate_due E q; _ \<leftarrow> r_del E [schedulerLockKey]; ret () }"
| "poll_finish E q (PollGet i ids) = poll_rest E q (i # ids)"
| "poll_finish E q (PollUpdate i t ids) = do {
     err \<leftarrow> UpdateTask E q t;
     case err of
       Some _ \<Rightarrow> poll_rest E q ids
     | None \<Rightarrow> do {
         r \<leftarrow> r_xadd E (stream_of q (t_priority t)) (task_ref t);
         case r of Inl _ \<Rightarrow> poll_rest E q ids
         | Inr _ \<Rightarrow> do { _ \<leftarrow> r_zrem E scheduledSetKey i; poll_rest E q ids }
       }
   }"
| "poll_finish E q (PollAdd i t ids) = do {
     r \<leftarrow> r_xadd E (stream_of q (t_priority t)) (task_ref t);
     case r of Inl _ \<Rightarrow> poll_rest E q ids
     | Inr _ \<Rightarrow> do { _ \<leftarrow> r_zrem E scheduledSetKey i; poll_rest E q ids }
   }"
| "poll_finish E q (PollRemove i ids) = do { _ \<leftarrow> r_zrem E scheduledSetKey i; poll_rest E q ids }"
| "poll_finish E q PollUnlock = poll_rest E q []"
| "poll_finish E q PollDone = ret ()"

lemma poll_finish_next [simp]: "poll_finish E q (next_entry ids) = poll_rest E q ids"
  by (cases ids) simp_all

text \<open>Taking one step and then the rest is the rest.\<close>

lemma poll_finish_step:
  assumes "run_state (poll_step E q pc) s = (pc', s')"
  shows "run_state (poll_finish E q pc) s = run_state (poll_finish E q pc') s'"
  using assms
  by (cases pc)
    (auto simp: processDueTasks_def activate_due_def poll_rest_def activateTask_def run_state_bind
      split: prod.splits sum.splits if_splits option.splits)


text \<open>The steps of one poll, up to \<open>n\<close> of them, with no other client between.\<close>

fun poll_run :: "'s env \<Rightarrow> redis_queue \<Rightarrow> nat \<Rightarrow> poll_pc \<Rightarrow> ('s, poll_pc) io" where
  "poll_run E q 0 pc = ret pc"
| "poll_run E q (Suc n) pc = do { pc \<leftarrow> poll_step E q pc; poll_run E q n pc }"

fun poll_weight :: "poll_pc \<Rightarrow> nat" where
  "poll_weight (PollGet i ids) = 4 * length ids + 5"
| "poll_weight (PollUpdate i t ids) = 4 * length ids + 4"
| "poll_weight (PollAdd i t ids) = 4 * length ids + 3"
| "poll_weight (PollRemove i ids) = 4 * length ids + 2"
| "poll_weight PollUnlock = 1"
| "poll_weight _ = 0"

fun in_loop :: "poll_pc \<Rightarrow> bool" where
  "in_loop PollLock = False"
| "in_loop PollDue = False"
| "in_loop PollDone = False"
| "in_loop pc = True"

lemma poll_weight_next [simp]: "poll_weight (next_entry ids) = 4 * length ids + 1" "in_loop (next_entry ids)"
  by (cases ids; simp)+

lemma poll_step_loop:
  assumes "run_state (poll_step E q pc) s = (pc', s')" "in_loop pc"
  shows "poll_weight pc' < poll_weight pc \<and> (in_loop pc' \<or> pc' = PollDone)"
  using assms
  by (cases pc) (auto simp: run_state_bind split: prod.splits sum.splits if_splits option.splits)

lemma poll_run_Suc:
  "run_state (poll_step E q pc) s = (pc', s') \<Longrightarrow> run_state (poll_run E q (Suc n) pc) s = run_state (poll_run E q n pc') s'"
  by (simp add: run_state_bind)

lemma poll_run_loop:
  assumes "in_loop pc"
  shows "\<exists>n. run_state (poll_run E q n pc) s = (PollDone, snd (run_state (poll_finish E q pc) s))"
  using assms
proof (induction "poll_weight pc" arbitrary: pc s rule: less_induct)
  case less
  obtain pc' s' where step: "run_state (poll_step E q pc) s = (pc', s')" by (metis prod.collapse)
  note w = poll_step_loop [OF step less.prems] and fin = poll_finish_step [OF step]
  obtain n where "run_state (poll_run E q n pc') s' = (PollDone, snd (run_state (poll_finish E q pc') s'))"
  proof (cases "in_loop pc'")
    case True
    then show ?thesis using less.hyps [OF conjunct1 [OF w] True, of s'] that by blast
  next
    case False
    then show ?thesis using w that [of 0] by simp
  qed
  then show ?case using poll_run_Suc [OF step, of n] fin by (intro exI [of _ "Suc n"]) (simp del: poll_run.simps)
qed

text \<open>
  C29: The poll taken call by call is the poll of the code: with no other client between its calls, a
  scheduler that starts by taking the lock comes to the end, and leaves the world as
  processDueTasks does.
\<close>

theorem poll_steps_are_poll:
  "\<exists>n. run_state (poll_run E q n PollLock) s = (PollDone, snd (run_state (processDueTasks E q) s))"
proof -
  obtain pc1 s1 where lock: "run_state (poll_step E q PollLock) s = (pc1, s1)" by (metis prod.collapse)
  have "pc1 = PollDue \<or> pc1 = PollDone" using lock by (auto simp: run_state_bind split: prod.splits sum.splits if_splits)
  then have "\<exists>n. run_state (poll_run E q n pc1) s1 = (PollDone, snd (run_state (poll_finish E q pc1) s1))"
  proof
    assume due: "pc1 = PollDue"
    obtain pc2 s2 where step: "run_state (poll_step E q PollDue) s1 = (pc2, s2)" by (metis prod.collapse)
    have "in_loop pc2" using step by (auto simp: run_state_bind split: prod.splits sum.splits)
    from poll_run_loop [OF this, of E q s2] obtain n where
      "run_state (poll_run E q n pc2) s2 = (PollDone, snd (run_state (poll_finish E q pc2) s2))" by blast
    then show ?thesis
      using due poll_run_Suc [OF step, of n] poll_finish_step [OF step]
      by (intro exI [of _ "Suc n"]) (simp del: poll_run.simps)
  qed (intro exI [of _ 0], simp)
  then obtain n where "run_state (poll_run E q n pc1) s1 = (PollDone, snd (run_state (poll_finish E q pc1) s1))" by blast
  then show ?thesis
    using poll_run_Suc [OF lock, of n] poll_finish_step [OF lock] by (intro exI [of _ "Suc n"]) (simp del: poll_run.simps)
qed

section \<open>Schedulers that interleave\<close>

text \<open>
  A scheduler is inside a poll when it holds the lock, or thinks so. One step of the whole: a scheduler
  makes a call, one starts its next poll, or the lock expires. In a \<open>patient\<close> world the lock outlives
  every poll, and expires only when its holder is gone.
\<close>

definition inside :: "poll_pc \<Rightarrow> bool" where
  "inside pc \<longleftrightarrow> pc \<noteq> PollLock \<and> pc \<noteq> PollDone"

definition expire_lock :: "view \<Rightarrow> view" where
  "expire_lock v = v(schedulerLockKey := None)"

inductive race :: "bool \<Rightarrow> 's env \<Rightarrow> ('s \<Rightarrow> view) \<Rightarrow> redis_queue \<Rightarrow> 's \<times> poll_pc list \<Rightarrow> 's \<times> poll_pc list \<Rightarrow> bool"
  for patient E \<alpha> q where
  race_call: "i < length pcs \<Longrightarrow> run_state (poll_step E q (pcs ! i)) s = (pc, s') \<Longrightarrow>
    race patient E \<alpha> q (s, pcs) (s', pcs[i := pc])"
| race_tick: "i < length pcs \<Longrightarrow> pcs ! i = PollDone \<Longrightarrow> race patient E \<alpha> q (s, pcs) (s, pcs[i := PollLock])"
| race_expire: "(patient \<Longrightarrow> \<forall>pc \<in> set pcs. \<not> inside pc) \<Longrightarrow> \<alpha> s' = expire_lock (\<alpha> s) \<Longrightarrow>
    race patient E \<alpha> q (s, pcs) (s', pcs)"


section \<open>At most once\<close>

text \<open>
  The references to a task in a stream, a task that an activation would start, and what the references
  may be, compared with the view \<open>v\<close> at the beginning.
\<close>

definition refs :: "view \<Rightarrow> string \<Rightarrow> string \<Rightarrow> nat" where
  "refs v i k = length (filter (\<lambda>m. ref_id m = Some i) (s_entries (strm_at v k)))"

definition startable :: "view \<Rightarrow> string \<Rightarrow> bool" where
  "startable v i \<longleftrightarrow> (\<exists>t. task_at v i = Some t \<and> t_state t \<in> {StateScheduled, StateRetrying})"

definition one_more :: "(string \<Rightarrow> nat) \<Rightarrow> (string \<Rightarrow> nat) \<Rightarrow> bool" where
  "one_more f g \<longleftrightarrow> g = f \<or> (\<exists>k. g = f(k := Suc (f k)))"

definition settled :: "view \<Rightarrow> string \<Rightarrow> view \<Rightarrow> bool" where
  "settled v0 i v \<longleftrightarrow> one_more (refs v0 i) (refs v i) \<and> (startable v i \<longrightarrow> refs v i = refs v0 i)"

text \<open>The tasks are stored under their own IDs, and the keys that are no streams hold none.\<close>

definition well_stored :: "view \<Rightarrow> bool" where
  "well_stored v \<longleftrightarrow> (\<forall>i t. task_at v i = Some t \<longrightarrow> storable t \<and> t_id t = i) \<and>
     (\<forall>i. strm_at v (taskKey i) = empty_strm) \<and>
     strm_at v scheduledSetKey = empty_strm \<and> strm_at v schedulerLockKey = empty_strm"

fun poll_ok :: "view \<Rightarrow> string \<Rightarrow> poll_pc \<Rightarrow> view \<Rightarrow> bool" where
  "poll_ok v0 x (PollUpdate i t ids) v = (settled v0 x v \<and> storable t \<and> t_id t = i \<and> t_state t = StatePending \<and>
     (i = x \<longrightarrow> refs v x = refs v0 x))"
| "poll_ok v0 x (PollAdd i t ids) v = (settled v0 x v \<and> t_id t = i \<and>
     (i = x \<longrightarrow> refs v x = refs v0 x \<and> \<not> startable v x))"
| "poll_ok v0 x pc v = settled v0 x v"

lemma poll_ok_next [simp]: "poll_ok v0 x (next_entry ids) v = settled v0 x v"
  by (cases ids) simp_all

lemma poll_ok_settled: "poll_ok v0 x pc v \<Longrightarrow> settled v0 x v"
  by (cases pc) simp_all

lemma inside_next [simp]: "inside (next_entry ids)"
  by (cases ids) (simp_all add: inside_def)

lemma refs_same: "strm_at w = strm_at v \<Longrightarrow> refs w i = refs v i"
  by (rule ext) (simp add: refs_def)

lemma startable_same: "task_at w i = task_at v i \<Longrightarrow> startable w i = startable v i"
  by (simp add: startable_def)

lemma refs_push:
  "refs (push_ref k m t v) i = (if t_id t = i then (refs v i)(k := Suc (refs v i k)) else refs v i)"
  by (rule ext) (simp add: refs_def push_ref_def strm_at_def strm_add_def)

lemma sched_rem_strm:
  assumes "well_stored v"
  shows "strm_at (sched_rem i v) = strm_at v"
  using assms by (intro ext) (auto simp: well_stored_def sched_rem_def strm_at_def empty_strm_def split: option.splits robj.splits)

lemma sched_rem_race:
  assumes "well_stored v"
  shows "well_stored (sched_rem i v)" "settled v0 x (sched_rem i v) = settled v0 x v"
    "sched_rem i v schedulerLockKey = v schedulerLockKey"
proof -
  note strm = sched_rem_strm [OF assms]
  show "well_stored (sched_rem i v)" using assms by (simp add: well_stored_def strm)
  show "settled v0 x (sched_rem i v) = settled v0 x v"
    by (simp add: settled_def refs_same [OF strm] startable_def)
  show "sched_rem i v schedulerLockKey = v schedulerLockKey" by (simp add: sched_rem_def)
qed

lemma lock_race_eqs:
  assumes "well_stored v" "\<forall>k. k \<noteq> schedulerLockKey \<longrightarrow> w k = v k" "strm_at w schedulerLockKey = empty_strm"
  shows "strm_at w = strm_at v" "task_at w i = task_at v i"
proof -
  show "strm_at w = strm_at v"
    using assms by (intro ext, rename_tac k, case_tac "k = schedulerLockKey") (auto simp: well_stored_def strm_at_def)
  show "task_at w i = task_at v i" using assms(2) by (intro task_at_cong) simp
qed

lemma lock_race:
  assumes "well_stored v" "\<forall>k. k \<noteq> schedulerLockKey \<longrightarrow> w k = v k" "strm_at w schedulerLockKey = empty_strm"
  shows "well_stored w" "settled v0 x w = settled v0 x v"
proof -
  note eqs = lock_race_eqs [OF assms]
  show "well_stored w" using assms(1) by (simp add: well_stored_def eqs)
  show "settled v0 x w = settled v0 x v"
    by (simp add: settled_def refs_same [OF eqs(1)] startable_def eqs)
qed

lemma well_stored_put:
  assumes "well_stored v" "storable t"
  shows "well_stored (put_task t ttl v)" "strm_at (put_task t ttl v) = strm_at v"
proof -
  show strm: "strm_at (put_task t ttl v) = strm_at v"
    using assms(1) by (intro ext) (auto simp: well_stored_def put_task_def strm_at_def empty_strm_def)
  show "well_stored (put_task t ttl v)" using assms by (simp add: well_stored_def strm)
qed

lemma well_stored_sched_put:
  assumes "well_stored v"
  shows "well_stored (sched_put i n v)"
proof -
  have "strm_at (sched_put i n v) = strm_at v"
    using assms by (intro ext) (auto simp: well_stored_def sched_put_def strm_at_def empty_strm_def)
  then show ?thesis using assms by (simp add: well_stored_def)
qed

lemma put_race:
  assumes "well_stored v" "storable t" "t_state t = StatePending"
  shows "well_stored (put_task t ttl v)" "refs (put_task t ttl v) = refs v"
    "startable (put_task t ttl v) x \<longleftrightarrow> x \<noteq> t_id t \<and> startable v x"
    "put_task t ttl v schedulerLockKey = v schedulerLockKey"
proof -
  show "well_stored (put_task t ttl v)" by (rule well_stored_put [OF assms(1,2)])
  show "refs (put_task t ttl v) = refs v" by (rule ext) (simp add: refs_same [OF well_stored_put(2) [OF assms(1,2)]])
  show "startable (put_task t ttl v) x \<longleftrightarrow> x \<noteq> t_id t \<and> startable v x" using assms by (simp add: startable_def)
  show "put_task t ttl v schedulerLockKey = v schedulerLockKey" by (simp add: put_task_def)
qed

lemma push_race:
  assumes "well_stored v" "queue_ok q"
  shows "well_stored (push_ref (stream_of q p) m t v)"
    "startable (push_ref (stream_of q p) m t v) = startable v"
    "push_ref (stream_of q p) m t v schedulerLockKey = v schedulerLockKey"
proof -
  have task: "task_at (push_ref (stream_of q p) m t v) i = task_at v i" for i by (rule task_at_push [OF assms(2)])
  show "well_stored (push_ref (stream_of q p) m t v)"
    using assms(1) taskKey_not_stream [OF assms(2)] by (simp add: well_stored_def task) (simp add: strm_at_def push_ref_def)
  show "startable (push_ref (stream_of q p) m t v) = startable v" by (rule ext) (simp add: startable_def task)
  show "push_ref (stream_of q p) m t v schedulerLockKey = v schedulerLockKey" by (simp add: push_ref_def)
qed

lemma settled_simps:
  assumes "well_stored v"
  shows "storable t \<Longrightarrow> t_state t = StatePending \<Longrightarrow> settled v0 x v \<Longrightarrow>
      (t_id t = x \<longrightarrow> refs v x = refs v0 x) \<Longrightarrow> settled v0 x (put_task t ttl v)"
    and "queue_ok q \<Longrightarrow> settled v0 x v \<Longrightarrow> (t_id t = x \<longrightarrow> refs v x = refs v0 x \<and> \<not> startable v x) \<Longrightarrow>
      settled v0 x (push_ref (stream_of q p) m t v)"
  using put_race [OF assms] push_race [OF assms]
  by (auto simp: settled_def refs_push one_more_def)

definition goes_on :: "view \<Rightarrow> string \<Rightarrow> poll_pc \<Rightarrow> view \<Rightarrow> bool" where
  "goes_on v0 x pc v \<longleftrightarrow> well_stored v \<and> settled v0 x v \<and> (inside pc \<longrightarrow> v schedulerLockKey \<noteq> None \<and> poll_ok v0 x pc v)"

lemma inside_simps [simp]:
  "\<not> inside PollLock" "\<not> inside PollDone" "inside PollDue" "inside (PollGet i ids)" "inside (PollUpdate i t ids)"
  "inside (PollAdd i t ids)" "inside (PollRemove i ids)" "inside PollUnlock"
  by (simp_all add: inside_def)

context redis
begin

lemma poll_step_ok:
  assumes "queue_ok q" "goes_on v0 x pc (\<alpha> s)" "inside pc"
  shows "wp (poll_step E q pc) (\<lambda>pc' s'. goes_on v0 x pc' (\<alpha> s')) s"
proof -
  have w: "well_stored (\<alpha> s)" "\<alpha> s schedulerLockKey \<noteq> None" "poll_ok v0 x pc (\<alpha> s)" "settled v0 x (\<alpha> s)"
    using assms(2,3) by (simp_all add: goes_on_def)
  note zrem = sched_rem_race [OF w(1)] and put = put_race [OF w(1)] and push = push_race [OF w(1) assms(1)]
    and settled = settled_simps [OF w(1)]
  show ?thesis
  proof (cases pc)
    case PollLock
    then show ?thesis using assms(3) by simp
  next
    case PollDue
    show ?thesis unfolding PollDue poll_step.simps wp_bind
      by (rule now_wp, rule zrange_wp) (use w in \<open>simp_all add: wp_return goes_on_def\<close>)
  next
    case (PollGet i ids)
    show ?thesis unfolding PollGet poll_step.simps wp_bind
    proof (rule GetTask_wp, goal_cases)
      case (1 t s1)
      show ?case
      proof (cases "t_state t \<noteq> StateScheduled \<and> t_state t \<noteq> StateRetrying")
        case True
        then show ?thesis using w 1 by (simp add: wp_return goes_on_def)
      next
        case False
        have t: "storable t" "t_id t = i" using w(1) 1(2) by (auto simp: well_stored_def)
        have "startable (\<alpha> s) i" using 1(2) False by (auto simp: startable_def)
        then have same: "i = x \<longrightarrow> refs (\<alpha> s) x = refs v0 x" using w(4) by (auto simp: settled_def)
        have "storable (enter_state now StatePending t)" for now using t(1) by (simp add: storable_def)
        then show ?thesis unfolding sum.case if_not_P [OF False] wp_bind
          by (intro Transition_silent) (use w t same 1 in \<open>simp_all add: wp_return goes_on_def\<close>)
      qed
    qed (use w in \<open>simp add: wp_return goes_on_def\<close>)
  next
    case (PollUpdate i t ids)
    have t: "storable t" "t_id t = i" "t_state t = StatePending" "i = x \<longrightarrow> refs (\<alpha> s) x = refs v0 x"
      using w(3) by (simp_all add: PollUpdate)
    then have "settled v0 x (put_task t ttl (\<alpha> s))" for ttl using settled(1) w(4) by blast
    then show ?thesis unfolding PollUpdate poll_step.simps wp_bind
      by (intro UpdateTask_wp) (use w t put [OF t(1,3)] in \<open>auto simp: wp_return goes_on_def\<close>)
  next
    case (PollAdd i t ids)
    have t: "t_id t = i" "i = x \<longrightarrow> refs (\<alpha> s) x = refs v0 x \<and> \<not> startable (\<alpha> s) x"
      using w(3) by (simp_all add: PollAdd)
    have "settled v0 x (push_ref (stream_of q p) m t (\<alpha> s))" for p m using settled(2) [OF assms(1)] w(4) t by blast
    then show ?thesis unfolding PollAdd poll_step.simps wp_bind
      by (intro xadd_wp) (use w t push in \<open>auto simp: wp_return goes_on_def push_ref_def\<close>)
  next
    case (PollRemove i ids)
    show ?thesis unfolding PollRemove poll_step.simps wp_bind
      by (rule zrem_frame [OF refl]) (use w zrem in \<open>auto simp: wp_return goes_on_def\<close>)
  next
    case PollUnlock
    have "well_stored (del_keys [schedulerLockKey] (\<alpha> s)) \<and> settled v0 x (del_keys [schedulerLockKey] (\<alpha> s))"
      using lock_race [OF w(1), of "del_keys [schedulerLockKey] (\<alpha> s)"] w(4)
      by (simp add: del_keys_def strm_at_def)
    then show ?thesis unfolding PollUnlock poll_step.simps wp_bind
      by (intro del_wp) (use w in \<open>auto simp: wp_return goes_on_def\<close>)
  next
    case PollDone
    then show ?thesis using assms(3) by simp
  qed
qed

lemma poll_lock_ok:
  assumes "queue_ok q" "well_stored (\<alpha> s)" "settled v0 x (\<alpha> s)"
  shows "wp (poll_step E q PollLock) (\<lambda>pc' s'. goes_on v0 x pc' (\<alpha> s') \<and>
    (\<alpha> s schedulerLockKey \<noteq> None \<longrightarrow> \<alpha> s' = \<alpha> s \<and> \<not> inside pc')) s"
proof -
  have "well_stored ((\<alpha> s)(schedulerLockKey \<mapsto> RStr d ttl)) \<and>
      settled v0 x ((\<alpha> s)(schedulerLockKey \<mapsto> RStr d ttl))" for d ttl
    using lock_race [OF assms(2), of "(\<alpha> s)(schedulerLockKey \<mapsto> RStr d ttl)"] assms(3)
    by (simp add: strm_at_def)
  then show ?thesis unfolding poll_step.simps wp_bind
    by (intro setnx_wp) (use assms in \<open>auto simp: wp_return goes_on_def split: if_splits\<close>)
qed

end

definition alone :: "poll_pc list \<Rightarrow> bool" where
  "alone pcs \<longleftrightarrow> (\<forall>i < length pcs. \<forall>j < length pcs. inside (pcs ! i) \<longrightarrow> inside (pcs ! j) \<longrightarrow> i = j)"

definition race_ok :: "('s \<Rightarrow> view) \<Rightarrow> view \<Rightarrow> string \<Rightarrow> 's \<times> poll_pc list \<Rightarrow> bool" where
  "race_ok \<alpha> v0 x c \<longleftrightarrow> well_stored (\<alpha> (fst c)) \<and> settled v0 x (\<alpha> (fst c)) \<and> alone (snd c) \<and>
     (\<forall>pc \<in> set (snd c). goes_on v0 x pc (\<alpha> (fst c)))"

lemma goes_on_outside: "\<not> inside pc \<Longrightarrow> goes_on v0 x pc v \<longleftrightarrow> well_stored v \<and> settled v0 x v"
  by (simp add: goes_on_def)

lemma alone_update:
  assumes "alone pcs" "i < length pcs" "inside pc \<Longrightarrow> inside (pcs ! i) \<or> (\<forall>p \<in> set pcs. \<not> inside p)"
  shows "alone (pcs[i := pc])"
  using assms by (auto simp: alone_def nth_list_update)

lemma alone_others: "alone pcs \<Longrightarrow> i < length pcs \<Longrightarrow> inside (pcs ! i) \<Longrightarrow> j < length pcs \<Longrightarrow> j \<noteq> i \<Longrightarrow> \<not> inside (pcs ! j)"
  by (auto simp: alone_def)

context redis
begin

lemma race_ok_step:
  assumes "race True E \<alpha> q c c'" "queue_ok q" "race_ok \<alpha> v0 x c"
  shows "race_ok \<alpha> v0 x c'"
  using assms(1)
proof (cases rule: race.cases)
  case (race_call i pcs s pc s')
  have ok: "well_stored (\<alpha> s)" "settled v0 x (\<alpha> s)" "alone pcs" "\<And>j. j < length pcs \<Longrightarrow> goes_on v0 x (pcs ! j) (\<alpha> s)"
    using assms(3) race_call(1) by (auto simp: race_ok_def)
  have main: "goes_on v0 x pc (\<alpha> s') \<and> alone (pcs[i := pc]) \<and>
      (\<forall>j < length pcs. j \<noteq> i \<longrightarrow> goes_on v0 x (pcs ! j) (\<alpha> s'))"
  proof (cases "pcs ! i = PollLock")
    case True
    have step: "goes_on v0 x pc (\<alpha> s') \<and> (\<alpha> s schedulerLockKey \<noteq> None \<longrightarrow> \<alpha> s' = \<alpha> s \<and> \<not> inside pc)"
      by (rule wp_runD [OF poll_lock_ok [OF assms(2) ok(1,2)]]) (use race_call(4) True in simp)
    show ?thesis
    proof (cases "\<alpha> s schedulerLockKey = None")
      case True
      then have "\<not> inside (pcs ! j)" if "j < length pcs" for j using ok(4) [OF that] by (auto simp: goes_on_def)
      then show ?thesis using step ok race_call(3)
        by (auto simp: goes_on_def in_set_conv_nth intro!: alone_update)
    qed (use step ok race_call(3) in \<open>auto intro!: alone_update\<close>)
  next
    case False
    show ?thesis
    proof (cases "inside (pcs ! i)")
      case True
      have step: "goes_on v0 x pc (\<alpha> s')"
        by (rule wp_runD [OF poll_step_ok [OF assms(2) ok(4) [OF race_call(3)] True] race_call(4)])
      then show ?thesis using True race_call(3) ok(3) alone_others [OF ok(3) race_call(3) True]
        by (auto simp: goes_on_outside intro!: alone_update) (simp_all add: goes_on_def)
    next
      case out: False
      then have "pcs ! i = PollDone" using False by (cases "pcs ! i") simp_all
      then show ?thesis using race_call(3,4) ok by (auto simp: run_state_return goes_on_outside intro!: alone_update)
    qed
  qed
  have "goes_on v0 x (pcs[i := pc] ! j) (\<alpha> s')" if "j < length pcs" for j
    using main that race_call(3) by (cases "j = i") simp_all
  moreover have "well_stored (\<alpha> s') \<and> settled v0 x (\<alpha> s')" using main by (simp add: goes_on_def)
  ultimately show ?thesis using main by (auto simp: race_ok_def in_set_conv_nth race_call(2))
next
  case (race_tick i pcs s)
  then show ?thesis using assms(3)
    by (auto simp: race_ok_def goes_on_outside intro!: alone_update dest!: set_update_subset_insert [THEN subsetD])
next
  case (race_expire pcs s' s)
  have "well_stored (\<alpha> s') \<and> settled v0 x (\<alpha> s')"
    using lock_race [of "\<alpha> s" "\<alpha> s'"] assms(3) race_expire
    by (simp add: race_ok_def expire_lock_def strm_at_def)
  then show ?thesis using assms(3) race_expire by (auto simp: race_ok_def goes_on_outside)
qed

end

lemma race_ok_start:
  assumes "well_stored v" "\<forall>pc \<in> set pcs. \<not> inside pc" "\<alpha> s = v"
  shows "race_ok \<alpha> v x (s, pcs)"
proof -
  have "settled v x v" by (simp add: settled_def one_more_def)
  then show ?thesis using assms by (auto simp: race_ok_def goes_on_outside alone_def)
qed

section \<open>A task that is not waiting is left alone\<close>

text \<open>Whatever the lock does, a poll adds only tasks that it has found waiting.\<close>

fun bystander :: "string \<Rightarrow> poll_pc \<Rightarrow> bool" where
  "bystander x (PollUpdate i t ids) = (i \<noteq> x \<and> storable t \<and> t_id t = i \<and> t_state t = StatePending)"
| "bystander x (PollAdd i t ids) = (i \<noteq> x \<and> t_id t = i)"
| "bystander x pc = True"

lemma bystander_next [simp]: "bystander x (next_entry ids)"
  by (cases ids) simp_all

definition untouched :: "view \<Rightarrow> string \<Rightarrow> view \<Rightarrow> bool" where
  "untouched v0 x v \<longleftrightarrow> well_stored v \<and> \<not> startable v x \<and> refs v x = refs v0 x"

lemma untouched_lock:
  assumes "untouched v0 x v" "\<forall>k. k \<noteq> schedulerLockKey \<longrightarrow> w k = v k" "strm_at w schedulerLockKey = empty_strm"
  shows "untouched v0 x w"
proof -
  have w: "well_stored v" using assms(1) by (simp add: untouched_def)
  note lock = lock_race_eqs [OF w assms(2,3)]
  show ?thesis using assms(1) lock_race(1) [OF w assms(2,3)]
    by (simp add: untouched_def refs_same [OF lock(1)] startable_def lock(2))
qed

context redis
begin

lemma poll_step_bystander:
  assumes "queue_ok q" "untouched v0 x (\<alpha> s)" "bystander x pc"
  shows "wp (poll_step E q pc) (\<lambda>pc' s'. untouched v0 x (\<alpha> s') \<and> bystander x pc') s"
proof -
  have w: "well_stored (\<alpha> s)" "\<not> startable (\<alpha> s) x" "refs (\<alpha> s) x = refs v0 x"
    using assms(2) by (simp_all add: untouched_def)
  note lock = untouched_lock [OF assms(2)]
  show ?thesis
  proof (cases pc)
    case PollLock
    show ?thesis unfolding PollLock poll_step.simps wp_bind
      by (intro setnx_wp) (use assms(2) lock in \<open>auto simp: wp_return strm_at_def split: if_splits\<close>)
  next
    case PollDue
    show ?thesis unfolding PollDue poll_step.simps wp_bind
      by (rule now_wp, rule zrange_wp) (use assms(2) in \<open>simp_all add: wp_return\<close>)
  next
    case (PollGet i ids)
    show ?thesis unfolding PollGet poll_step.simps wp_bind
    proof (rule GetTask_wp, goal_cases)
      case (1 t s1)
      show ?case
      proof (cases "t_state t \<noteq> StateScheduled \<and> t_state t \<noteq> StateRetrying")
        case True
        then show ?thesis using assms(2) 1 by (simp add: wp_return)
      next
        case False
        have t: "storable t" "t_id t = i" using w(1) 1(2) by (auto simp: well_stored_def)
        have "startable (\<alpha> s) i" using 1(2) False by (auto simp: startable_def)
        then have "i \<noteq> x" using w(2) by auto
        moreover have "storable (enter_state now StatePending t)" for now using t(1) by (simp add: storable_def)
        ultimately show ?thesis unfolding sum.case if_not_P [OF False] wp_bind
          by (intro Transition_silent) (use assms(2) t 1 in \<open>simp_all add: wp_return\<close>)
      qed
    qed (use assms(2) in \<open>simp add: wp_return\<close>)
  next
    case (PollUpdate i t ids)
    have t: "storable t" "t_id t = i" "t_state t = StatePending" "i \<noteq> x" using assms(3) by (simp_all add: PollUpdate)
    have "untouched v0 x (put_task t ttl (\<alpha> s))" for ttl
      using w(2,3) t(4) unfolding untouched_def put_race [OF w(1) t(1,3)] t(2) by (intro conjI put_race(1) w t) simp_all
    then show ?thesis unfolding PollUpdate poll_step.simps wp_bind
      by (intro UpdateTask_wp) (use assms(2) t in \<open>auto simp: wp_return\<close>)
  next
    case (PollAdd i t ids)
    have "untouched v0 x (push_ref (stream_of q p) m t (\<alpha> s))" for p m
      using push_race [OF w(1) assms(1)] w assms(3) by (simp add: untouched_def refs_push PollAdd)
    then show ?thesis unfolding PollAdd poll_step.simps wp_bind
      by (intro xadd_wp) (use assms(2) in \<open>auto simp: wp_return push_ref_def\<close>)
  next
    case (PollRemove i ids)
    have "untouched v0 x (sched_rem i (\<alpha> s))"
      using w(2,3) by (simp add: untouched_def startable_def refs_same [OF sched_rem_strm [OF w(1)]] sched_rem_race(1) [OF w(1)])
    then show ?thesis unfolding PollRemove poll_step.simps wp_bind
      by (intro zrem_frame [OF refl]) (use assms(2) in \<open>auto simp: wp_return\<close>)
  next
    case PollUnlock
    have "untouched v0 x (del_keys [schedulerLockKey] (\<alpha> s))"
      by (intro lock) (simp_all add: del_keys_def strm_at_def)
    then show ?thesis unfolding PollUnlock poll_step.simps wp_bind
      by (intro del_wp) (use assms(2) in \<open>auto simp: wp_return\<close>)
  next
    case PollDone
    then show ?thesis using assms(2) by (simp add: wp_return)
  qed
qed

lemma race_bystander:
  assumes "race patient E \<alpha> q c c'" "queue_ok q" "untouched v0 x (\<alpha> (fst c))" "\<forall>pc \<in> set (snd c). bystander x pc"
  shows "untouched v0 x (\<alpha> (fst c')) \<and> (\<forall>pc \<in> set (snd c'). bystander x pc)"
  using assms(1)
proof (cases rule: race.cases)
  case (race_call i pcs s pc s')
  have "bystander x (pcs ! i)" using assms(4) race_call(1,3) by simp
  then have "untouched v0 x (\<alpha> s') \<and> bystander x pc"
    using wp_runD [OF poll_step_bystander [OF assms(2), of v0 x s "pcs ! i"] race_call(4)] assms(3) race_call(1) by simp
  then show ?thesis using assms(4) race_call(1,2) by (auto dest!: set_update_subset_insert [THEN subsetD])
next
  case (race_tick i pcs s)
  then show ?thesis using assms(3,4) by (auto dest!: set_update_subset_insert [THEN subsetD])
next
  case (race_expire pcs s' s)
  have "untouched v0 x (\<alpha> s)" using assms(3) race_expire(1) by simp
  then have "untouched v0 x (\<alpha> s')"
    by (rule untouched_lock) (simp_all add: race_expire(4) expire_lock_def strm_at_def)
  then show ?thesis using assms(4) race_expire(1,2) by simp
qed

end

text \<open>
  C28: A task that is in no state to be started, because it was canceled, has failed, is done or is pending
  already, gains no reference in any number of polls of any number of schedulers, whatever fails and
  whenever the lock expires.
\<close>

theorem polls_leave_alone:
  assumes "redis E \<alpha>" "queue_ok q" "well_stored (\<alpha> s)" "\<forall>pc \<in> set pcs. \<not> inside pc" "\<not> startable (\<alpha> s) x"
    and "(race patient E \<alpha> q)\<^sup>*\<^sup>* (s, pcs) (s', pcs')"
  shows "refs (\<alpha> s') x = refs (\<alpha> s) x \<and> \<not> startable (\<alpha> s') x"
proof -
  have out: "bystander x pc" if "\<not> inside pc" for pc using that by (cases pc) simp_all
  have "untouched (\<alpha> s) x (\<alpha> (fst (s', pcs'))) \<and> (\<forall>pc \<in> set (snd (s', pcs')). bystander x pc)"
    using assms(6)
  proof (induction rule: rtranclp_induct)
    case base
    show ?case using assms(3-5) out by (auto simp: untouched_def)
  next
    case (step y z)
    then show ?case using redis.race_bystander [OF assms(1) _ assms(2)] by blast
  qed
  then show ?thesis by (simp add: untouched_def)
qed

text \<open>A run of the schedulers on the server in memory, as a list of what happens.\<close>

datatype act =
    Call nat
  | NextPoll nat
  | Expire

fun race_run :: "redis_queue \<Rightarrow> act list \<Rightarrow> mem \<times> poll_pc list \<Rightarrow> mem \<times> poll_pc list" where
  "race_run q [] c = c"
| "race_run q (Call i # acts) (s, pcs) = (if i < length pcs
     then (case run_state (poll_step mem_env q (pcs ! i)) s of (pc, s') \<Rightarrow> race_run q acts (s', pcs[i := pc]))
     else race_run q acts (s, pcs))"
| "race_run q (NextPoll i # acts) (s, pcs) = (if i < length pcs \<and> pcs ! i = PollDone
     then race_run q acts (s, pcs[i := PollLock]) else race_run q acts (s, pcs))"
| "race_run q (Expire # acts) (s, pcs) = race_run q acts (s\<lparr>mem_view := expire_lock (mem_view s)\<rparr>, pcs)"

lemma race_run_reaches:
  "\<not> (patient \<and> Expire \<in> set acts) \<Longrightarrow> (race patient mem_env mem_view q)\<^sup>*\<^sup>* c (race_run q acts c)"
proof (induction q acts c rule: race_run.induct)
  case (2 q i acts s pcs)
  obtain pc s' where call: "run_state (poll_step mem_env q (pcs ! i)) s = (pc, s')" by (metis prod.collapse)
  have "i < length pcs \<Longrightarrow> race patient mem_env mem_view q (s, pcs) (s', pcs[i := pc])"
    using call by (rule race_call [rotated])
  then show ?case using 2 call by (auto intro: converse_rtranclp_into_rtranclp)
next
  case (3 q i acts s pcs)
  have "i < length pcs \<Longrightarrow> pcs ! i = PollDone \<Longrightarrow> race patient mem_env mem_view q (s, pcs) (s, pcs[i := PollLock])"
    by (rule race_tick)
  then show ?case using 3 by (auto intro: converse_rtranclp_into_rtranclp)
next
  case (4 q acts s pcs)
  have "\<not> patient \<Longrightarrow> race patient mem_env mem_view q (s, pcs) (s\<lparr>mem_view := expire_lock (mem_view s)\<rparr>, pcs)"
    by (rule race_expire) simp_all
  then show ?case using 4 by (auto intro: converse_rtranclp_into_rtranclp)
qed simp

text \<open>One due task.\<close>

definition lone_mem :: mem where
  "lone_mem = snd (run_state (ScheduleTask mem_env (sample_task ''a'' PriorityHigh StateScheduled) (1 * Second)) (empty_mem []))"

context redis
begin

lemma ScheduleTask_well_stored:
  "storable t \<Longrightarrow> well_stored (\<alpha> s) \<Longrightarrow>
    wp (ScheduleTask E t scheduledAt) (\<lambda>r s'. r = None \<longrightarrow> well_stored (\<alpha> s')) s"
  unfolding ScheduleTask_eq
  by (rule ScheduleTaskFunc_wp) (simp_all add: well_stored_sched_put well_stored_put)

end

lemma lone_mem_stored: "well_stored (mem_view lone_mem)"
proof -
  let ?run = "run_state (ScheduleTask mem_env (sample_task ''a'' PriorityHigh StateScheduled) (1 * Second)) (empty_mem [])"
  have "well_stored (mem_view (empty_mem []))"
    by (simp add: well_stored_def empty_mem_def task_at_def str_at_def strm_at_def)
  moreover have "fst ?run = None" by code_simp
  ultimately show ?thesis
    using wp_runD [OF redis.ScheduleTask_well_stored [OF mem.redis_axioms], OF _ _ prod.collapse [symmetric], of _ "empty_mem []"]
    by (simp add: lone_mem_def sample_task_storable)
qed


text \<open>The lock expires while the first scheduler has read a due task.\<close>

definition overrun_acts :: "act list" where
  "overrun_acts = [Call 0, Call 0, Call 0, Expire, Call 1, Call 1, Call 1, Call 1, Call 1, Call 0, Call 0]"

text \<open>
  Nothing in the code keeps a poll shorter than the five seconds after which the lock expires, nor is
  the lock renewed: two schedulers can be inside their polls at once, and the same task then gets two
  references. Here is such a run.
\<close>

theorem overrun_duplicates:
  "\<exists>s pcs. (race False mem_env mem_view sample_queue)\<^sup>*\<^sup>* (lone_mem, [PollLock, PollLock]) (s, pcs) \<and>
     inside (pcs ! 0) \<and> inside (pcs ! 1) \<and>
     refs (mem_view lone_mem) ''a'' (stream_of sample_queue PriorityHigh) = 0 \<and>
     refs (mem_view s) ''a'' (stream_of sample_queue PriorityHigh) = 2"
proof -
  define c where "c = race_run sample_queue overrun_acts (lone_mem, [PollLock, PollLock])"
  have "(race False mem_env mem_view sample_queue)\<^sup>*\<^sup>* (lone_mem, [PollLock, PollLock]) c"
    unfolding c_def by (rule race_run_reaches) simp
  moreover have "inside (snd c ! 0)" "inside (snd c ! 1)"
    "refs (mem_view lone_mem) ''a'' (stream_of sample_queue PriorityHigh) = 0"
    "refs (mem_view (fst c)) ''a'' (stream_of sample_queue PriorityHigh) = 2"
    unfolding c_def by code_simp+
  ultimately show ?thesis by (metis prod.collapse)
qed

lemma lone_mem_refs: "refs (mem_view lone_mem) ''a'' = (\<lambda>_. 0)"
proof -
  let ?run = "run_state (ScheduleTask mem_env (sample_task ''a'' PriorityHigh StateScheduled) (1 * Second)) (empty_mem [])"
  have "fst ?run = None" by code_simp
  moreover have "fst ?run = None \<longrightarrow> refs (mem_view (snd ?run)) ''a'' = refs (mem_view (empty_mem [])) ''a''"
    unfolding redis.ScheduleTask_eq [OF mem.redis_axioms]
    by (rule wp_runD [OF redis.ScheduleTaskFunc_wp [OF mem.redis_axioms] prod.collapse [symmetric]])
      (auto simp: refs_def sched_put_def put_task_def strm_at_def empty_mem_def empty_strm_def)
  ultimately show ?thesis by (auto simp: lone_mem_def refs_def strm_at_def empty_mem_def empty_strm_def)
qed


theorem polls_leave_alone_witness:
  "refs (mem_view (fst (race_run sample_queue (overrun_acts @ overrun_acts)
     (snd (run_state (UpdateTask mem_env sample_queue (sample_task ''a'' PriorityHigh StateCanceled)) lone_mem),
      [PollLock, PollLock])))) ''a'' = (\<lambda>_. 0)"
proof -
  let ?run = "run_state (UpdateTask mem_env sample_queue (sample_task ''a'' PriorityHigh StateCanceled)) lone_mem"
  define c where "c = race_run sample_queue (overrun_acts @ overrun_acts) (snd ?run, [PollLock, PollLock])"
  have run: "(race False mem_env mem_view sample_queue)\<^sup>*\<^sup>* (snd ?run, [PollLock, PollLock]) (fst c, snd c)"
    unfolding prod.collapse unfolding c_def by (rule race_run_reaches) simp
  have queue: "queue_ok sample_queue" by code_simp
  have "well_stored (mem_view (snd ?run)) \<and> refs (mem_view (snd ?run)) ''a'' = refs (mem_view lone_mem) ''a''"
    by (rule wp_runD [OF redis.UpdateTask_wp [OF mem.redis_axioms] prod.collapse [symmetric]])
      (auto simp: refs_same [OF well_stored_put(2) [OF lone_mem_stored]] sample_task_storable
        intro!: well_stored_put lone_mem_stored)
  moreover have "refs (mem_view lone_mem) ''a'' = (\<lambda>_. 0)"
    using lone_mem_refs .
  moreover have "\<not> startable (mem_view (snd ?run)) ''a''"
  proof -
    have "task_at (mem_view (snd ?run)) ''a'' = Some (sample_task ''a'' PriorityHigh StateCanceled)" by code_simp
    then show ?thesis by (simp add: startable_def sample_task_def)
  qed
  ultimately show ?thesis
    using polls_leave_alone [OF mem.redis_axioms queue _ _ _ run, of "''a''"] by (simp add: c_def)
qed

text \<open>The due task, and a connection that is lost at the fifth call.\<close>

definition lost_xadd_mem :: mem where
  "lost_xadd_mem = lone_mem\<lparr>mem_faults := [Works, Works, Works, Works, Lost]\<rparr>"

text \<open>
  An activation that stores the task as pending and then cannot add its reference is not taken up
  again: the entry stays for the next poll, which finds the task pending, takes it for handled and
  removes the entry. The task is then pending, in no stream and in no set.
\<close>

theorem activation_lost:
  "let once = snd (run_state (processDueTasks mem_env sample_queue) lost_xadd_mem);
       twice = snd (run_state (processDueTasks mem_env sample_queue) once) in
   mem_faults once = [] \<and> scheduled (mem_view once) = {(''a'', 1)} \<and>
   scheduled (mem_view twice) = {} \<and>
   map_option t_state (task_at (mem_view twice) ''a'') = Some StatePending \<and>
   map (\<lambda>p. refs (mem_view twice) ''a'' (stream_of sample_queue p)) priorities = [0, 0, 0, 0]"

proof -
  define once where "once = snd (run_state (processDueTasks mem_env sample_queue) lost_xadd_mem)"
  define twice where "twice = snd (run_state (processDueTasks mem_env sample_queue) once)"
  have "mem_faults once = []" "zset_at (mem_view once) scheduledSetKey = [(''a'', 1)]" unfolding once_def by code_simp+
  moreover have "zset_at (mem_view twice) scheduledSetKey = []"
    "map_option t_state (task_at (mem_view twice) ''a'') = Some StatePending"
    unfolding twice_def once_def by code_simp+
  moreover have "map (\<lambda>p. refs (mem_view twice) ''a'' (stream_of sample_queue p)) priorities = [0, 0, 0, 0]"
    unfolding twice_def once_def by code_simp
  ultimately show ?thesis unfolding Let_def once_def [symmetric] twice_def [symmetric] by (simp add: scheduled_def)
qed

end
