(* ===== verification/QueueSpec.thy ===== *)
theory QueueSpec
  imports RedisQueue
begin

text \<open>
  The queue of \<open>RedisQueue\<close> against an abstract one: a list of task IDs for each priority.
\<close>

section \<open>The abstract queue\<close>

type_synonym abs_queue = "priority \<Rightarrow> string list"

datatype qop =
    Put task
  | Take

text \<open>
  Putting appends. Taking gives the first of the highest priority that has any; the first of every other
  priority leaves the lists with it.
\<close>

fun abs_op :: "qop \<Rightarrow> abs_queue \<Rightarrow> (string option \<times> abs_queue) option" where
  "abs_op (Put t) a = Some (None, a(t_priority t := a (t_priority t) @ [t_id t]))"
| "abs_op Take a = (case find (\<lambda>p. a p \<noteq> []) priorities of
     None \<Rightarrow> None
   | Some p \<Rightarrow> Some (Some (hd (a p)), tl \<circ> a))"

fun abs_ops :: "qop list \<Rightarrow> abs_queue \<Rightarrow> (string option list \<times> abs_queue) option" where
  "abs_ops [] a = Some ([], a)"
| "abs_ops (op # ops) a = (case abs_op op a of
     None \<Rightarrow> None
   | Some (out, a) \<Rightarrow> map_option (\<lambda>(outs, a). (out # outs, a)) (abs_ops ops a))"

section \<open>The queue of the code\<close>

text \<open>An operation that succeeds gives \<open>Some\<close>; one that fails, or a read that finds nothing, ends the run.\<close>

fun queue_op :: "'s env \<Rightarrow> redis_queue \<Rightarrow> string \<Rightarrow> qop \<Rightarrow> ('s, string option option) io" where
  "queue_op E q c (Put t) = do {
     err \<leftarrow> Enqueue E q t;
     ret (case err of None \<Rightarrow> Some None | Some _ \<Rightarrow> None)
   }"
| "queue_op E q c Take = do {
     r \<leftarrow> DequeueBlocking E q c;
     ret (case r of Inr (Some (t, _)) \<Rightarrow> Some (Some (t_id t)) | _ \<Rightarrow> None)
   }"

fun queue_ops :: "'s env \<Rightarrow> redis_queue \<Rightarrow> string \<Rightarrow> qop list \<Rightarrow> ('s, string option list option) io" where
  "queue_ops E q c [] = ret (Some [])"
| "queue_ops E q c (op # ops) = do {
     out \<leftarrow> queue_op E q c op;
     case out of
       None \<Rightarrow> ret None
     | Some out \<Rightarrow> do { outs \<leftarrow> queue_ops E q c ops; ret (map_option ((#) out) outs) }
   }"

section \<open>The refinement\<close>

definition abs_of :: "redis_queue \<Rightarrow> view \<Rightarrow> abs_queue" where
  "abs_of q v = (\<lambda>p. if p \<in> set priorities then map (the \<circ> ref_id) (next_refs q v p) else [])"

definition has_groups :: "redis_queue \<Rightarrow> priority list \<Rightarrow> view \<Rightarrow> bool" where
  "has_groups q ps v \<longleftrightarrow> (\<forall>p \<in> set ps. group_at (strm_at v (stream_of q p)) (consumerGroup q) \<noteq> None)"

text \<open>The streams have their groups, and every waiting reference names a task that is stored under its ID.\<close>

definition sound :: "redis_queue \<Rightarrow> view \<Rightarrow> bool" where
  "sound q v \<longleftrightarrow> has_groups q priorities v \<and>
     (\<forall>p \<in> set priorities. \<forall>m \<in> set (next_refs q v p). \<exists>t. ref_id m = Some (t_id t) \<and> task_at v (t_id t) = Some t)"

lemma soundD:
  assumes "sound q v" "p \<in> set priorities" "m \<in> set (next_refs q v p)"
  obtains t :: task where "ref_id m = Some (t_id t)" "task_at v (t_id t) = Some t"
  using assms that by (auto simp: sound_def)

lemma soundI:
  assumes "has_groups q priorities v"
    and "\<And>p m. p \<in> set priorities \<Longrightarrow> m \<in> set (next_refs q v p) \<Longrightarrow>
      \<exists>t. ref_id m = Some (t_id t) \<and> task_at v (t_id t) = Some t"
  shows "sound q v"
  using assms by (simp add: sound_def)

definition puttable :: "qop \<Rightarrow> bool" where
  "puttable op = (case op of Put t \<Rightarrow> storable t \<and> t_priority t \<in> set priorities | Take \<Rightarrow> True)"

lemma sound_put:
  assumes "queue_ok q" "sound q v" "storable t" "t_priority t \<in> set priorities"
    and w: "w = push_ref (stream_of q (t_priority t)) m t (put_task t 0 v)"
  shows "sound q w" "abs_of q w = (abs_of q v)(t_priority t := abs_of q v (t_priority t) @ [t_id t])"
proof -
  let ?p = "t_priority t"
  have g: "group_at (strm_at v (stream_of q ?p)) (consumerGroup q) \<noteq> None"
    using assms(2,4) by (simp add: sound_def has_groups_def)
  have other: "next_refs q w p' = next_refs q v p'" if "p' \<in> set priorities" "p' \<noteq> ?p" for p'
    unfolding w using that stream_of_inj [OF that(1) assms(4), of q] by (intro next_refs_push(2) [OF assms(1) g]) simp
  have own: "next_refs q w ?p = next_refs q v ?p @ [\<lparr>m_id = m, m_values = task_ref t\<rparr>]"
    unfolding w by (rule next_refs_push(1) [OF assms(1) g])
  show "abs_of q w = (abs_of q v)(?p := abs_of q v ?p @ [t_id t])"
    by (rule ext) (auto simp: abs_of_def own other assms(4))
  have strm: "strm_at (put_task t 0 v) (stream_of q p') = strm_at v (stream_of q p')" for p'
    using taskKey_not_stream [OF assms(1)] by (simp add: put_task_def)
  have "has_groups q priorities w"
    using assms(2) unfolding w by (auto simp: sound_def has_groups_def push_ref_def strm)
  moreover have task: "task_at w i = (if i = t_id t then Some (stored t) else task_at v i)" for i
    unfolding w task_at_push [OF assms(1)] using assms(3) by simp
  have "\<exists>u. ref_id x = Some (t_id u) \<and> task_at w (t_id u) = Some u"
    if p: "p' \<in> set priorities" and x: "x \<in> set (next_refs q w p')" for p' x
  proof (cases "x \<in> set (next_refs q v p')")
    case True
    obtain u :: task where u: "ref_id x = Some (t_id u)" "task_at v (t_id u) = Some u"
      by (rule soundD [OF assms(2) p True])
    show ?thesis
    proof (cases "t_id u = t_id t")
      case True
      then show ?thesis using u(1) by (intro exI [of _ "stored t"]) (simp add: task)
    next
      case False
      then show ?thesis using u by (intro exI [of _ u]) (simp add: task)
    qed
  next
    case False
    then have "p' = ?p" using other [OF p] x by metis
    then have "x = \<lparr>m_id = m, m_values = task_ref t\<rparr>" using False x own by auto
    then show ?thesis by (intro exI [of _ "stored t"]) (simp add: task)
  qed
  ultimately show "sound q w" by (intro soundI) auto
qed

lemma group_delivered:
  "group_at x g \<noteq> None \<Longrightarrow> group_at (strm_deliver h c n x) g \<noteq> None"
  by (simp add: strm_deliver_def)

lemma sound_take:
  assumes "sound q v"
  shows "sound q (deliver_heads q c v)" "abs_of q (deliver_heads q c v) = tl \<circ> abs_of q v"
proof -
  let ?w = "deliver_heads q c v"
  have refs: "next_refs q ?w p = tl (next_refs q v p)" if "p \<in> set priorities" for p
  proof (cases "next_refs q v p = []")
    case True
    then show ?thesis
      by (simp add: next_refs_def deliver_heads_def deliver_all_def strm_at_def)
  qed (rule deliver_heads_refs(1) [OF that])
  show "abs_of q ?w = tl \<circ> abs_of q v"
    by (rule ext) (simp add: abs_of_def refs map_tl)
  have "has_groups q priorities ?w"
    using assms group_delivered
    by (auto simp: sound_def has_groups_def deliver_heads_def deliver_all_def strm_at_def)
  moreover have "\<exists>t. ref_id m = Some (t_id t) \<and> task_at ?w (t_id t) = Some t"
    if p: "p \<in> set priorities" and m: "m \<in> set (next_refs q ?w p)" for p m
  proof -
    have "m \<in> set (next_refs q v p)" using m refs [OF p] by (cases "next_refs q v p") auto
    then obtain t :: task where "ref_id m = Some (t_id t)" "task_at v (t_id t) = Some t"
      by (rule soundD [OF assms p])
    then show ?thesis by (intro exI [of _ t]) simp
  qed
  ultimately show "sound q ?w" by (rule soundI)
qed

lemma abs_first:
  assumes "first_ready q v = Some p" "sound q v"
  shows "find (\<lambda>p. abs_of q v p \<noteq> []) priorities = Some p" "p \<in> set priorities"
    "ref_id (hd (next_refs q v p)) = Some (hd (abs_of q v p))"
proof -
  have p: "next_refs q v p \<noteq> []" "p \<in> set priorities" using first_readyD [OF assms(1)] by simp_all
  then show "p \<in> set priorities" by simp
  have "find (\<lambda>p. abs_of q v p \<noteq> []) ps = find (\<lambda>p. next_refs q v p \<noteq> []) ps" if "set ps \<subseteq> set priorities" for ps
    using that by (induction ps) (auto simp: abs_of_def)
  then show "find (\<lambda>p. abs_of q v p \<noteq> []) priorities = Some p" using assms(1) by (simp add: first_ready_def)
  obtain t :: task where "ref_id (hd (next_refs q v p)) = Some (t_id t)"
    by (rule soundD [OF assms(2) p(2) hd_in_set [OF p(1)]])
  then show "ref_id (hd (next_refs q v p)) = Some (hd (abs_of q v p))" using p by (simp add: abs_of_def hd_map)
qed

context redis
begin

lemma queue_op_refines:
  assumes "queue_ok q" "sound q (\<alpha> s)" "puttable op"
  shows "wp (queue_op E q c op) (\<lambda>r s'. \<forall>out. r = Some out \<longrightarrow>
    sound q (\<alpha> s') \<and> abs_op op (abs_of q (\<alpha> s)) = Some (out, abs_of q (\<alpha> s'))) s"
proof (cases op)
  case (Put t)
  then have t: "storable t" "t_priority t \<in> set priorities" using assms(3) by (simp_all add: puttable_def)
  show ?thesis unfolding Put queue_op.simps wp_bind
    by (rule Enqueue_wp) (auto simp: wp_return sound_put [OF assms(1,2) t])
next
  case Take
  show ?thesis unfolding Take queue_op.simps wp_bind
  proof (rule DequeueBlocking_wp, goal_cases)
    case (4 p i t s')
    note first = abs_first [OF 4(1) assms(2)]
    have "hd (next_refs q (\<alpha> s) p) \<in> set (next_refs q (\<alpha> s) p)" using first_readyD [OF 4(1)] by simp
    then have "t_id t = i" using assms(2) first(2) 4(2,3) by (fastforce simp: sound_def)
    then show ?case using first 4(2,4) sound_take [OF assms(2)] by (simp add: wp_return)
  qed (simp_all add: wp_return)
qed

lemma queue_ops_refines:
  assumes "queue_ok q" "sound q (\<alpha> s)" "\<forall>op \<in> set ops. puttable op"
  shows "wp (queue_ops E q c ops) (\<lambda>r s'. \<forall>outs. r = Some outs \<longrightarrow>
    abs_ops ops (abs_of q (\<alpha> s)) = Some (outs, abs_of q (\<alpha> s'))) s"
  using assms(2,3)
proof (induction ops arbitrary: s)
  case (Cons op ops)
  have "puttable op" "\<forall>op \<in> set ops. puttable op" using Cons.prems(2) by simp_all
  show ?case unfolding queue_ops.simps wp_bind
  proof (rule wp_mono [OF queue_op_refines [OF assms(1) Cons.prems(1) \<open>puttable op\<close>]], goal_cases)
    case (1 r s1)
    show ?case
    proof (cases r)
      case (Some out)
      then have s1: "sound q (\<alpha> s1)" "abs_op op (abs_of q (\<alpha> s)) = Some (out, abs_of q (\<alpha> s1))" using 1 by simp_all
      show ?thesis unfolding Some option.case wp_bind
        by (rule wp_mono [OF Cons.IH [OF s1(1) \<open>\<forall>op \<in> set ops. puttable op\<close>]]) (auto simp: wp_return s1(2))
    qed (simp add: wp_return)
  qed
qed (simp add: wp_return)

end

text \<open>
  C10: The queue refines the abstract one: a run of enqueues and reads that all succeed, on streams whose
  waiting references name stored tasks, gives the IDs that the abstract queue gives and ends in the
  state that the abstract queue ends in.
\<close>

theorem queue_refines:
  assumes "redis E \<alpha>" "queue_ok q" "sound q (\<alpha> s)" "\<forall>op \<in> set ops. puttable op"
    and "run_state (queue_ops E q c ops) s = (Some outs, s')"
  shows "abs_ops ops (abs_of q (\<alpha> s)) = Some (outs, abs_of q (\<alpha> s'))"
  using wp_runD [OF redis.queue_ops_refines [OF assms(1-4)] assms(5)] by simp

theorem queue_refines_witness:
  "abs_ops [Put (sample_task ''a'' PriorityLow StatePending), Put (sample_task ''b'' PriorityHigh StatePending),
     Put (sample_task ''c'' PriorityHigh StatePending), Take, Take] (abs_of sample_queue (mem_view sample_mem)) =
   Some ([None, None, None, Some ''b'', Some ''c''], abs_of sample_queue (mem_view (snd (run_state
     (queue_ops mem_env sample_queue ''w'' [Put (sample_task ''a'' PriorityLow StatePending),
       Put (sample_task ''b'' PriorityHigh StatePending), Put (sample_task ''c'' PriorityHigh StatePending), Take, Take])
     sample_mem))))"
proof (rule queue_refines [OF mem.redis_axioms])
  show "queue_ok sample_queue" by code_simp
  have "\<forall>p \<in> set priorities. next_refs sample_queue (mem_view sample_mem) p = []"
    "\<forall>p \<in> set priorities. group_at (strm_at (mem_view sample_mem) (stream_of sample_queue p)) (consumerGroup sample_queue) \<noteq> None"
    by code_simp+
  then show "sound sample_queue (mem_view sample_mem)" by (simp add: sound_def has_groups_def)
  show "\<forall>op \<in> set [Put (sample_task ''a'' PriorityLow StatePending), Put (sample_task ''b'' PriorityHigh StatePending),
     Put (sample_task ''c'' PriorityHigh StatePending), Take, Take]. puttable op"
    using sample_task_storable by (simp add: puttable_def priorities_def) (simp add: sample_task_def)
  show "run_state (queue_ops mem_env sample_queue ''w'' [Put (sample_task ''a'' PriorityLow StatePending),
       Put (sample_task ''b'' PriorityHigh StatePending), Put (sample_task ''c'' PriorityHigh StatePending), Take, Take])
     sample_mem = (Some [None, None, None, Some ''b'', Some ''c''], snd (run_state
     (queue_ops mem_env sample_queue ''w'' [Put (sample_task ''a'' PriorityLow StatePending),
       Put (sample_task ''b'' PriorityHigh StatePending), Put (sample_task ''c'' PriorityHigh StatePending), Take, Take])
     sample_mem))"
    by (rule run_fstI) code_simp
qed

section \<open>A read that loses a task\<close>

text \<open>
  A reference whose task cannot be read is acknowledged as that of a deleted task, whatever the error
  was. When only the connection failed, the task is still stored as pending, but no reference to it
  waits or is pending any more.
\<close>

definition read_error_mem :: mem where
  "read_error_mem = (enqueue_all [sample_task ''a'' PriorityHigh StatePending] sample_mem)\<lparr>mem_faults := [Works, Lost]\<rparr>"

lemma read_error_drops:
  "fst (run_state (DequeueBlocking mem_env sample_queue ''w'') read_error_mem) = Inr None"
  "map_option t_state (task_at (mem_view (snd (run_state (DequeueBlocking mem_env sample_queue ''w'') read_error_mem))) ''a'') =
     Some StatePending"
  "next_refs sample_queue (mem_view (snd (run_state (DequeueBlocking mem_env sample_queue ''w'') read_error_mem))) PriorityHigh = []"
  "pending_refs sample_queue (mem_view (snd (run_state (DequeueBlocking mem_env sample_queue ''w'') read_error_mem))) PriorityHigh = []"
  by code_simp+

end
