(* ===== verification/WorkLoop.thy ===== *)
theory WorkLoop
  imports Worker
begin

text \<open>
  A worker goroutine over several tasks: the rest of the world that a run leaves alone, and the
  queue it empties.
\<close>

section \<open>What a run leaves alone\<close>

text \<open>
  What running task \<open>i\<close> keeps: the other tasks, the references not handed out yet, and everything
  that the scheduled set and the dead letter queue hold. Nothing becomes pending.
\<close>

definition kept_by :: "redis_queue \<Rightarrow> string \<Rightarrow> view \<Rightarrow> view \<Rightarrow> bool" where
  "kept_by q i v w \<longleftrightarrow> keys_ok q w \<and>
     (\<forall>j. j \<noteq> i \<longrightarrow> task_at w j = task_at v j) \<and>
     (\<forall>p. next_refs q w p = next_refs q v p \<and> set (pending_refs q w p) \<subseteq> set (pending_refs q v p)) \<and>
     fst ` scheduled v \<subseteq> fst ` scheduled w \<and>
     set (set_at v dlqSetName) \<subseteq> set (set_at w dlqSetName) \<and> set (dlq_entries v) \<subseteq> set (dlq_entries w) \<and>
     (\<forall>n. w (pauseKey_of n) = v (pauseKey_of n))"

lemma set_names [simp]:
  "dlqStreamName \<noteq> scheduledSetKey" "scheduledSetKey \<noteq> dlqStreamName"
  "dlqSetName \<noteq> scheduledSetKey" "scheduledSetKey \<noteq> dlqSetName"
  "dlqStreamName \<noteq> dlqSetName" "dlqSetName \<noteq> dlqStreamName"
  by (simp_all add: dlqStreamName_def scheduledSetKey_def dlqSetName_def)

lemma pause_keys [simp]:
  "pauseKey_of n \<noteq> scheduledSetKey" "pauseKey_of n \<noteq> dlqStreamName" "pauseKey_of n \<noteq> dlqSetName"
  "pauseKey_of n \<noteq> taskKey i" "pauseKey_of n \<noteq> stream_of q p"
  using stream_not_key [of "pauseKey_of n" q p]
  by (simp_all add: pauseKey_of_def workerKeyPrefix_def scheduledSetKey_def dlqStreamName_def dlqSetName_def taskKey_def)

lemma pause_frame [simp]:
  "put_task t ttl v (pauseKey_of n) = v (pauseKey_of n)" "sched_put i at2 v (pauseKey_of n) = v (pauseKey_of n)"
  "dlq_put m t r a v (pauseKey_of n) = v (pauseKey_of n)"
  "ack_msg (stream_of q p) g mid v (pauseKey_of n) = v (pauseKey_of n)"
  by (simp_all add: put_task_def sched_put_def dlq_put_def ack_msg_def)

lemma kept_by_refl: "keys_ok q v \<Longrightarrow> kept_by q i v v"
  by (simp add: kept_by_def)

lemma kept_by_keys: "kept_by q i v w \<Longrightarrow> keys_ok q w"
  by (simp add: kept_by_def)

lemma kept_by_put:
  assumes "queue_ok q" "kept_by q (t_id t) v w" "storable t"
  shows "kept_by q (t_id t) v (put_task t ttl w)"
proof -
  have streams: "strm_at (put_task t ttl w) (stream_of q p) = strm_at w (stream_of q p)" for p
    using taskKey_not_stream [OF assms(1)] by (simp add: put_task_def)
  have "dlq_entries (put_task t ttl w) = dlq_entries w" "set_at (put_task t ttl w) dlqSetName = set_at w dlqSetName"
    by (auto intro!: dlq_entries_cong simp: put_task_def set_at_def)
  then show ?thesis using assms keys_ok_put [OF assms(1)]
    by (simp add: kept_by_def next_refs_def pending_refs_def streams)
qed

lemma kept_by_sched:
  assumes "kept_by q i v w"
  shows "kept_by q i v (sched_put i n w)"
proof -
  have streams: "strm_at (sched_put i n w) (stream_of q p) = strm_at w (stream_of q p)" for p
    by (simp add: sched_put_def)
  have "dlq_entries (sched_put i n w) = dlq_entries w" "set_at (sched_put i n w) dlqSetName = set_at w dlqSetName"
    by (auto intro!: dlq_entries_cong simp: sched_put_def set_at_def)
  moreover have "keys_ok q (sched_put i n w)"
    using assms by (auto simp: kept_by_def keys_ok_def sched_put_def strm_ok_def set_ok_def zset_ok_def)
  moreover have "fst ` scheduled w \<subseteq> fst ` scheduled (sched_put i n w)" by auto
  ultimately show ?thesis using assms
    by (auto simp: kept_by_def next_refs_def pending_refs_def streams)
qed

lemma kept_by_dlq:
  assumes "kept_by q i v w" "storable t"
  shows "kept_by q i v (dlq_put m t r a w)"
proof -
  have streams: "strm_at (dlq_put m t r a w) (stream_of q p) = strm_at w (stream_of q p)" for p
    by (simp add: dlq_put_def)
  have "scheduled (dlq_put m t r a w) = scheduled w" by (rule scheduled_cong) (simp add: dlq_put_def)
  moreover have "set (set_at w dlqSetName) \<subseteq> set (set_at (dlq_put m t r a w) dlqSetName)"
    by (auto simp: dlq_put_def set_at_def)
  moreover have "keys_ok q (dlq_put m t r a w)"
    using assms by (auto simp: kept_by_def keys_ok_def dlq_put_def strm_ok_def set_ok_def zset_ok_def)
  ultimately show ?thesis using assms
    by (auto simp: kept_by_def next_refs_def pending_refs_def streams dlq_entries_put)
qed

lemma kept_by_ack:
  assumes "queue_ok q" "kept_by q i v w"
  shows "kept_by q i v (ack_msg (stream_of q p) (consumerGroup q) mid w)"
proof -
  let ?w = "ack_msg (stream_of q p) (consumerGroup q) mid w"
  have "next_refs q ?w p' = next_refs q w p' \<and> set (pending_refs q ?w p') \<subseteq> set (pending_refs q w p')" for p'
    by (auto simp: next_refs_def pending_refs_def ack_msg_def)
  moreover have "keys_ok q ?w"
    using assms(2) by (auto simp: kept_by_def keys_ok_def ack_msg_def strm_ok_def set_ok_def zset_ok_def)
  ultimately show ?thesis using assms by (fastforce simp: kept_by_def task_at_ack)
qed

context redis_up
begin

lemma handleTaskSuccess_keeps:
  assumes "U s" "queue_ok (pl_queue p)" "kept_by (pl_queue p) (t_id t) v (\<alpha> s)" "storable t" "gmap_ok result"
    "t_state t = StateRunning"
  shows "wp (handleTaskSuccess E p t mid result d)
    (\<lambda>_ s'. U s' \<and> kept_by (pl_queue p) (t_id t) v (\<alpha> s')) s"
proof -
  let ?q = "pl_queue p" and ?t = "\<lambda>now. (enter_state now StateCompleted t)\<lparr>t_result := result, t_error := ''''\<rparr>"
  have st: "storable (?t now)" for now using assms(4,5) by (simp add: storable_def)
  have put: "kept_by ?q (t_id t) v (put_task (?t now) ttl (\<alpha> s))" for now ttl
    using kept_by_put [OF assms(2), of "?t now" v "\<alpha> s"] st assms(3) by simp
  show ?thesis
    unfolding handleTaskSuccess_def Complete_def wp_bind
    by (rule Transition_up [OF assms(1)])
      (use assms(2,6) put st kept_by_ack [OF assms(2) put] keys_okD(1) [OF kept_by_keys [OF assms(3)]]
        in \<open>auto simp: wp_eqs Let_def recorders table
          intro!: UpdateTask_up Acknowledge_up record_up publishTaskEvent_up\<close>)
qed

lemma retry_later_keeps:
  assumes "U s" "queue_ok (pl_queue p)" "kept_by (pl_queue p) (t_id t) v (\<alpha> s)" "storable t"
    "t_state t = StateRunning" "CanRetry t"
  shows "wp (retry_later E p t mid err d) (\<lambda>_ s'. U s' \<and> kept_by (pl_queue p) (t_id t) v (\<alpha> s')) s"
proof -
  let ?q = "pl_queue p"
  let ?t = "\<lambda>m now now' at'. (enter_state now' StateRetrying ((enter_state now StateFailed t)\<lparr>t_error := m\<rparr>))
    \<lparr>t_scheduled_at := Some at'\<rparr>"
  have st: "storable (?t m now now' at')" for m now now' at' using assms(4) by (simp add: storable_def)
  have can: "CanRetry ((enter_state now StateFailed t)\<lparr>t_error := m\<rparr>)" for m now
    using assms(6) by (simp add: CanRetry_def)
  have put: "kept_by ?q (t_id t) v (put_task (?t m now now' at') ttl w)"
    if "kept_by ?q (t_id t) v w" for m now now' at' ttl w
    using kept_by_put [OF assms(2), of "?t m now now' at'" v w] st that by simp
  note keys = keys_okD [OF kept_by_keys [OF assms(3)]]
  show ?thesis
    unfolding retry_later_def Fail_def NewRetryer_def Let_def wp_bind
    by (rule Transition_up [OF assms(1)])
      (use assms(2,3,5) st keys put kept_by_ack [OF assms(2)] kept_by_sched in \<open>auto simp: wp_eqs recorders table
        intro!: ScheduleRetry_up can UpdateTask_up ScheduleTaskFunc_up Acknowledge_up record_up now_up
          publishTaskEvent_up\<close>)
qed

lemma give_up_keeps:
  assumes "U s" "queue_ok (pl_queue p)" "kept_by (pl_queue p) (t_id t) v (\<alpha> s)" "storable t"
    "t_state t = StateRunning"
  shows "wp (give_up E p t mid err d) (\<lambda>_ s'. U s' \<and> kept_by (pl_queue p) (t_id t) v (\<alpha> s')) s"
proof -
  let ?q = "pl_queue p" and ?t = "\<lambda>now. (enter_state now StateFailed t)\<lparr>t_error := error_text err\<rparr>"
  have st: "storable (?t now)" for now using assms(4) by (simp add: storable_def)
  have put: "kept_by ?q (t_id t) v (put_task (?t now) ttl (\<alpha> s))" for now ttl
    using kept_by_put [OF assms(2), of "?t now" v "\<alpha> s"] st assms(3) by simp
  have dlq: "kept_by ?q (t_id t) v (dlq_put m (dead now' (?t now)) r a (put_task (?t now) ttl (\<alpha> s)))"
    for now now' ttl m r a
    by (rule kept_by_dlq [OF put storable_dead [OF st]])
  note keys = keys_okD [OF kept_by_keys [OF assms(3)]]
  show ?thesis
    unfolding give_up_def Fail_def Let_def wp_bind
    by (rule Transition_up [OF assms(1)])
      (use assms(2,5) st keys dlq kept_by_ack [OF assms(2) dlq] in \<open>auto simp: wp_eqs recorders table
        intro!: UpdateTask_up DLQ_Add_up Acknowledge_up record_up publishTaskEvent_up\<close>)
qed

end

context redis_up
begin

text \<open>The outcome of an execution, with what the two ways of handling it keep.\<close>

lemma run_started_keeps:
  assumes "U s" and q: "queue_ok (pl_queue p)" "kept_by (pl_queue p) (t_id t) v (\<alpha> s)"
    and t: "storable t" "t_state t = StateRunning"
    and ex: "quiet \<alpha> (pl_executor p)" "calm U (pl_executor p)" "encodable (pl_executor p)"
  shows "wp (run_started E p cx t mid) (\<lambda>_ s'. U s' \<and> kept_by (pl_queue p) (t_id t) v (\<alpha> s')) s"
proof -
  let ?Q = "\<lambda>_ s'. U s' \<and> kept_by (pl_queue p) (t_id t) v (\<alpha> s')"
  let ?after = "\<lambda>start r. do { stop \<leftarrow> e_now E; case r of
        Inl execErr \<Rightarrow> do { _ \<leftarrow> handleTaskFailure E p t mid execErr (stop - start); ret None }
      | Inr result \<Rightarrow> handleTaskSuccess E p t mid result (stop - start) }"
  have after: "wp (?after start r) ?Q s1"
    if s1: "U s1" "kept_by (pl_queue p) (t_id t) v (\<alpha> s1)" and r: "\<forall>m. r = Inr m \<longrightarrow> gmap_ok m" for start r s1
    unfolding wp_bind
  proof (rule now_up [OF s1(1)])
    fix stop s2 assume "U s2" "\<alpha> s2 = \<alpha> s1"
    then have s2: "U s2" "kept_by (pl_queue p) (t_id t) v (\<alpha> s2)" using s1 by simp_all
    show "wp (case r of Inl execErr \<Rightarrow> do { _ \<leftarrow> handleTaskFailure E p t mid execErr (stop - start); ret None }
      | Inr result \<Rightarrow> handleTaskSuccess E p t mid result (stop - start)) ?Q s2"
    proof (cases r)
      case (Inl e)
      then show ?thesis unfolding handleTaskFailure_def
        by (auto simp: wp_bind wp_if wp_return
          intro: wp_mono [OF retry_later_keeps [OF s2(1) q(1) s2(2) t]] wp_mono [OF give_up_keeps [OF s2(1) q(1) s2(2) t]])
    next
      case (Inr m)
      then show ?thesis using r handleTaskSuccess_keeps [OF s2(1) q(1) s2(2) t(1) _ t(2)] by simp
    qed
  qed
  have execute: "wp (Execute (pl_executor p) cx t) (\<lambda>r. wp (?after start r) ?Q) s1"
    if s1: "U s1" "kept_by (pl_queue p) (t_id t) v (\<alpha> s1)" for start s1
  proof (rule wp_mono [OF wp_conj [OF Execute_encodable [OF ex(3)]]])
    show "gmap_ok (t_payload t)" using t(1) by (simp add: storable_def)
    show "wp (Execute (pl_executor p) cx t) (\<lambda>r s2. U s2 \<and> \<alpha> s2 = \<alpha> s1) s1"
      by (rule Execute_up [OF ex(1,2) s1(1)]) simp
  qed (use s1 after in auto)
  have start: "wp (publishTaskEvent E p EventTaskStarted t []) (\<lambda>_. wp (e_now E) (\<lambda>start.
      wp (Execute (pl_executor p) cx t) (\<lambda>r. wp (?after start r) ?Q))) s1"
    if s1: "U s1" "kept_by (pl_queue p) (t_id t) v (\<alpha> s1)" for s1
    by (rule publishTaskEvent_up [OF s1(1)], rule now_up, assumption, rule execute) (use s1 in simp_all)
  show ?thesis unfolding run_started_def Let_def wp_bind
    by (rule UpdateTask_up [OF assms(1) t(1)])
      (use start [unfolded wp_bind] kept_by_put [OF q t(1)] in simp)
qed

lemma run_task_keeps:
  assumes "U s" and q: "queue_ok (pl_queue p)" "keys_ok (pl_queue p) (\<alpha> s)" and t: "storable t"
    and can: "CanTransitionTo (t_state t) StateRunning"
    and ex: "quiet \<alpha> (pl_executor p)" "calm U (pl_executor p)" "encodable (pl_executor p)"
  shows "wp (run_task E p cx t mid) (\<lambda>_ s'. U s' \<and> kept_by (pl_queue p) (t_id t) (\<alpha> s) (\<alpha> s')) s"
proof -
  let ?t = "\<lambda>now now'. (enter_state now StateRunning t)\<lparr>t_worker_id := pl_id p,
    t_attempts := wrap64 (t_attempts t + 1), t_updated_at := now'\<rparr>"
  have run: "wp (run_started E p (WithTimeout cx (t_timeout t)) (?t now now') mid)
      (\<lambda>_ s'. U s' \<and> kept_by (pl_queue p) (t_id t) (\<alpha> s) (\<alpha> s')) s1"
    if "U s1" "\<alpha> s1 = \<alpha> s" for s1 now now'
    using run_started_keeps [OF that(1) q(1), of "?t now now'" "\<alpha> s", OF _ _ _ ex]
      kept_by_refl [OF q(2), of "t_id t"] t that(2) by (simp add: storable_def)
  show ?thesis unfolding run_task_def Start_def Let_def wp_bind
    by (rule Transition_up [OF assms(1) can])
      (auto simp: wp_eqs IncrementAttempts_def intro!: now_up run)
qed

text \<open>A read that finds a reference to a stored task gives that task.\<close>

lemma DequeueBlocking_up:
  assumes "U s" "first_ready q (\<alpha> s) = Some p" "ref_id (hd (next_refs q (\<alpha> s) p)) = Some i"
    "task_at (\<alpha> s) i = Some t"
    and "\<And>s'. U s' \<Longrightarrow> \<alpha> s' = deliver_heads q c (\<alpha> s) \<Longrightarrow> Q (Inr (Some (t, m_id (hd (next_refs q (\<alpha> s) p))))) s'"
  shows "wp (DequeueBlocking E q c) Q s"
  unfolding DequeueBlocking_def Let_def wp_bind
proof (rule xreadgroup_up [OF assms(1)], goal_cases)
  case 1
  then show ?case using deliveries_first_ready(2) [OF assms(2)] by fastforce
next
  case (2 r s1)
  let ?m = "hd (next_refs q (\<alpha> s) p)"
  obtain rest where r: "r = (stream_of q p, [?m]) # rest"
    using 2 deliveries_first_ready(2) [OF assms(2)] by blast
  have s1: "\<alpha> s1 = deliver_heads q c (\<alpha> s)" using 2 by (simp add: deliver_heads_def)
  have get: "wp (GetTask E i) (\<lambda>x. wp (case x of
        Inl _ \<Rightarrow> do { _ \<leftarrow> r_xack E (stream_of q p) (consumerGroup q) (m_id ?m); ret (Inr None) }
      | Inr t \<Rightarrow> ret (Inr (Some (t, m_id ?m)))) Q) s1"
    by (rule GetTask_up [OF 2(1)]) (use assms(4,5) s1 in \<open>auto simp: wp_return\<close>)
  then show ?case using assms(3) unfolding r by (simp add: wp_bind ref_id_def)
qed

end

section \<open>One turn of a worker\<close>

text \<open>
  What one turn of the loop of a worker goroutine does to Redis: it asks whether the worker is paused,
  an error counting as no, and otherwise takes and runs a task. Waiting, the semaphore and the stop
  channels are part of \<open>Pool\<close>.
\<close>

definition worker_turn :: "'s env \<Rightarrow> 's pool \<Rightarrow> ctx \<Rightarrow> ('s, unit) io" where
  "worker_turn E p cx = do {
     paused \<leftarrow> IsWorkerPaused E (pl_id p);
     case paused of
       Inr True \<Rightarrow> ret ()
     | _ \<Rightarrow> do { _ \<leftarrow> processNextTask E p cx; ret () }
   }"

fun worker_turns :: "nat \<Rightarrow> 's env \<Rightarrow> 's pool \<Rightarrow> ctx \<Rightarrow> ('s, unit) io" where
  "worker_turns 0 E p cx = ret ()"
| "worker_turns (Suc n) E p cx = do { _ \<leftarrow> worker_turn E p cx; worker_turns n E p cx }"

text \<open>
  The tasks \<open>ts\<close> wait, in this order, in the stream of priority \<open>p\<close>, and nothing else waits.
\<close>

definition runnable :: "task \<Rightarrow> bool" where
  "runnable t \<longleftrightarrow> storable t \<and> t_state t \<in> {StatePending, StateScheduled, StateRetrying} \<and> t_attempts t < 2 ^ 62"

definition waiting :: "redis_queue \<Rightarrow> priority \<Rightarrow> task list \<Rightarrow> view \<Rightarrow> bool" where
  "waiting q p ts v \<longleftrightarrow> (\<forall>p' \<in> set priorities. p' \<noteq> p \<longrightarrow> next_refs q v p' = []) \<and>
     map ref_id (next_refs q v p) = map (Some \<circ> t_id) ts \<and> distinct (map t_id ts) \<and>
     (\<forall>t \<in> set ts. task_at v (t_id t) = Some t \<and> runnable t \<and> t_priority t = p)"

text \<open>The run of \<open>t\<close> has ended.\<close>

definition run_over :: "task \<Rightarrow> view \<Rightarrow> bool" where
  "run_over t v \<longleftrightarrow> (\<exists>t'. task_at v (t_id t) = Some t' \<and> t_attempts t' = t_attempts t + 1 \<and>
     (t_state t' = StateCompleted \<or>
      t_attempts t + 1 < t_max_retries t \<and> t_state t' = StateRetrying \<and> t_id t \<in> fst ` scheduled v \<or>
      t_max_retries t \<le> t_attempts t + 1 \<and> t_state t' = StateFailed \<and> t_id t \<in> set (set_at v dlqSetName) \<and>
        (\<exists>e \<in> set (dlq_entries v). \<exists>d. de_task e = Some d \<and> t_id d = t_id t \<and> t_state d = StateDeadLetter)))"

lemma run_over_kept:
  assumes "run_over t v" "kept_by q i v w" "t_id t \<noteq> i"
  shows "run_over t w"
proof -
  have sub: "fst ` scheduled v \<subseteq> fst ` scheduled w" "set (set_at v dlqSetName) \<subseteq> set (set_at w dlqSetName)"
    "set (dlq_entries v) \<subseteq> set (dlq_entries w)" "task_at w (t_id t) = task_at v (t_id t)"
    using assms(2,3) by (simp_all add: kept_by_def)
  obtain t' where t': "task_at v (t_id t) = Some t'" "t_attempts t' = t_attempts t + 1"
    "t_state t' = StateCompleted \<or>
      t_attempts t + 1 < t_max_retries t \<and> t_state t' = StateRetrying \<and> t_id t \<in> fst ` scheduled v \<or>
      t_max_retries t \<le> t_attempts t + 1 \<and> t_state t' = StateFailed \<and> t_id t \<in> set (set_at v dlqSetName) \<and>
        (\<exists>e \<in> set (dlq_entries v). \<exists>d. de_task e = Some d \<and> t_id d = t_id t \<and> t_state d = StateDeadLetter)"
    using assms(1) unfolding run_over_def by (elim exE conjE) (rule that)
  show ?thesis unfolding run_over_def sub(4)
    by (intro exI [of _ t'] conjI t'(1,2)) (use t'(3) subsetD [OF sub(1)] subsetD [OF sub(2)] subsetD [OF sub(3)] in blast)
qed

lemma settled_over:
  assumes "settled q (t\<lparr>t_attempts := wrap64 (t_attempts t + 1)\<rparr>) mid b v" "runnable t"
  shows "run_over t v" "\<forall>e \<in> set (pending_refs q v (t_priority t)). p_id e \<noteq> mid"
proof -
  have "in_int64 (t_attempts t + 1)" using assms(2) by (auto simp: runnable_def storable_def in_int64_def)
  then have "wrap64 (t_attempts t + 1) = t_attempts t + 1" by simp
  then show "run_over t v" using assms(1) by (auto simp: settled_def run_over_def CanRetry_def split: if_splits)
  show "\<forall>e \<in> set (pending_refs q v (t_priority t)). p_id e \<noteq> mid" using assms(1) by (simp add: settled_def)
qed

text \<open>What the read that takes the first of them leaves.\<close>

lemma deliver_frame:
  "(\<And>p. k \<noteq> stream_of q p) \<Longrightarrow> deliver_heads q c v k = v k"
  by (auto simp: deliver_heads_def deliver_all_def)

lemma deliver_kinds: "keys_ok q v \<Longrightarrow> keys_ok q (deliver_heads q c v)"
  by (auto simp: keys_ok_def deliver_heads_def deliver_all_def strm_ok_def set_ok_def zset_ok_def)

lemma deliver_idle:
  "next_refs q v p = [] \<Longrightarrow> strm_at (deliver_heads q c v) (stream_of q p) = strm_at v (stream_of q p)"
  by (simp add: deliver_heads_def deliver_all_def next_refs_def strm_at_def)

lemma waiting_first:
  assumes "waiting q p (t # ts) v" "p \<in> set priorities"
  shows "first_ready q v = Some p" "ref_id (hd (next_refs q v p)) = Some (t_id t)" "next_refs q v p \<noteq> []"
proof -
  show ne: "next_refs q v p \<noteq> []" using assms(1) by (auto simp: waiting_def)
  show "ref_id (hd (next_refs q v p)) = Some (t_id t)"
    using assms(1) ne by (cases "next_refs q v p") (auto simp: waiting_def)
  have "find (\<lambda>p. next_refs q v p \<noteq> []) ps = Some p" if "set ps \<subseteq> set priorities" "p \<in> set ps" for ps
    using that assms(1) ne by (induction ps) (auto simp: waiting_def)
  then show "first_ready q v = Some p" using assms(2) by (simp add: first_ready_def)
qed

text \<open>The same after the run of the first.\<close>

definition pending_within :: "redis_queue \<Rightarrow> view \<Rightarrow> view \<Rightarrow> bool" where
  "pending_within q v w \<longleftrightarrow> (\<forall>p \<in> set priorities. set (pending_refs q w p) \<subseteq> set (pending_refs q v p))"

lemma pending_within_trans: "pending_within q u v \<Longrightarrow> pending_within q v w \<Longrightarrow> pending_within q u w"
  by (simp add: pending_within_def) (meson order_trans)

lemma waiting_next:
  assumes w: "waiting q p (t # ts) v" "p \<in> set priorities"
    and kept: "kept_by q (t_id t) (deliver_heads q c v) w"
    and acked: "\<forall>e \<in> set (pending_refs q w p). p_id e \<noteq> m_id (hd (next_refs q v p))"
  shows "waiting q p ts w" "pending_within q v w"
proof -
  note first = waiting_first [OF w]
  have refs: "next_refs q w p' = next_refs q (deliver_heads q c v) p'"
    "set (pending_refs q w p') \<subseteq> set (pending_refs q (deliver_heads q c v) p')" for p'
    using kept by (simp_all add: kept_by_def)
  have tasks: "task_at w j = task_at v j" if "j \<noteq> t_id t" for j using kept that by (simp add: kept_by_def)
  have idle: "next_refs q (deliver_heads q c v) p' = []" "pending_refs q (deliver_heads q c v) p' = pending_refs q v p'"
    if "p' \<in> set priorities" "p' \<noteq> p" for p'
    using w(1) that by (simp_all add: waiting_def) (simp_all add: next_refs_def pending_refs_def deliver_idle [unfolded next_refs_def])
  have "next_refs q w p = tl (next_refs q v p)"
    unfolding refs(1) by (rule deliver_heads_refs(1) [OF w(2) first(3)])
  then have "map ref_id (next_refs q w p) = map (Some \<circ> t_id) ts"
    using w(1) first(3) by (cases "next_refs q v p") (simp_all add: waiting_def)
  moreover have distinct: "distinct (map t_id ts)" "t_id t \<notin> t_id ` set ts" using w(1) by (simp_all add: waiting_def)
  moreover have "task_at w (t_id u) = Some u" "runnable u" "t_priority u = p" if "u \<in> set ts" for u
  proof -
    have "t_id u \<noteq> t_id t" using distinct(2) that by (metis imageI)
    then show "task_at w (t_id u) = Some u" "runnable u" "t_priority u = p"
      using w(1) that tasks by (simp_all add: waiting_def)
  qed
  ultimately show "waiting q p ts w" using idle(1) refs(1) by (simp add: waiting_def)
  have "set (pending_refs q w p) \<subseteq> set (pending_refs q v p)"
    using refs(2) [of p] acked unfolding deliver_heads_refs(2) [OF w(2) first(3)] by fastforce
  then show "pending_within q v w" using refs(2) idle(2) unfolding pending_within_def by (metis (no_types))
qed


context redis_up
begin

lemma IsWorkerPaused_not:
  "\<alpha> s (pauseKey_of i) = None \<Longrightarrow> U s \<Longrightarrow> (\<And>s'. U s' \<Longrightarrow> \<alpha> s' = \<alpha> s \<Longrightarrow> Q (Inr False) s') \<Longrightarrow>
    wp (IsWorkerPaused E i) Q s"
  unfolding IsWorkerPaused_def wp_bind by (rule exists_up) (auto simp: wp_return)

lemma worker_turn_up:
  assumes "U s" "queue_ok (pl_queue pl)" "keys_ok (pl_queue pl) (\<alpha> s)" "\<alpha> s (pauseKey_of (pl_id pl)) = None"
    and w: "waiting (pl_queue pl) p (t # ts) (\<alpha> s)" "p \<in> set priorities"
    and ex: "quiet \<alpha> (pl_executor pl)" "calm U (pl_executor pl)" "encodable (pl_executor pl)"
  shows "wp (worker_turn E pl cx) (\<lambda>_ s'. U s' \<and> keys_ok (pl_queue pl) (\<alpha> s') \<and>
    \<alpha> s' (pauseKey_of (pl_id pl)) = None \<and> waiting (pl_queue pl) p ts (\<alpha> s') \<and>
    pending_within (pl_queue pl) (\<alpha> s) (\<alpha> s') \<and> run_over t (\<alpha> s') \<and>
    (\<forall>u. run_over u (\<alpha> s) \<longrightarrow> t_id u \<noteq> t_id t \<longrightarrow> run_over u (\<alpha> s'))) s"
    (is "wp _ ?Q s")
proof -
  let ?q = "pl_queue pl"
  let ?v = "deliver_heads ?q (pl_id pl) (\<alpha> s)" and ?m = "m_id (hd (next_refs ?q (\<alpha> s) p))"
  have t: "task_at (\<alpha> s) (t_id t) = Some t" "runnable t" "t_priority t = p" using w(1) by (simp_all add: waiting_def)
  note first = waiting_first [OF w]
  have can: "CanTransitionTo (t_state t) StateRunning" using t(2) by (auto simp: runnable_def table)
  have run: "wp (run_task E pl cx t ?m) (\<lambda>_ s'. ?Q () s') s1" if s1: "U s1" "\<alpha> s1 = ?v" for s1
  proof -
    have keys: "keys_ok ?q (\<alpha> s1)" using deliver_kinds [OF assms(3)] s1(2) by simp
    have storable: "storable t" using t(2) by (simp add: runnable_def)
    show ?thesis
    proof (rule wp_mono [OF wp_conj [OF run_task_up [OF s1(1) assms(2) keys storable can ex]
            run_task_keeps [OF s1(1) assms(2) keys storable can ex]]], elim conjE exE)
      fix r s' b
      assume kept: "U s'" "kept_by ?q (t_id t) (\<alpha> s1) (\<alpha> s')"
        and settled: "settled ?q (t\<lparr>t_attempts := wrap64 (t_attempts t + 1)\<rparr>) ?m b (\<alpha> s')"
      have kept': "kept_by ?q (t_id t) ?v (\<alpha> s')" using kept(2) s1(2) by simp
      note over = settled_over [OF settled t(2), unfolded t(3)]
      have pause: "\<alpha> s' (pauseKey_of n) = \<alpha> s (pauseKey_of n)" for n
        using kept' deliver_frame [of "pauseKey_of n" ?q] by (simp add: kept_by_def)
      have same: "run_over u ?v = run_over u (\<alpha> s)" for u
      proof -
        have "scheduled ?v = scheduled (\<alpha> s)" by (intro scheduled_cong deliver_frame) simp
        moreover have "dlq_entries ?v = dlq_entries (\<alpha> s)" "set_at ?v dlqSetName = set_at (\<alpha> s) dlqSetName"
          using deliver_frame [of dlqStreamName ?q] deliver_frame [of dlqSetName ?q]
          by (auto intro!: dlq_entries_cong simp: set_at_def dlqStreamName_def dlqSetName_def)
        ultimately show ?thesis by (simp add: run_over_def)
      qed
      show "?Q () s'"
        using kept(1) kept_by_keys [OF kept'] pause assms(4) over waiting_next [OF w kept' over(2)]
          run_over_kept [OF _ kept'] same by auto
    qed
  qed
  have process: "wp (processNextTask E pl cx) (\<lambda>_ s'. ?Q () s') s1" if s1: "U s1" "\<alpha> s1 = \<alpha> s" for s1
    unfolding processNextTask_def wp_bind
    by (rule DequeueBlocking_up [OF s1(1), of ?q p "t_id t" t])
      (use first t(1) s1(2) run in \<open>simp_all\<close>)
  show ?thesis unfolding worker_turn_def wp_bind
    by (rule IsWorkerPaused_not [OF assms(4,1)]) (use process in \<open>simp add: wp_eqs\<close>)
qed

lemma worker_turns_up:
  assumes "U s" "queue_ok (pl_queue pl)" "keys_ok (pl_queue pl) (\<alpha> s)" "\<alpha> s (pauseKey_of (pl_id pl)) = None"
    and w: "waiting (pl_queue pl) p ts (\<alpha> s)" "p \<in> set priorities"
    and ex: "quiet \<alpha> (pl_executor pl)" "calm U (pl_executor pl)" "encodable (pl_executor pl)"
  shows "wp (worker_turns (length ts) E pl cx) (\<lambda>_ s'. waiting (pl_queue pl) p [] (\<alpha> s') \<and>
    pending_within (pl_queue pl) (\<alpha> s) (\<alpha> s') \<and> (\<forall>t \<in> set ts. run_over t (\<alpha> s')) \<and>
    (\<forall>u. run_over u (\<alpha> s) \<longrightarrow> t_id u \<notin> t_id ` set ts \<longrightarrow> run_over u (\<alpha> s'))) s"
  using assms(1,3,4) w(1)
proof (induction ts arbitrary: s)
  case Nil
  then show ?case by (simp add: wp_return pending_within_def)
next
  case (Cons t ts)
  have fresh: "t_id t \<notin> t_id ` set ts" using Cons.prems(4) by (simp add: waiting_def)
  show ?case unfolding worker_turns.simps length_Cons wp_bind
  proof (rule wp_mono [OF worker_turn_up [OF Cons.prems(1) assms(2) Cons.prems(2-4) w(2) ex]], elim conjE)
    fix x s1
    assume s1: "U s1" "keys_ok (pl_queue pl) (\<alpha> s1)" "\<alpha> s1 (pauseKey_of (pl_id pl)) = None"
      "waiting (pl_queue pl) p ts (\<alpha> s1)" "pending_within (pl_queue pl) (\<alpha> s) (\<alpha> s1)" "run_over t (\<alpha> s1)"
      "\<forall>u. run_over u (\<alpha> s) \<longrightarrow> t_id u \<noteq> t_id t \<longrightarrow> run_over u (\<alpha> s1)"
    show "wp (worker_turns (length ts) E pl cx) (\<lambda>_ s'. waiting (pl_queue pl) p [] (\<alpha> s') \<and>
        pending_within (pl_queue pl) (\<alpha> s) (\<alpha> s') \<and> (\<forall>t \<in> set (t # ts). run_over t (\<alpha> s')) \<and>
        (\<forall>u. run_over u (\<alpha> s) \<longrightarrow> t_id u \<notin> t_id ` set (t # ts) \<longrightarrow> run_over u (\<alpha> s'))) s1"
      by (rule wp_mono [OF Cons.IH [OF s1(1-4)]])
        (use s1(6,7) fresh in \<open>auto intro: pending_within_trans [OF s1(5)]\<close>)
  qed
qed

end

section \<open>From submission to outcome\<close>

definition enqueue_each :: "'s env \<Rightarrow> redis_queue \<Rightarrow> task list \<Rightarrow> ('s, unit) io" where
  "enqueue_each E q ts = for_each ts (\<lambda>t. do { _ \<leftarrow> Enqueue E q t; ret () })"

lemma waiting_enqueue:
  assumes "queue_ok q" "waiting q p ts v" "p \<in> set priorities"
    and g: "group_at (strm_at v (stream_of q p)) (consumerGroup q) \<noteq> None"
    and t: "runnable t" "t_priority t = p" "t_id t \<notin> t_id ` set ts"
  shows "waiting q p (ts @ [stored t]) (push_ref (stream_of q p) m t (put_task t 0 v))"
    and "\<forall>p' \<in> set priorities. pending_refs q (push_ref (stream_of q p) m t (put_task t 0 v)) p' = pending_refs q v p'"
    and "group_at (strm_at (push_ref (stream_of q p) m t (put_task t 0 v)) (stream_of q p)) (consumerGroup q) \<noteq> None"
proof -
  let ?w = "push_ref (stream_of q p) m t (put_task t 0 v)"
  have strm: "strm_at (put_task t 0 v) (stream_of q p') = strm_at v (stream_of q p')" for p'
    using taskKey_not_stream [OF assms(1)] by (simp add: put_task_def)
  have task: "task_at ?w j = (if j = t_id t then Some (stored t) else task_at v j)" for j
    using t(1) by (simp add: task_at_push [OF assms(1)] runnable_def)
  have old: "t_id u \<noteq> t_id t" if "u \<in> set ts" for u using t(3) that by (metis imageI)
  have "next_refs q ?w p' = []" if "p' \<in> set priorities" "p' \<noteq> p" for p'
    using assms(2) that next_refs_push(2) [OF assms(1) g] stream_of_inj [OF assms(3) that(1), of q] by (simp add: waiting_def)
  moreover have "map ref_id (next_refs q ?w p) = map (Some \<circ> t_id) (ts @ [stored t])"
    using assms(2) by (simp add: next_refs_push(1) [OF assms(1) g] waiting_def)
  moreover have "runnable (stored t)" using t(1) by (simp add: runnable_def)
  ultimately show "waiting q p (ts @ [stored t]) ?w"
    using assms(2) t(2,3) old by (auto simp: waiting_def task)
  show "\<forall>p' \<in> set priorities. pending_refs q ?w p' = pending_refs q v p'"
    by (auto simp: pending_refs_def push_ref_def strm)
  show "group_at (strm_at ?w (stream_of q p)) (consumerGroup q) \<noteq> None"
    using g by (simp add: push_ref_def strm)
qed

context redis_up
begin

lemma enqueue_each_up:
  assumes "U s" "queue_ok q" "keys_ok q (\<alpha> s)" "\<alpha> s (pauseKey_of n) = None"
    and "waiting q p ts0 (\<alpha> s)" "p \<in> set priorities"
    and "group_at (strm_at (\<alpha> s) (stream_of q p)) (consumerGroup q) \<noteq> None"
    and "\<forall>t \<in> set ts. runnable t \<and> t_priority t = p" "distinct (map t_id (ts0 @ ts))"
  shows "wp (enqueue_each E q ts) (\<lambda>_ s'. U s' \<and> keys_ok q (\<alpha> s') \<and> \<alpha> s' (pauseKey_of n) = None \<and>
    waiting q p (ts0 @ map stored ts) (\<alpha> s') \<and> pending_within q (\<alpha> s) (\<alpha> s')) s"
  using assms(1,3-5,7-9) unfolding enqueue_each_def
proof (induction ts arbitrary: s ts0)
  case Nil
  then show ?case by (simp add: wp_return pending_within_def)
next
  case (Cons t ts)
  have t: "runnable t" "t_priority t = p" "storable t" "t_id t \<notin> t_id ` set ts0"
    using Cons.prems(6,7) by (auto simp: runnable_def)
  show ?case unfolding for_each.simps wp_bind
  proof (rule Enqueue_up [OF Cons.prems(1) t(3) assms(2)], unfold t(2), goal_cases)
    case 1
    show ?case using keys_okD(1) [OF Cons.prems(2)] .
  next
    case (2 m s1)
    note w = waiting_enqueue [OF assms(2) Cons.prems(4) assms(6) Cons.prems(5) t(1,2,4), of m, folded 2(3)]
    have keys: "keys_ok q (\<alpha> s1)"
      using Cons.prems(2) keys_ok_put [OF assms(2) Cons.prems(2), of t 0] unfolding 2(3)
      by (auto simp: keys_ok_def push_ref_def strm_ok_def set_ok_def zset_ok_def)
    have pause: "\<alpha> s1 (pauseKey_of n) = None" using Cons.prems(3) by (simp add: 2(3) push_ref_def)
    have distinct: "distinct (map t_id ((ts0 @ [stored t]) @ ts))" using Cons.prems(7) by simp
    have within: "pending_within q (\<alpha> s) (\<alpha> s1)" using w(2) by (simp add: pending_within_def)
    show ?case unfolding wp_return
      by (rule wp_mono [OF Cons.IH [OF 2(1) keys pause w(1) w(3) _ distinct]])
        (use Cons.prems(6) within in \<open>auto intro: pending_within_trans\<close>)
  qed
qed

end

lemma run_over_stored [simp]: "run_over (stored t) v = run_over t v"
  by (simp add: run_over_def)

context redis_up
begin

lemma submit_then_work:
  assumes "U s" "queue_ok (pl_queue pl)" "keys_ok (pl_queue pl) (\<alpha> s)"
    and "\<alpha> s (pauseKey_of (pl_id pl)) = None"
    and "waiting (pl_queue pl) p ts0 (\<alpha> s)" "p \<in> set priorities"
    and "group_at (strm_at (\<alpha> s) (stream_of (pl_queue pl) p)) (consumerGroup (pl_queue pl)) \<noteq> None"
    and "\<forall>t \<in> set ts. runnable t \<and> t_priority t = p" "distinct (map t_id (ts0 @ ts))"
    and ex: "quiet \<alpha> (pl_executor pl)" "calm U (pl_executor pl)" "encodable (pl_executor pl)"
  shows "wp (do { _ \<leftarrow> enqueue_each E (pl_queue pl) ts; worker_turns (length ts0 + length ts) E pl cx })
    (\<lambda>_ s'. waiting (pl_queue pl) p [] (\<alpha> s') \<and> pending_within (pl_queue pl) (\<alpha> s) (\<alpha> s') \<and>
      (\<forall>t \<in> set (ts0 @ ts). run_over t (\<alpha> s'))) s"
  unfolding wp_bind
proof (rule wp_mono [OF enqueue_each_up [OF assms(1-9)]], elim conjE)
  fix s1
  assume s1: "U s1" "keys_ok (pl_queue pl) (\<alpha> s1)" "\<alpha> s1 (pauseKey_of (pl_id pl)) = None"
    "waiting (pl_queue pl) p (ts0 @ map stored ts) (\<alpha> s1)" "pending_within (pl_queue pl) (\<alpha> s) (\<alpha> s1)"
  show "wp (worker_turns (length ts0 + length ts) E pl cx) (\<lambda>_ s'. waiting (pl_queue pl) p [] (\<alpha> s') \<and>
      pending_within (pl_queue pl) (\<alpha> s) (\<alpha> s') \<and> (\<forall>t \<in> set (ts0 @ ts). run_over t (\<alpha> s'))) s1"
    by (rule wp_mono [OF worker_turns_up [OF s1(1) assms(2) s1(2-4) assms(6) ex, unfolded length_append length_map]])
      (auto simp: ball_Un intro: pending_within_trans [OF s1(5)])
qed

end

lemma sample_mem_keys: "keys_ok sample_queue (mem_view sample_mem)"
proof -
  have known: "\<forall>p \<in> set priorities. strm_ok (mem_view sample_mem) (stream_of sample_queue p)"
    "mem_view sample_mem ''tasks:unknown'' = None" by code_simp+
  have "strm_ok (mem_view sample_mem) (stream_of sample_queue p)" for p
    using known by (cases p) (simp_all add: priorities_def,
      simp add: stream_of_def StreamName_def sample_queue_def strm_ok_def)
  moreover have "strm_ok (mem_view sample_mem) dlqStreamName" "set_ok (mem_view sample_mem) dlqSetName"
    "zset_ok (mem_view sample_mem) scheduledSetKey" by code_simp+
  ultimately show ?thesis by (simp add: keys_ok_def)
qed



end
