(* ===== verification/Commands.thy ===== *)
theory Commands
  imports QueueSpec WorkLoop TaskHandlers Pool Server
begin

text \<open>
  \<^verbatim>\<open>cmd/api-server/main.go\<close> and \<^verbatim>\<open>cmd/worker/main.go\<close>: how the two commands start and stop, and
  what a fresh system of both does with the tasks it is given.
\<close>

section \<open>Starting\<close>

text \<open>
  A command that exits, with its status, or that is up. \<^verbatim>\<open>log.Fatal\<close> exits with status 1.
\<close>

datatype 'a process = Exit int | Up 'a

record 's api_process =
  ap_queue :: redis_queue
  ap_server :: "'s server"

text \<open>
  \<open>loaded\<close> is what \<^verbatim>\<open>config.Load\<close> returned, \<open>subscribed\<close> what the hub's subscription to the events
  gets. The scheduler and the HTTP server are goroutines that start here.
\<close>

definition api_main_start :: "'s env \<Rightarrow> config res \<Rightarrow> subscription res \<Rightarrow> ('s, 's api_process process) io" where
  "api_main_start E loaded subscribed = (case loaded of
     Inl _ \<Rightarrow> ret (Exit 1)
   | Inr cfg \<Rightarrow> do {
       r \<leftarrow> NewRedisQueue E (cf_queue cfg);
       case r of
         Inl _ \<Rightarrow> ret (Exit 1)
       | Inr redisQueue \<Rightarrow> do {
           let server = NewServer E cfg redisQueue True True;
           let server = Server_Start subscribed server;
           ret (Up \<lparr>ap_queue = redisQueue, ap_server = server\<rparr>)
         }
     })"

text \<open>
  \<^verbatim>\<open>Heartbeat.Start\<close> registers the worker, beside the goroutine with \<open>heartbeatLoop\<close>;
  \<^verbatim>\<open>Heartbeat.Stop\<close> takes it off again when that goroutine has ended.
\<close>

definition Heartbeat_Start :: "'s env \<Rightarrow> heartbeat \<Rightarrow> ('s, heartbeat) io" where
  "Heartbeat_Start E h = register E h"

definition Heartbeat_Stop :: "'s env \<Rightarrow> heartbeat \<Rightarrow> ('s, unit) io" where
  "Heartbeat_Stop E h = deregister E h"

text \<open>\<^verbatim>\<open>Pool.Start\<close>: the state, the registration of the worker and the goroutines. It never fails.\<close>

record 's worker_process =
  wp_pool :: "'s pool"
  wp_sync :: pool_sync

definition start_pool :: "'s env \<Rightarrow> 's pool \<Rightarrow> ('s, 's worker_process) io" where
  "start_pool E p = do {
     heartbeat \<leftarrow> Heartbeat_Start E (pl_heartbeat p);
     ret \<lparr>wp_pool = p\<lparr>pl_heartbeat := heartbeat\<rparr>,
          wp_sync = Pool_Start (nat (wc_concurrency (pl_config p))) new_sync\<rparr>
   }"

definition worker_main_start :: "'s env \<Rightarrow> config res \<Rightarrow> ('s, 's worker_process process) io" where
  "worker_main_start E loaded = (case loaded of
     Inl _ \<Rightarrow> ret (Exit 1)
   | Inr cfg \<Rightarrow> do {
       r \<leftarrow> NewRedisQueue E (cf_queue cfg);
       case r of
         Inl _ \<Rightarrow> ret (Exit 1)
       | Inr redisQueue \<Rightarrow> do {
           p \<leftarrow> NewPool E (cf_worker cfg) (cf_queue cfg) redisQueue (Some worker_handlers) True;
           w \<leftarrow> start_pool E p;
           ret (Up w)
         }
     })"

section \<open>Stopping\<close>

text \<open>
  The wait in \<^verbatim>\<open>Pool.Stop\<close>, which is over when the workers are done, when the time is up, or when
  the context of the caller ends. Several may be possible at once. The recovery loop, which the wait
  includes, ends at the same stop channel and is left out here.
\<close>

datatype stop_wait = WorkersDone | ShutdownTimeout | StopCanceled

fun stop_may :: "pool_sync \<Rightarrow> bool \<Rightarrow> bool \<Rightarrow> stop_wait \<Rightarrow> bool" where
  "stop_may s timeUp ctxDone WorkersDone = list_all (\<lambda>p. p = Exited) (sy_workers s)"
| "stop_may s timeUp ctxDone ShutdownTimeout = timeUp"
| "stop_may s timeUp ctxDone StopCanceled = ctxDone"

text \<open>After the wait, whatever ended it, the worker leaves, and no error is returned.\<close>

definition stop_pool :: "'s env \<Rightarrow> 's worker_process \<Rightarrow> stop_wait \<Rightarrow> ('s, error option) io" where
  "stop_pool E w waited = do {
     _ \<leftarrow> (case waited of WorkersDone \<Rightarrow> ret () | ShutdownTimeout \<Rightarrow> ret () | StopCanceled \<Rightarrow> ret ());
     _ \<leftarrow> Heartbeat_Stop E (pl_heartbeat (wp_pool w));
     ret None
   }"

text \<open>
  The API server first stops the scheduler, which ends the poll it is in, then the hub, and only then
  the HTTP server: \<open>Crashes\<close> and \<open>Waits\<close> are those of the hub.
\<close>

definition api_main_stop :: "'s env \<Rightarrow> 's api_process \<Rightarrow> nat \<Rightarrow> ('s, 's server progress) io" where
  "api_main_stop E a ticks = do {
     _ \<leftarrow> schedulerLoop E (ap_queue a) (replicate ticks Tick @ [StopClosed]);
     ret (Server_Stop (ap_server a))
   }"

text \<open>
  A stop can return, and the process end, while a worker is running a task.
\<close>

lemma stop_leaves_running:
  "\<exists>s i. reachable 1 s \<and> sy_stopped s \<and> sy_workers s = [Running i] \<and> stop_may s True False ShutdownTimeout"
proof -
  let ?s = "new_sync\<lparr>sy_state := StateShuttingDown, sy_stopped := True, sy_sem := 1, sy_current := [''a''],
    sy_workers := [Running ''a'']\<rparr>"
  have "reachable 1 ?s"
  proof (rule acts_reachable [OF reachable.start])
    show "acts 1 [ByWorker 0 Proceed, ByWorker 0 Proceed, ByWorker 0 (FlagAnswer False), ByWorker 0 Proceed,
        ByWorker 0 (Handout (Some ''a'')), DoStop] (Pool_Start 1 new_sync) = Some ?s"
      by (simp add: Pool_Start_def new_sync_def Pool_State_def Pool_Stop_def)
  qed
  then show ?thesis by (intro exI [of _ ?s] exI [of _ "''a''"]) simp
qed

section \<open>A started command has its streams\<close>

text \<open>A queue on which nothing has been put yet.\<close>

definition blank :: "redis_queue \<Rightarrow> view \<Rightarrow> bool" where
  "blank q v \<longleftrightarrow> (\<forall>p. strm_ok v (stream_of q p)) \<and>
     (\<forall>p \<in> set priorities. s_entries (strm_at v (stream_of q p)) = [] \<and> next_refs q v p = [])"

definition queue_settings :: "queue_config \<Rightarrow> redis_queue" where
  "queue_settings c = \<lparr>streamPrefix = qc_stream_prefix c, consumerGroup = qc_consumer_group c,
     blockTimeout = qc_block_timeout c, claimMinIdle = qc_claim_min_idle c,
     taskRetentionDays = qc_task_retention_days c\<rparr>"

lemma group_at_strm_group:
  "group_at (strm_group g x) h = (case group_at x h of Some y \<Rightarrow> Some y
     | None \<Rightarrow> if h = g then Some \<lparr>g_new = s_entries x, g_pel = []\<rparr> else None)"
  by (auto simp: group_at_def strm_group_def map_add_def split: option.splits)

lemma group_made:
  assumes "blank q v" "p \<in> set priorities" "w = v(stream_of q p \<mapsto> RStream (strm_group (consumerGroup q) (strm_at v (stream_of q p))))"
  shows "blank q w" "has_groups q [p] w" "has_groups q ps v \<Longrightarrow> has_groups q ps w"
    "\<And>k. (\<And>p. k \<noteq> stream_of q p) \<Longrightarrow> w k = v k"
proof -
  have "s_entries (strm_group g x) = [] \<and> strm_new (strm_group g x) g = []"
    if "s_entries x = []" "strm_new x g = []" for g x
  proof -
    have "s_entries (strm_group g x) = s_entries x" by (simp add: strm_group_def)
    then show ?thesis using that by (simp add: strm_new_def group_at_strm_group split: option.splits)
  qed
  then have "s_entries (strm_at w (stream_of q p')) = [] \<and> next_refs q w p' = []" if "p' \<in> set priorities" for p'
    using assms that by (simp add: blank_def next_refs_def)
  moreover have "strm_ok w (stream_of q p')" for p'
    using assms by (simp add: blank_def strm_ok_def)
  ultimately show "blank q w" by (simp add: blank_def)
  show "has_groups q [p] w" "has_groups q ps v \<Longrightarrow> has_groups q ps w"
    by (auto simp: has_groups_def assms(3) group_at_strm_group split: option.splits)
  show "w k = v k" if "\<And>p. k \<noteq> stream_of q p" for k using that assms(3) by simp
qed

context redis
begin

lemma initStreams_loop_wp:
  assumes "blank q (\<alpha> s)" "has_groups q made (\<alpha> s)" "set ps \<subseteq> set priorities"
  shows "wp (initStreams_loop E q ps) (\<lambda>r s'. r = None \<longrightarrow> blank q (\<alpha> s') \<and> has_groups q (made @ ps) (\<alpha> s') \<and>
    (\<forall>k. (\<forall>p. k \<noteq> stream_of q p) \<longrightarrow> \<alpha> s' k = \<alpha> s k)) s"
  using assms
proof (induction ps arbitrary: s made)
  case Nil
  then show ?case by (simp add: wp_return)
next
  case (Cons p ps)
  have p: "p \<in> set priorities" "set ps \<subseteq> set priorities" using Cons.prems(3) by simp_all
  let ?Q = "\<lambda>r s'. r = None \<longrightarrow> blank q (\<alpha> s') \<and> has_groups q (made @ p # ps) (\<alpha> s') \<and>
    (\<forall>k. (\<forall>p. k \<noteq> stream_of q p) \<longrightarrow> \<alpha> s' k = \<alpha> s k)"
  have rest: "wp (initStreams_loop E q ps) ?Q s1"
    if "blank q (\<alpha> s1)" "has_groups q (made @ [p]) (\<alpha> s1)" "\<And>k. (\<And>p. k \<noteq> stream_of q p) \<Longrightarrow> \<alpha> s1 k = \<alpha> s k" for s1
    by (rule wp_mono [OF Cons.IH [OF that(1,2) p(2)]]) (use that(3) in auto)
  show ?case unfolding initStreams_loop.simps Let_def wp_bind
  proof (rule wp_mono [OF xgroup], goal_cases)
    case (1 r s1)
    show ?case
    proof (cases r)
      case (Inr u)
      then have s1: "\<alpha> s1 = (\<alpha> s)(stream_of q p \<mapsto> RStream (strm_group (consumerGroup q) (strm_at (\<alpha> s) (stream_of q p))))"
        using 1 by simp
      note grp = group_made [OF Cons.prems(1) p(1) s1]
      have "has_groups q (made @ [p]) (\<alpha> s1)" using grp(2) grp(3) [OF Cons.prems(2)] by (auto simp: has_groups_def)
      then show ?thesis using rest [OF grp(1)] grp(4) Inr by simp
    next
      case (Inl e)
      show ?thesis
      proof (cases "error_text e = busygroup")
        case True
        then have s1: "\<alpha> s1 = \<alpha> s" "group_at (strm_at (\<alpha> s) (stream_of q p)) (consumerGroup q) \<noteq> None"
          using 1 Inl by simp_all
        then have "has_groups q (made @ [p]) (\<alpha> s1)" using Cons.prems(2) by (auto simp: has_groups_def)
        then show ?thesis using rest [of s1] Cons.prems(1) s1(1) Inl True by simp
      qed (simp add: Inl wp_return)
    qed
  qed
qed

lemma NewRedisQueue_wp:
  assumes "blank (queue_settings c) (\<alpha> s)"
  shows "wp (NewRedisQueue E c) (\<lambda>r s'. \<forall>q. r = Inr q \<longrightarrow> q = queue_settings c \<and> blank q (\<alpha> s') \<and>
    has_groups q priorities (\<alpha> s') \<and> (\<forall>k. (\<forall>p. k \<noteq> stream_of q p) \<longrightarrow> \<alpha> s' k = \<alpha> s k)) s"
proof -
  have init: "wp (initStreams E (queue_settings c)) (\<lambda>err. wp (case err of Some e \<Rightarrow> ret (Inl e) | None \<Rightarrow> ret (Inr (queue_settings c)))
      (\<lambda>r s'. \<forall>q. r = Inr q \<longrightarrow> q = queue_settings c \<and> blank q (\<alpha> s') \<and>
        has_groups q priorities (\<alpha> s') \<and> (\<forall>k. (\<forall>p. k \<noteq> stream_of q p) \<longrightarrow> \<alpha> s' k = \<alpha> s k))) s1"
    if "\<alpha> s1 = \<alpha> s" for s1
    unfolding initStreams_def
    by (rule wp_mono [OF initStreams_loop_wp [of _ _ "[]"]])
      (use assms that in \<open>auto simp: has_groups_def wp_return split: option.splits\<close>)
  show ?thesis unfolding NewRedisQueue_def Let_def wp_bind queue_settings_def [symmetric]
    by (rule observes_wp [OF ping]) (use init in \<open>auto simp: wp_bind wp_return\<close>)
qed

end

section \<open>A fresh system\<close>

text \<open>
  What a worker that has just been started relies on: the streams have their groups, nothing waits,
  and no key is in the way.
\<close>

definition fresh :: "redis_queue \<Rightarrow> view \<Rightarrow> bool" where
  "fresh q v \<longleftrightarrow> keys_ok q v \<and> blank q v \<and> (\<forall>n. v (pauseKey_of n) = None)"

lemma fresh_start:
  assumes "fresh q v" "blank q w" "\<forall>k. (\<forall>p. k \<noteq> stream_of q p) \<longrightarrow> w k = v k"
  shows "fresh q w"
proof -
  have "w dlqStreamName = v dlqStreamName" "w dlqSetName = v dlqSetName" "w scheduledSetKey = v scheduledSetKey"
    "w (pauseKey_of n) = v (pauseKey_of n)" for n
    using assms(3) by (simp_all add: dlqStreamName_def dlqSetName_def scheduledSetKey_def)
  then show ?thesis using assms(1,2)
    by (simp add: fresh_def keys_ok_def blank_def strm_ok_def set_ok_def zset_ok_def)
qed

lemma worker_keys:
  "workerSetKey \<noteq> stream_of q p" "infoKey_of i \<noteq> stream_of q p"
  "workerSetKey \<noteq> dlqStreamName" "workerSetKey \<noteq> dlqSetName" "workerSetKey \<noteq> scheduledSetKey"
  "infoKey_of i \<noteq> dlqStreamName" "infoKey_of i \<noteq> dlqSetName" "infoKey_of i \<noteq> scheduledSetKey"
  "workerSetKey \<noteq> pauseKey_of n" "infoKey_of i \<noteq> pauseKey_of n"
proof -
  show "workerSetKey \<noteq> stream_of q p" "infoKey_of i \<noteq> stream_of q p"
    using stream_not_key [of workerSetKey q p] stream_not_key [of "infoKey_of i" q p]
    by (simp_all add: workerSetKey_def infoKey_of_def)
  have "last (infoKey_of i) = CHR ''o''" "last (pauseKey_of n) = CHR ''d''" "last workerSetKey = CHR ''e''"
    by (simp_all add: infoKey_of_def pauseKey_of_def workerSetKey_def)
  then show "workerSetKey \<noteq> pauseKey_of n" "infoKey_of i \<noteq> pauseKey_of n" by auto
qed (simp_all add: workerSetKey_def infoKey_of_def workerKeyPrefix_def dlqStreamName_def dlqSetName_def scheduledSetKey_def)

text \<open>Registering touches the set of workers and the worker's own keys only.\<close>

definition worker_frame :: "string \<Rightarrow> view \<Rightarrow> view \<Rightarrow> bool" where
  "worker_frame i v w \<longleftrightarrow> same_but {workerSetKey, infoKey_of i} v w"

lemma fresh_worker:
  assumes "fresh q v" "worker_frame i v w" "has_groups q ps v"
  shows "fresh q w" "has_groups q ps w"
proof -
  have same: "w k = v k" if "k \<noteq> workerSetKey" "k \<noteq> infoKey_of i" for k
    using assms(2) that by (auto simp: worker_frame_def same_but_def)
  have "w (stream_of q p) = v (stream_of q p)" "w dlqStreamName = v dlqStreamName" "w dlqSetName = v dlqSetName"
    "w scheduledSetKey = v scheduledSetKey" "w (pauseKey_of n) = v (pauseKey_of n)" for p n
    using worker_keys [THEN not_sym] by (intro same; simp)+
  then show "fresh q w" "has_groups q ps w" using assms(1,3)
    by (simp_all add: fresh_def keys_ok_def blank_def has_groups_def next_refs_def strm_at_def strm_ok_def set_ok_def zset_ok_def)
qed

context redis
begin

lemma Heartbeat_publish_wp:
  "(\<And>s'. \<alpha> s' = \<alpha> s \<Longrightarrow> Q () s') \<Longrightarrow> wp (Heartbeat_publishWorkerEvent E h ev st) Q s"
  by (auto simp: Heartbeat_publishWorkerEvent_def wp_eqs Let_def intro!: NewEvent_wp Publish_wp)

lemma register_wp:
  "wp (register E h) (\<lambda>_ s'. worker_frame (hb_workerID h) (\<alpha> s) (\<alpha> s')) s"
  unfolding register_def Let_def wp_bind
  by (rule sadd_wp; rule now_wp; rule set_wp)
    (auto simp: wp_return worker_frame_def intro!: Heartbeat_publish_wp)

lemma NewPool_wp:
  "wp (NewPool E wc qc q handlers publisher) (\<lambda>p s'. \<alpha> s' = \<alpha> s \<and> pl_queue p = q \<and>
    pl_executor p = NewExecutor handlers (Some (queue_retry_policy qc))) s"
  unfolding NewPool_def NewHeartbeat_def Let_def wp_bind
  by (auto simp: wp_if wp_bind wp_return intro!: uuid_wp now_wp)

lemma start_pool_wp:
  "wp (start_pool E p) (\<lambda>w s'. worker_frame (hb_workerID (pl_heartbeat p)) (\<alpha> s) (\<alpha> s') \<and>
    pl_queue (wp_pool w) = pl_queue p \<and> pl_executor (wp_pool w) = pl_executor p) s"
  unfolding start_pool_def Heartbeat_Start_def wp_bind
  by (rule wp_mono [OF register_wp]) (simp add: wp_return)

lemma api_main_start_wp:
  assumes "fresh (queue_settings (cf_queue cfg)) (\<alpha> s)"
  shows "wp (api_main_start E (Inr cfg) subscribed) (\<lambda>r s'. \<forall>a. r = Up a \<longrightarrow>
    ap_queue a = queue_settings (cf_queue cfg) \<and> fresh (ap_queue a) (\<alpha> s') \<and>
    has_groups (ap_queue a) priorities (\<alpha> s')) s"
  unfolding api_main_start_def sum.case wp_bind
proof (rule wp_mono [OF NewRedisQueue_wp], goal_cases)
  case 1
  show ?case using assms by (simp add: fresh_def)
next
  case (2 r s1)
  then show ?case using fresh_start [OF assms, of "\<alpha> s1"] by (cases r) (simp_all add: wp_return Let_def)
qed

lemma worker_main_start_wp:
  assumes "fresh (queue_settings (cf_queue cfg)) (\<alpha> s)"
  shows "wp (worker_main_start E (Inr cfg)) (\<lambda>r s'. \<forall>w. r = Up w \<longrightarrow>
    pl_queue (wp_pool w) = queue_settings (cf_queue cfg) \<and>
    (\<exists>pol. pl_executor (wp_pool w) = NewExecutor (Some worker_handlers) pol) \<and>
    fresh (pl_queue (wp_pool w)) (\<alpha> s') \<and> has_groups (pl_queue (wp_pool w)) priorities (\<alpha> s')) s"
  unfolding worker_main_start_def sum.case wp_bind
proof (rule wp_mono [OF NewRedisQueue_wp], goal_cases)
  case 1
  show ?case using assms by (simp add: fresh_def)
next
  case (2 r s1)
  show ?case
  proof (cases r)
    case (Inr q)
    then have s1: "q = queue_settings (cf_queue cfg)" "fresh q (\<alpha> s1)" "has_groups q priorities (\<alpha> s1)"
      using 2 fresh_start [OF assms, of "\<alpha> s1"] by auto
    show ?thesis unfolding Inr sum.case wp_bind
    proof (rule wp_mono [OF NewPool_wp], rule wp_mono [OF start_pool_wp], goal_cases)
      case (1 p s2 w s3)
      then have frame: "worker_frame (hb_workerID (pl_heartbeat p)) (\<alpha> s1) (\<alpha> s3)" by simp
      show ?case
        using 1 s1(1) fresh_worker [OF s1(2) frame s1(3)] by (auto simp: wp_return)
    qed
  qed (simp add: wp_return)
qed

end

text \<open>The handlers of the command only compute.\<close>

lemma worker_handlers_ok:
  "quiet \<alpha> (NewExecutor (Some worker_handlers) pol)" "calm U (NewExecutor (Some worker_handlers) pol)"
  "encodable (NewExecutor (Some worker_handlers) pol)"
  by (auto simp: NewExecutor_def worker_handlers_def quiet_def calm_def encodable_def echoHandler_def
      sleepHandler_def computeHandler_def failHandler_def silent_def steady_def wp_return gmap_ok_def gmap_doc_def
      run_state_return Let_def split: option.splits)


context redis_up
begin

text \<open>The start of a pool leaves the server up.\<close>

lemma NewPool_up: "U s \<Longrightarrow> wp (NewPool E wc qc q handlers publisher) (\<lambda>p s'. U s' \<and> \<alpha> s' = \<alpha> s) s"
  unfolding NewPool_def NewHeartbeat_def Let_def wp_bind
  by (auto simp: wp_if wp_bind wp_return intro!: uuid_up now_up)

lemma start_pool_up:
  assumes "U s" "set_ok (\<alpha> s) workerSetKey"
  shows "wp (start_pool E p) (\<lambda>_ s'. U s') s"
proof -
  have publish: "wp (Heartbeat_publishWorkerEvent E h ev st) Q s1"
    if "U s1" "\<And>s'. U s' \<Longrightarrow> Q () s'" for h ev st Q s1
    using that by (auto simp: Heartbeat_publishWorkerEvent_def wp_eqs Let_def intro!: NewEvent_up Publish_up)
  show ?thesis unfolding start_pool_def Heartbeat_Start_def register_def Let_def wp_bind
    by (rule sadd_up [OF assms], rule now_up, assumption, rule set_up, assumption, simp)
      (auto simp: wp_return intro!: publish)
qed

end

text \<open>The two commands with their default settings on an empty server in memory.\<close>

definition started_queue :: "mem \<Rightarrow> redis_queue res \<times> mem" where
  "started_queue s = run_state (do {
     r \<leftarrow> r_ping mem_env;
     case r of
       Inl err \<Rightarrow> ret (Inl (Wrapf ''failed to connect to Redis'' err))
     | Inr _ \<Rightarrow> do {
         err \<leftarrow> initStreams mem_env sample_queue;
         case err of Some e \<Rightarrow> ret (Inl e) | None \<Rightarrow> ret (Inr sample_queue)
       }
   }) s"

lemma default_queue: "queue_settings (cf_queue default_config) = sample_queue"
  by (simp add: queue_settings_def default_config_def sample_queue_def)

lemma started_queue_eq: "run_state (NewRedisQueue mem_env (cf_queue default_config)) s = started_queue s"
  unfolding NewRedisQueue_def Let_def queue_settings_def [symmetric] default_queue started_queue_def by (rule refl)


section \<open>A task that takes long\<close>

text \<open>Time passes: the pending references grow older.\<close>

definition age :: "int \<Rightarrow> view \<Rightarrow> view" where
  "age d v = (\<lambda>k. map_option (\<lambda>x. case x of
     RStream y \<Rightarrow> RStream (map_groups (\<lambda>_ g. g\<lparr>g_pel := map (\<lambda>e. e\<lparr>p_idle := p_idle e + d\<rparr>) (g_pel g)\<rparr>) y)
   | y \<Rightarrow> y) (v k))"

text \<open>Worker \<open>w\<close> has taken and started the task, and is running it for 30 seconds.\<close>

definition slow_mem :: mem where
  "slow_mem = (let s = snd (run_state (do {
       (t, _) \<leftarrow> Start mem_env (sample_task ''a'' PriorityHigh StatePending) ''w'';
       UpdateTask mem_env sample_queue t
     }) (taken_mem (sample_task ''a'' PriorityHigh StatePending)))
   in s\<lparr>mem_view := age (30 * Second) (mem_view s)\<rparr>)"

text \<open>
  Recovery goes by the age of the pending reference alone. A task that runs for longer than the claim
  time is taken from its living worker, put back as pending and queued again, to be run a second time.
\<close>

lemma slow_task_recovered:
  "map_option t_state (task_at (mem_view slow_mem) ''a'') = Some StateRunning"
  "map_option t_state (task_at (mem_view (snd (run_state (recoverOrphanedTasks mem_env sample_pool) slow_mem))) ''a'') =
     Some StatePending"
  "map ref_id (next_refs sample_queue (mem_view (snd (run_state (recoverOrphanedTasks mem_env sample_pool) slow_mem)))
     PriorityHigh) = [Some ''a'']"
proof -
  have pool: "pl_queue sample_pool = sample_queue" "pl_id sample_pool = ''w''" by (simp_all add: sample_pool_def)
  show "map_option t_state (task_at (mem_view slow_mem) ''a'') = Some StateRunning" by code_simp
  show "map_option t_state (task_at (mem_view (snd (run_state (recoverOrphanedTasks mem_env sample_pool) slow_mem))) ''a'') =
     Some StatePending"
    unfolding recoverOrphanedTasks_def recover_one_def pool by code_simp
  show "map ref_id (next_refs sample_queue (mem_view (snd (run_state (recoverOrphanedTasks mem_env sample_pool) slow_mem)))
     PriorityHigh) = [Some ''a'']"
    unfolding recoverOrphanedTasks_def recover_one_def pool by code_simp
qed

end
