(* ===== verification/Lifecycle.thy ===== *)
theory Lifecycle
  imports QueueSpec WorkLoop TaskApi
begin

text \<open>
  The way of one task through the system: the API creates it, a worker runs it, and the API tells what
  came of it.
\<close>

section \<open>What a creation leaves\<close>

text \<open>The task \<open>t\<close> was made from the request and put at the end of its stream.\<close>

definition created :: "redis_queue \<Rightarrow> create_request \<Rightarrow> view \<Rightarrow> task \<Rightarrow> view \<Rightarrow> bool" where
  "created q req v t w \<longleftrightarrow> made_from req t \<and> storable t \<and> known_priority (t_priority t) \<and>
     t_state t = StatePending \<and> t_attempts t = 0 \<and>
     (\<exists>m. w = push_ref (stream_of q (t_priority t)) m t (put_task t 0 v))"

context redis
begin

lemma create_now_created:
  assumes t: "t_state t = StatePending" "known_priority (t_priority t)" "t_result t = None" "t_attempts t = 0"
      "in_int64 (t_max_retries t)" "in_int64 (t_timeout t)" "made_from req t"
  shows "wp (create_now E h t) (\<lambda>r s'. reply_status r = 201 \<longrightarrow>
    r = respondJSON 201 (response_doc (ToResponse t)) \<and> created (th_queue h) req (\<alpha> s) t (\<alpha> s')) s"
proof -
  have st: "storable t" if "ToJSON t = Inr (task_doc t)"
    using t marshalable_task_docD [OF that] by (auto simp: storable_def in_int64_def [of 0])
  show ?thesis unfolding create_now_def wp_bind
  proof (rule Enqueue_wp, goal_cases)
    case (1 i s1)
    then have "created (th_queue h) req (\<alpha> s) t (\<alpha> s1)" using t st by (auto simp: created_def)
    then show ?case
      by (auto simp: wp_eqs RecordTaskSubmission_def intro!: record_wp api_publishTaskEvent_wp)
  qed (simp add: wp_return respondError_def)
qed

lemma FromRequest_id: "wp (FromRequest E req) (\<lambda>t _. t_id t \<noteq> '''') s"
  unfolding FromRequest_def New_def wp_bind
  by (rule now_wp, rule uuid_wp) (simp add: wp_return apply_request_def Let_def)

lemma Create_created:
  assumes "decode_create_request body = Some req" "rq_scheduled_at req = None" "in_int64 (th_defaultMaxRetries h)"
  shows "wp (Create E h body) (\<lambda>r s'. reply_status r = 201 \<longrightarrow> (\<exists>t. r = respondJSON 201 (response_doc (ToResponse t)) \<and>
    t_id t \<noteq> '''' \<and> created (th_queue h) req (\<alpha> s) t (\<alpha> s'))) s"
proof -
  let ?Q = "\<lambda>r s'. reply_status r = 201 \<longrightarrow> (\<exists>t. r = respondJSON 201 (response_doc (ToResponse t)) \<and>
    t_id t \<noteq> '''' \<and> created (th_queue h) req (\<alpha> s) t (\<alpha> s'))"
  let ?P = "\<lambda>t s2. \<alpha> s2 = \<alpha> s \<and> t_state t = StatePending \<and> known_priority (t_priority t) \<and>
      t_result t = None \<and> t_attempts t = 0 \<and> in_int64 (t_max_retries t) \<and> in_int64 (t_timeout t) \<and> made_from req t"
  have "in_int64 (rq_max_retries req)" using assms(1) by (rule read_create_request_range)
  then have from_request: "wp (FromRequest E req) ?P s1" if "\<alpha> s1 = \<alpha> s" for s1
    by (rule FromRequest_wp) (use that in simp)
  have make: "wp (do {
        t \<leftarrow> FromRequest E req;
        let t = (if rq_max_retries req \<le> 0 \<and> th_defaultMaxRetries h > 0
          then t\<lparr>t_max_retries := th_defaultMaxRetries h\<rparr> else t);
        create_now E h t }) ?Q s1" if "\<alpha> s1 = \<alpha> s" for s1
    unfolding wp_bind Let_def
  proof (rule wp_mono [OF wp_conj [OF from_request [OF that] FromRequest_id]], elim conjE)
    fix t s2
    assume t: "\<alpha> s2 = \<alpha> s" "t_state t = StatePending" "known_priority (t_priority t)" "t_result t = None"
      "t_attempts t = 0" "in_int64 (t_max_retries t)" "in_int64 (t_timeout t)" "made_from req t" "t_id t \<noteq> ''''"
    let ?t = "if rq_max_retries req \<le> 0 \<and> th_defaultMaxRetries h > 0 then t\<lparr>t_max_retries := th_defaultMaxRetries h\<rparr> else t"
    have "made_from req ?t" "t_id ?t \<noteq> ''''" using t(8,9) by (simp_all add: made_from_def)
    then show "wp (create_now E h ?t) ?Q s2"
      by (intro wp_mono [OF create_now_created [of ?t req h s2]]) (use t assms(3) in auto)
  qed
  show ?thesis
    by (auto simp: Create_def assms(1,2) wp_return wp_bind [of "at_capacity E h"]
        intro!: at_capacity_wp make [unfolded Let_def] simp del: wp_if)
qed

end

section \<open>From creation to outcome\<close>

lemma known_in_priorities: "known_priority p \<Longrightarrow> p \<in> set priorities"
  by (cases p) (simp_all add: priorities_def)

lemma created_waits:
  assumes "queue_ok q" "has_groups q priorities v" "\<forall>p \<in> set priorities. next_refs q v p = []" "keys_ok q v"
    and "created q req v t w"
  shows "waiting q (t_priority t) [stored t] w" "keys_ok q w" "w (pauseKey_of n) = v (pauseKey_of n)"
proof -
  obtain m where t: "made_from req t" "storable t" "known_priority (t_priority t)" "t_state t = StatePending"
      "t_attempts t = 0" and w: "w = push_ref (stream_of q (t_priority t)) m t (put_task t 0 v)"
    using assms(5) by (auto simp: created_def)
  have p: "t_priority t \<in> set priorities" by (rule known_in_priorities [OF t(3)])
  have "waiting q (t_priority t) ([] @ [stored t]) w" unfolding w
    by (rule waiting_enqueue [OF assms(1) _ p]) (use assms(2,3) p t in \<open>auto simp: waiting_def has_groups_def runnable_def\<close>)
  then show "waiting q (t_priority t) [stored t] w" by simp
  show "keys_ok q w" using keys_ok_put [OF assms(1,4), of t 0] unfolding w
    by (auto simp: keys_ok_def push_ref_def strm_ok_def set_ok_def zset_ok_def)
  show "w (pauseKey_of n) = v (pauseKey_of n)" by (simp add: w push_ref_def)
qed

text \<open>
  C3: The life of a task: a system is idle, its server is up and its worker not paused. When the API answers
  a request for an immediate task with 201, one turn of the worker later the API answers the question
  for the task with 200 and a task of one attempt that is completed, or retrying if more attempts are
  allowed, or failed if not.
\<close>

theorem created_task_runs:
  assumes "redis_up E \<alpha> U" "queue_ok (th_queue h)" "in_int64 (th_defaultMaxRetries h)"
    and "keys_ok (th_queue h) (\<alpha> s)" "has_groups (th_queue h) priorities (\<alpha> s)"
    and "\<forall>p \<in> set priorities. next_refs (th_queue h) (\<alpha> s) p = []"
    and "decode_create_request body = Some req" "rq_scheduled_at req = None"
    and "run_state (Create E h body) s = (r, s1)" "reply_status r = 201" "U s1"
    and "pl_queue pl = th_queue h" "\<alpha> s (pauseKey_of (pl_id pl)) = None"
    and "quiet \<alpha> (pl_executor pl)" "calm U (pl_executor pl)" "encodable (pl_executor pl)"
    and "run_state (worker_turn E pl cx) s1 = (u, s2)"
  shows "\<exists>t t'. r = respondJSON 201 (response_doc (ToResponse t)) \<and> made_from req t \<and>
    fst (run_state (Get E (t_id t)) s2) = respondJSON 200 (response_doc (ToResponse t')) \<and>
    t_attempts t' = 1 \<and>
    (t_state t' = StateCompleted \<or> 1 < t_max_retries t \<and> t_state t' = StateRetrying \<or>
     t_max_retries t \<le> 1 \<and> t_state t' = StateFailed)"
proof -
  have redis: "redis E \<alpha>" using assms(1) by (simp add: redis_up_def)
  obtain t where r: "r = respondJSON 201 (response_doc (ToResponse t))" and id: "t_id t \<noteq> ''''"
      and t: "created (th_queue h) req (\<alpha> s) t (\<alpha> s1)"
    using wp_runD [OF redis.Create_created [OF redis assms(7,8,3)] assms(9)] assms(10) by auto
  have t0: "t_attempts t = 0" "made_from req t" "t_priority t \<in> set priorities"
    using t known_in_priorities by (auto simp: created_def)
  note w = created_waits [OF assms(2,5,6,4) t]
  have "wp (worker_turn E pl cx) (\<lambda>_ s'. U s' \<and> run_over (stored t) (\<alpha> s')) s1"
    by (rule wp_mono [OF redis_up.worker_turn_up [OF assms(1,11) _ _ _ _ t0(3) assms(14-16), of "stored t" "[]"]])
      (use assms(2,12,13) w in auto)
  then have "U s2 \<and> run_over (stored t) (\<alpha> s2)" using assms(17) by (rule wp_runD)
  then obtain t' where t': "U s2" "task_at (\<alpha> s2) (t_id t) = Some t'" "t_attempts t' = 1"
    "t_state t' = StateCompleted \<or> 1 < t_max_retries t \<and> t_state t' = StateRetrying \<or>
     t_max_retries t \<le> 1 \<and> t_state t' = StateFailed"
    using t0(1) by (auto simp: run_over_def)
  have "wp (Get E (t_id t)) (\<lambda>g _. g = respondJSON 200 (response_doc (ToResponse t'))) s2"
    unfolding Get_def if_not_P [OF id] wp_bind
    by (rule redis_up.GetTask_up [OF assms(1) t'(1,2)]) (simp add: wp_return)
  then have "fst (run_state (Get E (t_id t)) s2) = respondJSON 200 (response_doc (ToResponse t'))"
    by (rule wp_runD) (rule prod.collapse [symmetric])
  then show ?thesis using r t0(2) t'(3,4) by blast
qed

theorem created_task_runs_witness:
  "\<exists>t t'. fst (run_state (Create mem_env sample_handler sample_body) sample_mem) =
      respondJSON 201 (response_doc (ToResponse t)) \<and> t_type t = ''echo'' \<and>
    fst (run_state (Get mem_env (t_id t)) (snd (run_state (worker_turn mem_env sample_pool sample_ctx)
      (snd (run_state (Create mem_env sample_handler sample_body) sample_mem))))) =
      respondJSON 200 (response_doc (ToResponse t')) \<and> t_attempts t' = 1"
proof -
  let ?create = "run_state (Create mem_env sample_handler sample_body) sample_mem"
  have q: "th_queue sample_handler = sample_queue" "pl_queue sample_pool = sample_queue" "pl_id sample_pool = ''w''"
    by (simp_all add: sample_handler_def NewTaskHandler_def sample_pool_def)
  have handler: "queue_ok (th_queue sample_handler)" "in_int64 (th_defaultMaxRetries sample_handler)"
    by (simp_all add: sample_handler_def NewTaskHandler_def queue_ok_def sample_queue_def in_int64_def)
  have keys: "keys_ok (th_queue sample_handler) (mem_view sample_mem)" unfolding q by (rule sample_mem_keys)
  have "\<forall>p \<in> set priorities. group_at (strm_at (mem_view sample_mem) (stream_of sample_queue p)) (consumerGroup sample_queue) \<noteq> None"
    by code_simp
  then have groups: "has_groups (th_queue sample_handler) priorities (mem_view sample_mem)"
    by (simp add: has_groups_def q)
  have idle: "\<forall>p \<in> set priorities. next_refs (th_queue sample_handler) (mem_view sample_mem) p = []"
    unfolding q by code_simp
  obtain req where req: "decode_create_request sample_body = Some req" "rq_scheduled_at req = None" "rq_type req = ''echo''"
    by (simp add: sample_body_def read_create_request_def field_Cons in_int64_def)
  have up: "reply_status (fst ?create) = 201" "mem_up 0 (snd ?create)" by code_simp+
  have awake: "mem_view sample_mem (pauseKey_of (pl_id sample_pool)) = None" unfolding q by code_simp
  have same: "pl_queue sample_pool = th_queue sample_handler" by (simp add: q)
  from created_task_runs [OF memup.redis_up_axioms handler keys groups idle req(1,2) prod.collapse [symmetric] up
      same awake sample_pool_handlers prod.collapse [symmetric], of sample_ctx] req(3)
  show ?thesis unfolding made_from_def by metis
qed

end
