(* ===== verification/Spec2Isabelle.thy ===== *)
theory Spec2Isabelle
  imports MemRedis Scheduler DeadLetter Metrics Events TaskHandlers Worker AdminApi Pool Middleware Hub EndToEnd PollRace Commands Lifecycle
begin

text \<open>
  A verification development for task-queue-go, a distributed task queue: an HTTP server takes
  tasks and puts them on priority streams in Redis, workers in other processes take them off,
  run them and store what came of it.

  \<^bold>\<open>The parts and how they meet.\<close> The API handlers (\<^verbatim>\<open>internal/api/handlers\<close>) store a task
  under \<^verbatim>\<open>task:<id>\<close> and either append a reference to the stream of its priority
  (\<^verbatim>\<open>RedisQueue.Enqueue\<close>) or enter it into a sorted set scored by its start time
  (\<^verbatim>\<open>ScheduleTaskFunc\<close>). The scheduler polls that set under a lock and moves due tasks to
  their streams. The goroutines of a worker pool read the streams as a consumer group, drive the
  task through the state machine of \<^verbatim>\<open>internal/task/state.go\<close>, run the registered handler
  and store success, a later retry (with the backoff of \<^verbatim>\<open>retry.go\<close>) or a dead letter
  before they acknowledge the message. Messages of workers that died are claimed and handed back
  by the recovery. Heartbeats, events and metrics accompany all this.

  \<^bold>\<open>Theories.\<close>
  \<^item> \<open>Prelude\<close>: programs of a state monad, their weakest preconditions, Go's errors, 64-bit
    integers. \<open>GoFloat\<close>: \<^verbatim>\<open>float64\<close> as rationals rounded to 53 bits. \<open>GoJson\<close>:
    \<^verbatim>\<open>interface{}\<close> values and JSON documents. \<open>GoFmt\<close>: the texts made by \<^verbatim>\<open>fmt\<close>.
  \<^item> \<open>World\<close>: the calls to Redis, the clock, the random source, \<^verbatim>\<open>uuid\<close> and
    Prometheus as a record \<open>env\<close> the definitions take as an argument, with the locales
    \<open>redis\<close> (each call does what Redis documents, or fails) and \<open>redis_up\<close> (and does not
    fail). \<open>MemRedis\<close>: a server in memory that satisfies both, with scripted faults; the closed
    witnesses run on it.
  \<^item> \<open>TaskModel\<close>, \<open>TaskState\<close>, \<open>RetryPolicy\<close>: \<^verbatim>\<open>internal/task\<close>.
    \<open>Config\<close>: \<^verbatim>\<open>internal/config\<close>.
  \<^item> \<open>RedisQueue\<close>, \<open>Scheduler\<close>, \<open>DeadLetter\<close>: \<^verbatim>\<open>internal/queue\<close>. \<open>QueueSpec\<close>: the abstract queue
    that \<open>RedisQueue\<close> refines. \<open>PollRace\<close>: the poll of
    \<open>Scheduler\<close> call by call, and several schedulers whose calls interleave while the lock may expire.
    \<open>Events\<close>: \<^verbatim>\<open>internal/events\<close>. \<open>Metrics\<close>: \<^verbatim>\<open>internal/metrics\<close>.
  \<^item> \<open>Executor\<close>, \<open>TaskHandlers\<close>, \<open>Heartbeat\<close>, \<open>Worker\<close> and \<open>Pool\<close>:
    \<^verbatim>\<open>internal/worker\<close>, with the handlers of \<^verbatim>\<open>cmd/worker/main.go\<close>. \<open>Worker\<close> is what
    happens to one task, \<open>Pool\<close> the goroutines and channels around it, \<open>WorkLoop\<close> what the turns of one
    worker goroutine do to the queue.
  \<^item> \<open>Http\<close>, \<open>TaskApi\<close>, \<open>AdminApi\<close>: \<^verbatim>\<open>internal/api/handlers\<close>. \<open>Middleware\<close>:
    \<^verbatim>\<open>internal/api/middleware\<close>, with the token buckets in floating point. \<open>Hub\<close>:
    \<^verbatim>\<open>internal/api/websocket\<close>, the goroutines of the hub and of its clients as one step function over
    their channels. \<open>Server\<close>: \<^verbatim>\<open>internal/api/routes.go\<close>, the chain of middlewares and the table of
    routes; what \<^verbatim>\<open>chi\<close> does with them is the record \<open>chi\<close>, an argument.
  \<^item> \<open>ClientTypes\<close> and \<open>ApiClient\<close>: \<^verbatim>\<open>pkg/client/client_gen.go\<close>, its documents and its operations.
    \<open>WsClient\<close>: \<^verbatim>\<open>websocket.go\<close> there, with its reading goroutine. \<open>ClientLib\<close>: \<^verbatim>\<open>client.go\<close> and
    \<^verbatim>\<open>options.go\<close>. \<open>EndToEnd\<close>: the client against the server.
  \<^item> \<open>Commands\<close>: \<^verbatim>\<open>cmd/api-server/main.go\<close> and \<^verbatim>\<open>cmd/worker/main.go\<close>, start and stop, and the
    system of both. \<open>Lifecycle\<close>: the way of one task from its creation to its outcome.

  \<^bold>\<open>State.\<close> A Go function that reaches outside the process is a program \<open>('s, 'a) io\<close> over a
  state \<open>'s\<close> of the world which no definition looks into; theorems speak of it through the
  abstraction \<open>\<alpha>\<close> of the locale \<open>redis\<close>, a map from keys to strings, streams with their
  consumer groups, sorted sets and sets. A pointer to a task that a function updates is returned
  updated. Goroutines that share channels (\<open>Pool\<close>, \<open>Hub\<close>, \<open>WsClient\<close>) are steps on a record of what
  they share and of where each of them stands; a step that would send on or close a closed channel has
  the value \<open>Crashes\<close>, one that must wait \<open>Waits\<close>.

  \<^bold>\<open>What the lemmas show.\<close> For every operation on Redis there is a rule (\<open>..._wp\<close>) that gives
  its effect on every branch, the failing ones included, and where the handlers rely on it a rule
  (\<open>..._up\<close>) for a server that does not fail. From them: no message is acknowledged before the
  outcome is stored, a task that may start is settled by one run when the server is up, the
  scheduler is neither early nor, when the server is up, late, recovery and dead-letter retry lose
  no task, the queue refines one list of IDs per
  priority and hands out the oldest of the highest, and the HTTP answers
  say truly what was stored. A worker that goes on taking tasks empties a stream, each task run to an
  outcome, and so does a system just started; what becomes of a created task is what the API answers. Schedulers that race start a task at most once as long as
  the lock outlives their polls, and never one that does not wait to be started. In \<open>TaskState\<close> every
  sequence of operations follows the transition table; in \<open>RetryPolicy\<close> the floating-point backoff
  equals its integer specification and stays in bounds; in \<open>Pool\<close> an invariant of all reachable states
  ties the semaphore to the working goroutines, and a measure bounds the steps after a stop. In
  \<open>Middleware\<close> a bucket lets through what its limit and the time allow, up to rounding, and clients do
  not affect each other; in \<open>Hub\<close> and \<open>WsClient\<close> no channel is misused and events keep their order. In
  \<open>EndToEnd\<close> a task that the client is told was submitted is stored and queued as submitted, and every
  field of an answer arrives. The lemmas also record where the code does not do what its comments
  promise.

  \<^bold>\<open>Bounds and fuel.\<close> No definition needs fuel: loops over lists are structural, the endless
  polling loops consume a list of the events of their \<^verbatim>\<open>select\<close>, and a busy loop of a
  handler is bounded by its own counter. The turns of a worker and the steps of a poll are counted, and
  the theorems give the count that is enough. \<^verbatim>\<open>int\<close> and \<^verbatim>\<open>int64\<close> are integers, with
  \<open>wrap64\<close> written where an operation can leave the range; instants are nanoseconds since 1970.

  \<^bold>\<open>Assumptions.\<close> The laws of \<open>redis\<close> allow a failing call to have taken effect or not, and
  allow no other client's command between the calls of one operation; for the schedulers \<open>PollRace\<close>
  drops that. The order in which Go visits a map is the order of the association list that models it.
  JSON is exchanged as a tree, and keys of objects are matched exactly.

  \<^bold>\<open>Not modelled.\<close> Log lines (\<^verbatim>\<open>internal/logger\<close> and the request logging middleware have no
  effect on the state); the HTTP listener and the signals around the two commands; the interface types
  of the generated client; the example program \<^verbatim>\<open>examples/go\<close>, which prints what the client library
  returns.
\<close>

end
